(* ===== verification/Prelude.thy ===== *)
theory Prelude
  imports Main "HOL-Library.Word"
begin

text \<open>
  Shared base of the development: the machine integer types of the 32-bit target, bytes in
  little-endian order, byte-addressed memory with region reads and writes, C string helpers,
  and the result type for code that can terminate the program. The component theories add
  their defining equations to the collections declared here.
\<close>

unbundle bit_operations_syntax

named_theorems le_simps \<open>little-endian encoding and decoding\<close>
named_theorems mem_simps \<open>reads and writes of byte memory\<close>
named_theorems asm_simps \<open>execution of inline assembly\<close>
named_theorems layout_simps \<open>sizes and offsets of C structures\<close>

section \<open>Types of the 32-bit target\<close>

text \<open>
  \<open>uint8_t\<close>, \<open>unsigned short\<close>, and the 32-bit types: \<open>int\<close>, \<open>long\<close>, \<open>uint32_t\<close>,
  \<open>size_t\<close> and pointers are all 32 bits wide on the target. A signed value is the same word read with
  \<^const>\<open>sint\<close>.
\<close>

type_synonym u8 = "8 word"
type_synonym u16 = "16 word"
type_synonym u32 = "32 word"
type_synonym bytes = "u8 list"
type_synonym mem = "u32 \<Rightarrow> u8"

lemma unat_u32_less: "unat (x :: u32) < 2 ^ 32"
  using unsigned_less [of x] by simp

lemma unat_ucast_u16: "unat (ucast (x :: u16) :: u32) = unat x"
proof -
  have "unat x < 2 ^ 16" using unsigned_less [of x] by simp
  then have "unat x < 2 ^ 32" by simp
  then show ?thesis by (simp add: unsigned_ucast_eq take_bit_nat_eq_self)
qed

lemma unat_ucast_less: "unat (x :: u32) < 2 ^ 16 \<Longrightarrow> unat (ucast x :: u16) = unat x"
  by (simp add: unsigned_ucast_eq unsigned_take_bit_eq take_bit_nat_eq_self)

lemma unat_ucast_u8: "unat (ucast (x :: u8) :: u32) = unat x"
proof -
  have "unat x < 2 ^ 8" using unsigned_less [of x] by simp
  then have "unat x < 2 ^ 32" by simp
  then show ?thesis by (simp add: unsigned_ucast_eq take_bit_nat_eq_self)
qed

lemma unat_uminus_u32: "x \<noteq> 0 \<Longrightarrow> unat (- (x :: u32)) = 2 ^ 32 - unat x"
  using unat_sub_if' [of 0 x] by (auto simp: unat_eq_0)

lemma unat_minus_of_nat:
  assumes "0 < k" "k \<le> 2 ^ 32"
  shows "unat (- of_nat k :: u32) = 2 ^ 32 - k"
proof (cases "k = 2 ^ 32")
  case True
  then have "(of_nat k :: u32) = 0" by simp
  with True show ?thesis by simp
next
  case False
  with assms have k: "unat (of_nat k :: u32) = k" by (simp add: unat_of_nat)
  with assms have "(of_nat k :: u32) \<noteq> 0" by (metis less_irrefl unat_0)
  with k show ?thesis by (simp add: unat_uminus_u32)
qed

section \<open>Termination of the program and refused input\<close>

text \<open>
  \<open>Exit_failure d\<close> is \<open>exit(EXIT_FAILURE)\<close> after the diagnostic \<open>d\<close>;
  \<open>Assert_failed\<close> is a failing \<open>assert\<close>; \<open>Bad_access\<close> marks a C access outside of
  its object, which the proofs show never happens where the code intends it not to.
\<close>

datatype diag =
    No_env | Cannot_open | Fread_error | Not_an_exe
  | Bad_coff_header | Opt_header_mismatch | Bad_coff_opt_header | No_section_headers
  | No_elf_header | Not_an_elf | Bad_elf_class | Bad_elf_header | No_phdr | Bad_alignment
  | Err_reading | Realloc_failed | Free_failed
  | Dpmi32_unavailable | Invalid_dpmi_server | Dpmi_init_failed | Dpmi_unavailable
  | Alloc_failed

datatype stop = Exit_failure diag | Assert_failed | Bad_access

section \<open>Little-endian bytes\<close>

definition bytes16 :: "u16 \<Rightarrow> bytes" where
  "bytes16 v = [ucast v, ucast (drop_bit 8 v)]"

definition bytes32 :: "u32 \<Rightarrow> bytes" where
  "bytes32 v = [ucast v, ucast (drop_bit 8 v), ucast (drop_bit 16 v), ucast (drop_bit 24 v)]"

definition le16 :: "bytes \<Rightarrow> u16" where
  "le16 bs = ucast (bs ! 0) OR push_bit 8 (ucast (bs ! 1))"

definition le32 :: "bytes \<Rightarrow> u32" where
  "le32 bs = ucast (bs ! 0) OR push_bit 8 (ucast (bs ! 1)) OR push_bit 16 (ucast (bs ! 2))
     OR push_bit 24 (ucast (bs ! 3))"

lemma length_bytes16 [simp, le_simps]: "length (bytes16 v) = 2"
  by (simp add: bytes16_def)

lemma length_bytes32 [simp, le_simps]: "length (bytes32 v) = 4"
  by (simp add: bytes32_def)

lemma le16_bytes16 [simp, le_simps]: "le16 (bytes16 v) = v"
  by (rule bit_word_eqI) (auto simp: le16_def bytes16_def bit_simps)

lemma le32_bytes32 [simp, le_simps]: "le32 (bytes32 v) = v"
proof (rule bit_word_eqI)
  fix n assume n: "n < LENGTH(32)"
  consider "n < 8" | "8 \<le> n" "n < 16" | "16 \<le> n" "n < 24" | "24 \<le> n"
    by linarith
  then show "bit (le32 (bytes32 v)) n = bit v n"
    by cases (use n in \<open>auto simp: le32_def bytes32_def bit_simps\<close>)
qed

lemma le16_append [simp, le_simps]: "le16 (bytes16 v @ bs) = v"
  using le16_bytes16 [of v] by (simp add: le16_def nth_append)

lemma le32_append [simp, le_simps]: "le32 (bytes32 v @ bs) = v"
  using le32_bytes32 [of v] by (simp add: le32_def nth_append)

lemma byte_high_bit [simp]:
  fixes x :: u8
  shows "bit x (8 + n) = False" "bit x (16 + n) = False" "bit x (24 + n) = False"
  by (auto dest!: bit_imp_le_length)

lemma bytes16_le16: "length bs = 2 \<Longrightarrow> bytes16 (le16 bs) = bs"
  by (auto simp: le16_def bytes16_def bit_simps length_Suc_conv numeral_2_eq_2
      intro!: bit_word_eqI)

lemma bytes32_le32:
  assumes "length bs = 4"
  shows "bytes32 (le32 bs) = bs"
proof -
  obtain a b c d where "bs = [a, b, c, d]"
    using assms by (auto simp: length_Suc_conv numeral_eq_Suc)
  then show ?thesis
    by (auto simp: le32_def bytes32_def bit_simps intro!: bit_word_eqI)
qed

lemma le16_inject: "length xs = 2 \<Longrightarrow> length ys = 2 \<Longrightarrow> le16 xs = le16 ys \<longleftrightarrow> xs = ys"
  by (metis bytes16_le16)

lemma le32_inject: "length xs = 4 \<Longrightarrow> length ys = 4 \<Longrightarrow> le32 xs = le32 ys \<longleftrightarrow> xs = ys"
  by (metis bytes32_le32)

text \<open>A 16-bit or 32-bit member at an offset of a structure image.\<close>

definition get16 :: "bytes \<Rightarrow> nat \<Rightarrow> u16" where
  "get16 bs k = le16 (drop k bs)"

definition get32 :: "bytes \<Rightarrow> nat \<Rightarrow> u32" where
  "get32 bs k = le32 (drop k bs)"

text \<open>The two 16-bit halves of a 32-bit value, as the DPMI register pairs carry them.\<close>

definition lo16 :: "u32 \<Rightarrow> u16" where
  "lo16 v = ucast v"

definition hi16 :: "u32 \<Rightarrow> u16" where
  "hi16 v = ucast (drop_bit 16 v)"

definition pair32 :: "u16 \<Rightarrow> u16 \<Rightarrow> u32" where
  "pair32 hi lo = push_bit 16 (ucast hi) OR ucast lo"

lemma pair32_halves [simp]: "pair32 (hi16 v) (lo16 v) = v"
proof (rule bit_word_eqI)
  fix n assume n: "n < LENGTH(32)"
  consider "n < 16" | "16 \<le> n" by linarith
  then show "bit (pair32 (hi16 v) (lo16 v)) n = bit v n"
    by cases (use n in \<open>auto simp: pair32_def hi16_def lo16_def bit_simps\<close>)
qed

lemma lo16_pair32 [simp]: "lo16 (pair32 h l) = l"
  by (rule bit_word_eqI) (auto simp: pair32_def lo16_def bit_simps)

lemma hi16_pair32 [simp]: "hi16 (pair32 h l) = h"
proof (rule bit_word_eqI)
  fix n assume "n < LENGTH(16)"
  moreover have "bit l (16 + n) = False"
    using bit_imp_le_length [of l "16 + n"] by auto
  ultimately show "bit (hi16 (pair32 h l)) n = bit h n"
    by (auto simp: pair32_def hi16_def bit_simps)
qed

lemma bytes32_halves: "bytes32 v = bytes16 (lo16 v) @ bytes16 (hi16 v)"
  by (auto simp: bytes32_def bytes16_def lo16_def hi16_def bit_simps intro!: bit_word_eqI)

section \<open>Byte-addressed memory\<close>

text \<open>
  A region is given by its first address and its length; addresses wrap at 32 bits, so that an
  address \<open>x\<close> lies in it when its distance \<open>unat (x - a)\<close> is below the length.
\<close>

definition in_region :: "u32 \<Rightarrow> u32 \<Rightarrow> nat \<Rightarrow> bool" where
  "in_region x a n \<longleftrightarrow> unat (x - a) < n"

definition store_bytes :: "mem \<Rightarrow> u32 \<Rightarrow> bytes \<Rightarrow> mem" where
  "store_bytes m a bs = (\<lambda>x. if in_region x a (length bs) then bs ! unat (x - a) else m x)"

definition load_bytes :: "mem \<Rightarrow> u32 \<Rightarrow> nat \<Rightarrow> bytes" where
  "load_bytes m a n = map (\<lambda>i. m (a + of_nat i)) [0..<n]"

definition store16 :: "mem \<Rightarrow> u32 \<Rightarrow> u16 \<Rightarrow> mem" where
  "store16 m a v = store_bytes m a (bytes16 v)"

definition store32 :: "mem \<Rightarrow> u32 \<Rightarrow> u32 \<Rightarrow> mem" where
  "store32 m a v = store_bytes m a (bytes32 v)"

definition load16 :: "mem \<Rightarrow> u32 \<Rightarrow> u16" where
  "load16 m a = le16 (load_bytes m a 2)"

definition load32 :: "mem \<Rightarrow> u32 \<Rightarrow> u32" where
  "load32 m a = le32 (load_bytes m a 4)"

text \<open>Two regions of positive length share no address.\<close>

definition apart :: "u32 \<Rightarrow> nat \<Rightarrow> u32 \<Rightarrow> nat \<Rightarrow> bool" where
  "apart a n b k \<longleftrightarrow> n \<le> unat (b - a) \<and> k \<le> unat (a - b)"

lemma in_region_0 [simp, mem_simps]: "\<not> in_region x a 0"
  by (simp add: in_region_def)

lemma in_region_mono: "in_region x a n \<Longrightarrow> n \<le> k \<Longrightarrow> in_region x a k"
  by (simp add: in_region_def)

lemma in_region_unat:
  "unat a + n \<le> 2 ^ 32 \<Longrightarrow> in_region x a n \<longleftrightarrow> unat a \<le> unat x \<and> unat x < unat a + n"
  by (auto simp: in_region_def unat_sub_if')

lemma in_region_sub:
  assumes "in_region x (a + of_nat k) n" "k + n \<le> m" "m \<le> 2 ^ 32"
  shows "in_region x a m"
proof -
  define j where "j = x - (a + of_nat k)"
  have j: "unat j < n" using assms(1) by (simp add: in_region_def j_def)
  have "x - a = j + of_nat k" by (simp add: j_def)
  moreover have "unat j + k < 2 ^ 32" using j assms(2,3) by simp
  then have "unat (j + of_nat k) = unat j + k"
    by (simp add: unat_word_ariths unat_of_nat)
  ultimately have "unat (x - a) = unat j + k" by simp
  then show ?thesis using j assms(2) by (simp add: in_region_def)
qed

lemma in_region_offset [mem_simps]:
  "in_region (a + of_nat i) a n \<longleftrightarrow> i mod 2 ^ 32 < n"
  by (simp add: in_region_def unat_of_nat)

lemma store_bytes_Nil [simp, mem_simps]: "store_bytes m a [] = m"
  by (simp add: store_bytes_def)

lemma store_bytes_outside [mem_simps]:
  "\<not> in_region x a (length bs) \<Longrightarrow> store_bytes m a bs x = m x"
  by (simp add: store_bytes_def)

lemma store_bytes_inside [mem_simps]:
  "i < length bs \<Longrightarrow> i < 2 ^ 32 \<Longrightarrow> store_bytes m a bs (a + of_nat i) = bs ! i"
  by (simp add: store_bytes_def in_region_def unat_of_nat)

lemma length_load_bytes [simp, mem_simps]: "length (load_bytes m a n) = n"
  by (simp add: load_bytes_def)

lemma load_bytes_cong:
  assumes "\<And>x. in_region x a n \<Longrightarrow> m x = m' x" "n \<le> 2 ^ 32"
  shows "load_bytes m a n = load_bytes m' a n"
  using assms by (auto simp: load_bytes_def in_region_def unat_of_nat)

lemma load_store_bytes:
  "length bs \<le> 2 ^ 32 \<Longrightarrow> load_bytes (store_bytes m a bs) a (length bs) = bs"
  by (auto simp: load_bytes_def store_bytes_inside intro!: nth_equalityI)

lemma load16_store16 [simp, mem_simps]: "load16 (store16 m a v) a = v"
  using load_store_bytes [of "bytes16 v" m a] by (simp add: load16_def store16_def)

lemma load32_store32 [simp, mem_simps]: "load32 (store32 m a v) a = v"
  using load_store_bytes [of "bytes32 v" m a] by (simp add: load32_def store32_def)

lemma apart_sym: "apart a n b k \<Longrightarrow> apart b k a n"
  by (simp add: apart_def)

lemma apart_not_in:
  assumes "apart a n b k" "in_region x b k"
  shows "\<not> in_region x a n"
proof
  assume "in_region x a n"
  then have x: "unat (x - a) < n" "unat (x - b) < k" "n \<le> unat (b - a)" "k \<le> unat (a - b)"
    using assms by (auto simp: in_region_def apart_def)
  define i d where "i = x - a" and "d = b - a"
  have *: "unat i < unat d" "unat (i - d) < unat (- d)"
    using x by (auto simp: i_def d_def)
  then have "d \<noteq> 0" by auto
  then have "unat (- d) = 2 ^ 32 - unat d"
    by (simp add: unat_uminus_u32)
  moreover have "unat (i - d) = 2 ^ 32 + unat i - unat d"
    using *(1) by (simp add: unat_sub_if')
  ultimately show False
    using *(2) unat_u32_less [of d] by simp
qed

lemma load_bytes_store_apart:
  assumes "apart a (length bs) b n" "n \<le> 2 ^ 32"
  shows "load_bytes (store_bytes m a bs) b n = load_bytes m b n"
proof -
  have "store_bytes m a bs (b + of_nat i) = m (b + of_nat i)" if "i < n" for i
    using that assms(2)
    by (intro store_bytes_outside apart_not_in [OF assms(1)]) (simp add: in_region_offset)
  then show ?thesis by (simp add: load_bytes_def)
qed

lemma load32_store_apart [mem_simps]:
  "apart a 4 b 4 \<Longrightarrow> load32 (store32 m a v) b = load32 m b"
  "apart a 2 b 4 \<Longrightarrow> load32 (store16 m a w) b = load32 m b"
  by (simp_all add: load32_def store32_def store16_def load_bytes_store_apart)

lemma load16_store_apart [mem_simps]:
  "apart a 4 b 2 \<Longrightarrow> load16 (store32 m a v) b = load16 m b"
  "apart a 2 b 2 \<Longrightarrow> load16 (store16 m a w) b = load16 m b"
  by (simp_all add: load16_def store32_def store16_def load_bytes_store_apart)

lemma store_bytes_append:
  assumes "length xs + length ys \<le> 2 ^ 32"
  shows "store_bytes (store_bytes m a xs) (a + of_nat (length xs)) ys = store_bytes m a (xs @ ys)"
    (is "?l = ?r")
proof
  fix x
  define i where "i = unat (x - a)"
  have x: "x = a + of_nat i" and i: "i < 2 ^ 32"
    unfolding i_def using unat_u32_less [of "x - a"] by auto
  let ?n = "length xs"
  show "?l x = ?r x"
  proof (cases "?n \<le> i")
    case True
    then have "x - (a + of_nat ?n) = of_nat (i - ?n)"
      unfolding x by (simp add: of_nat_diff)
    moreover have "unat (of_nat (i - ?n) :: u32) = i - ?n"
      using i by (simp add: unat_of_nat)
    ultimately have "unat (x - (a + of_nat ?n)) = i - ?n" by (simp only:)
    then show ?thesis
      using True by (auto simp: store_bytes_def in_region_def nth_append simp flip: i_def)
  next
    case False
    then have less: "i < ?n" by simp
    then have "x - (a + of_nat ?n) = - of_nat (?n - i)"
      unfolding x by (simp add: of_nat_diff)
    moreover have "unat (- of_nat (?n - i) :: u32) = 2 ^ 32 - (?n - i)"
      using less assms by (intro unat_minus_of_nat) auto
    ultimately have "unat (x - (a + of_nat ?n)) = 2 ^ 32 - (?n - i)" by (simp only:)
    then have "\<not> in_region x (a + of_nat ?n) (length ys)"
      using assms less by (simp add: in_region_def)
    then show ?thesis
      using False i_def by (auto simp: store_bytes_def in_region_def nth_append)
  qed
qed

section \<open>C strings\<close>

text \<open>
  A C string is a byte list read up to its first NUL. \<open>strncpy\<close> copies at most \<open>n\<close> bytes and
  fills the rest of the \<open>n\<close> bytes with NUL, without a terminator when the source is too long.
\<close>

definition cstr :: "bytes \<Rightarrow> bytes" where
  "cstr bs = takeWhile (\<lambda>b. b \<noteq> 0) bs"

definition strncpy :: "bytes \<Rightarrow> bytes \<Rightarrow> nat \<Rightarrow> bytes" where
  "strncpy dst src n = take n (cstr src @ replicate n 0) @ drop n dst"

definition strcat :: "bytes \<Rightarrow> bytes \<Rightarrow> bytes" where
  "strcat dst s =
     (let k = length (cstr dst) in take k dst @ cstr s @ [0] @ drop (k + length (cstr s) + 1) dst)"

lemma length_strncpy [simp]: "n \<le> length dst \<Longrightarrow> length (strncpy dst src n) = length dst"
  by (simp add: strncpy_def)

lemma cstr_no_NUL: "0 \<notin> set (cstr bs)"
  by (auto simp: cstr_def dest: set_takeWhileD)

lemma length_strcat:
  "length (cstr dst) + length (cstr s) < length dst \<Longrightarrow> length (strcat dst s) = length dst"
  by (simp add: strcat_def Let_def)

lemma cstr_append_NUL: "0 \<notin> set xs \<Longrightarrow> cstr (xs @ 0 # ys) = xs"
  by (auto simp: cstr_def takeWhile_append)

section \<open>Results of fallible code\<close>

text \<open>\<open>bindR\<close> continues with the value of a computation, or stops where it stopped.\<close>

definition bindR :: "'e + 'a \<Rightarrow> ('a \<Rightarrow> 'e + 'b) \<Rightarrow> 'e + 'b" where
  "bindR r f = (case r of Inl e \<Rightarrow> Inl e | Inr x \<Rightarrow> f x)"

lemma bindR_simps [simp]: "bindR (Inl e) f = Inl e" "bindR (Inr x) f = f x"
  by (simp_all add: bindR_def)

lemma bindR_Inr_iff: "bindR r f = Inr y \<longleftrightarrow> (\<exists>x. r = Inr x \<and> f x = Inr y)"
  by (cases r) auto

lemma bindR_Inl_iff: "bindR r f = Inl e \<longleftrightarrow> r = Inl e \<or> (\<exists>x. r = Inr x \<and> f x = Inl e)"
  by (cases r) auto

end
