(* ===== verification/Layout.thy ===== *)
theory Layout
  imports Prelude
begin

text \<open>
  C structure layout on the 32-bit target (natural alignment, SmallerC and GCC agree on it), and
  the structures whose offsets other code depends on: \<open>_GO32_StubInfo\<close> of \<open>stubinfo.h\<close>,
  which the loaded program reads through the \<open>STUBINFO_*\<close> offsets, and \<open>__dpmi_int_regs\<close> of
  \<open>util.h\<close>, which the inline assembly of \<open>int2f\<close> addresses by numeric offsets.
\<close>

section \<open>Layout of structures\<close>

datatype ctype = U16 | U32 | Chars nat

fun csize :: "ctype \<Rightarrow> nat" where
  "csize U16 = 2"
| "csize U32 = 4"
| "csize (Chars n) = n"

fun calign :: "ctype \<Rightarrow> nat" where
  "calign U16 = 2"
| "calign U32 = 4"
| "calign (Chars n) = 1"

definition align_up :: "nat \<Rightarrow> nat \<Rightarrow> nat" where
  "align_up n a = (n + a - 1) div a * a"

text \<open>The offsets of a list of members, when the first free byte is \<open>n\<close>.\<close>

fun offsets_from :: "nat \<Rightarrow> ctype list \<Rightarrow> nat list" where
  "offsets_from n [] = []"
| "offsets_from n (t # ts) =
     (let o1 = align_up n (calign t) in o1 # offsets_from (o1 + csize t) ts)"

fun end_from :: "nat \<Rightarrow> ctype list \<Rightarrow> nat" where
  "end_from n [] = n"
| "end_from n (t # ts) = end_from (align_up n (calign t) + csize t) ts"

definition struct_offsets :: "ctype list \<Rightarrow> nat list" where
  "struct_offsets ts = offsets_from 0 ts"

definition struct_size :: "ctype list \<Rightarrow> nat" where
  "struct_size ts = align_up (end_from 0 ts) (fold max (map calign ts) 1)"

text \<open>A structure without padding: its image is the members' bytes one after the other.\<close>

fun packed_from :: "nat \<Rightarrow> ctype list \<Rightarrow> bool" where
  "packed_from n [] = True"
| "packed_from n (t # ts) \<longleftrightarrow> n mod calign t = 0 \<and> packed_from (n + csize t) ts"

lemma align_up_aligned [layout_simps]: "0 < a \<Longrightarrow> n mod a = 0 \<Longrightarrow> align_up n a = n"
proof -
  assume a: "0 < a" and "n mod a = 0"
  then obtain k where n: "n = a * k" by (auto simp: mod_eq_0_iff_dvd elim: dvdE)
  have "((a - 1) + k * a) div a = k"
    using a by (subst div_mult_self1) auto
  with a n show ?thesis by (simp add: align_up_def algebra_simps)
qed

lemma packed_end_from:
  "packed_from n ts \<Longrightarrow> 0 \<notin> set (map calign ts) \<Longrightarrow> end_from n ts = n + sum_list (map csize ts)"
  by (induction ts arbitrary: n) (auto simp: align_up_aligned)

section \<open>The structure handed to the loaded program\<close>

text \<open>The standard djgpp structure, and the members this stub appends to it.\<close>

record go32_stubinfo =
  magic :: bytes
  si_size :: u32
  minstack :: u32
  memory_handle :: u32
  initial_size :: u32
  minkeep :: u16
  ds_selector :: u16
  ds_segment :: u16
  psp_selector :: u16
  cs_selector :: u16
  env_size :: u16
  reserved :: bytes
  argv0 :: bytes
  dpmi_server :: bytes

record stubinfo = go32_stubinfo +
  stubinfo_ver :: u32
  self_fd :: u32
  self_offs :: u32
  self_size :: u32
  payload_offs :: u32
  payload_size :: u32
  payload2_offs :: u32
  payload2_size :: u32
  payload2_name :: bytes
  mem_base :: u32
  si_flags :: u32
  uentry :: u32
  cpl_fd :: u32
  upl_base :: u32
  upl_size :: u32
  elfload_arg :: u32

definition stubinfo_members :: "ctype list" where
  "stubinfo_members =
    [Chars 16, U32, U32, U32, U32, U16, U16, U16, U16, U16, U16, Chars 8, Chars 16, Chars 16,
     U32, U32, U32, U32, U32, U32, U32, U32, Chars 20, U32, U32, U32, U32, U32, U32, U32]"

text \<open>The \<open>STUBINFO_*\<close> macros, which assembly clients use, in member order.\<close>

definition stubinfo_macros :: "nat list" where
  "stubinfo_macros =
    [0, 0x10, 0x14, 0x18, 0x1c, 0x20, 0x22, 0x24, 0x26, 0x28, 0x2a, 0x2c, 0x34, 0x44,
     0x54, 0x58, 0x5C, 0x60, 0x64, 0x68, 0x6C, 0x70, 0x74, 0x88, 0x8C, 0x90, 0x94, 0x98, 0x9C,
     0xA0]"

definition STUBINFO_END :: nat where
  "STUBINFO_END = 0xA4"

definition SIFLG_ELFEXEC :: u32 where
  "SIFLG_ELFEXEC = push_bit 16 1"

text \<open>A static object starts zeroed.\<close>

definition stubinfo_zero :: stubinfo where
  "stubinfo_zero = \<lparr>magic = replicate 16 0, si_size = 0, minstack = 0, memory_handle = 0,
     initial_size = 0, minkeep = 0, ds_selector = 0, ds_segment = 0, psp_selector = 0,
     cs_selector = 0, env_size = 0, reserved = replicate 8 0, argv0 = replicate 16 0,
     dpmi_server = replicate 16 0, stubinfo_ver = 0, self_fd = 0, self_offs = 0, self_size = 0,
     payload_offs = 0, payload_size = 0, payload2_offs = 0, payload2_size = 0,
     payload2_name = replicate 20 0, mem_base = 0, si_flags = 0, uentry = 0, cpl_fd = 0,
     upl_base = 0, upl_size = 0, elfload_arg = 0\<rparr>"

text \<open>Its image in memory, member by member.\<close>

definition stubinfo_image :: "stubinfo \<Rightarrow> bytes" where
  "stubinfo_image s = concat
    [magic s, bytes32 (si_size s), bytes32 (minstack s), bytes32 (memory_handle s),
     bytes32 (initial_size s), bytes16 (minkeep s), bytes16 (ds_selector s),
     bytes16 (ds_segment s), bytes16 (psp_selector s), bytes16 (cs_selector s),
     bytes16 (env_size s), reserved s, argv0 s, dpmi_server s, bytes32 (stubinfo_ver s),
     bytes32 (self_fd s), bytes32 (self_offs s), bytes32 (self_size s),
     bytes32 (payload_offs s), bytes32 (payload_size s), bytes32 (payload2_offs s),
     bytes32 (payload2_size s), payload2_name s, bytes32 (mem_base s), bytes32 (si_flags s),
     bytes32 (uentry s), bytes32 (cpl_fd s), bytes32 (upl_base s), bytes32 (upl_size s),
     bytes32 (elfload_arg s)]"

text \<open>Every character array keeps the length it was declared with.\<close>

definition stubinfo_ok :: "stubinfo \<Rightarrow> bool" where
  "stubinfo_ok s \<longleftrightarrow> length (magic s) = 16 \<and> length (reserved s) = 8 \<and> length (argv0 s) = 16 \<and>
     length (dpmi_server s) = 16 \<and> length (payload2_name s) = 20"

lemma stubinfo_zero_ok [simp]: "stubinfo_ok stubinfo_zero"
  by (simp add: stubinfo_ok_def stubinfo_zero_def)

lemma length_stubinfo_image: "stubinfo_ok s \<Longrightarrow> length (stubinfo_image s) = 0xA4"
  by (simp add: stubinfo_image_def stubinfo_ok_def)

lemma take_drop_concat:
  "n = length (concat xs) \<Longrightarrow> take (length x) (drop n (concat (xs @ x # ys))) = x"
  by simp

lemma load_bytes_sub:
  assumes "k + n \<le> l"
  shows "load_bytes m (p + of_nat k) n = take n (drop k (load_bytes m p l))"
  using assms by (auto simp: load_bytes_def add.assoc intro!: nth_equalityI)

section \<open>The real-mode register block\<close>

record dpmi_int_regs =
  r_edi :: u32
  r_esi :: u32
  r_ebp :: u32
  r_resrvd :: u32
  r_ebx :: u32
  r_edx :: u32
  r_ecx :: u32
  r_eax :: u32
  r_flags :: u16
  r_es :: u16
  r_ds :: u16
  r_fs :: u16
  r_gs :: u16
  r_ip :: u16
  r_cs :: u16
  r_sp :: u16
  r_ss :: u16

definition dpmi_int_regs_members :: "ctype list" where
  "dpmi_int_regs_members =
    [U32, U32, U32, U32, U32, U32, U32, U32, U16, U16, U16, U16, U16, U16, U16, U16, U16]"

definition regs_zero :: dpmi_int_regs where
  "regs_zero = \<lparr>r_edi = 0, r_esi = 0, r_ebp = 0, r_resrvd = 0, r_ebx = 0, r_edx = 0, r_ecx = 0,
     r_eax = 0, r_flags = 0, r_es = 0, r_ds = 0, r_fs = 0, r_gs = 0, r_ip = 0, r_cs = 0,
     r_sp = 0, r_ss = 0\<rparr>"

text \<open>Reading the block of a \<open>__dpmi_int_regs\<close> object at address \<open>p\<close>, and its image.\<close>

definition load_regs :: "mem \<Rightarrow> u32 \<Rightarrow> dpmi_int_regs" where
  "load_regs m p = \<lparr>r_edi = load32 m p, r_esi = load32 m (p + 4), r_ebp = load32 m (p + 8),
     r_resrvd = load32 m (p + 12), r_ebx = load32 m (p + 16), r_edx = load32 m (p + 20),
     r_ecx = load32 m (p + 24), r_eax = load32 m (p + 28), r_flags = load16 m (p + 32),
     r_es = load16 m (p + 34), r_ds = load16 m (p + 36), r_fs = load16 m (p + 38),
     r_gs = load16 m (p + 40), r_ip = load16 m (p + 42), r_cs = load16 m (p + 44),
     r_sp = load16 m (p + 46), r_ss = load16 m (p + 48)\<rparr>"

definition regs_image :: "dpmi_int_regs \<Rightarrow> bytes" where
  "regs_image r = concat
    [bytes32 (r_edi r), bytes32 (r_esi r), bytes32 (r_ebp r), bytes32 (r_resrvd r),
     bytes32 (r_ebx r), bytes32 (r_edx r), bytes32 (r_ecx r), bytes32 (r_eax r),
     bytes16 (r_flags r), bytes16 (r_es r), bytes16 (r_ds r), bytes16 (r_fs r),
     bytes16 (r_gs r), bytes16 (r_ip r), bytes16 (r_cs r), bytes16 (r_sp r), bytes16 (r_ss r)]"

definition store_regs :: "mem \<Rightarrow> u32 \<Rightarrow> dpmi_int_regs \<Rightarrow> mem" where
  "store_regs m p r = store_bytes m p (regs_image r)"

lemma length_regs_image [simp]: "length (regs_image r) = 50"
  by (simp add: regs_image_def)

lemma load_bytes_inside:
  assumes "k + n \<le> length bs" "length bs \<le> 2 ^ 32"
  shows "load_bytes (store_bytes m p bs) (p + of_nat k) n = take n (drop k bs)"
proof (rule nth_equalityI)
  fix i assume "i < length (load_bytes (store_bytes m p bs) (p + of_nat k) n)"
  then have i: "i < n" by simp
  then have "store_bytes m p bs (p + of_nat (k + i)) = bs ! (k + i)"
    using assms by (intro store_bytes_inside) auto
  then show "load_bytes (store_bytes m p bs) (p + of_nat k) n ! i = take n (drop k bs) ! i"
    using i assms by (simp add: load_bytes_def add.assoc)
qed (use assms in simp)

lemma load32_inside:
  "k + 4 \<le> length bs \<Longrightarrow> length bs \<le> 2 ^ 32 \<Longrightarrow>
    load32 (store_bytes m p bs) (p + of_nat k) = le32 (take 4 (drop k bs))"
  by (simp add: load32_def load_bytes_inside)

lemma load16_inside:
  "k + 2 \<le> length bs \<Longrightarrow> length bs \<le> 2 ^ 32 \<Longrightarrow>
    load16 (store_bytes m p bs) (p + of_nat k) = le16 (take 2 (drop k bs))"
  by (simp add: load16_def load_bytes_inside)

lemmas regs_inside32 =
  load32_inside [where bs = "regs_image r" for r, where k = 0, simplified]
  load32_inside [where bs = "regs_image r" for r, where k = 4, simplified]
  load32_inside [where bs = "regs_image r" for r, where k = 8, simplified]
  load32_inside [where bs = "regs_image r" for r, where k = 12, simplified]
  load32_inside [where bs = "regs_image r" for r, where k = 16, simplified]
  load32_inside [where bs = "regs_image r" for r, where k = 20, simplified]
  load32_inside [where bs = "regs_image r" for r, where k = 24, simplified]
  load32_inside [where bs = "regs_image r" for r, where k = 28, simplified]

lemmas regs_inside16 =
  load16_inside [where bs = "regs_image r" for r, where k = 32, simplified]
  load16_inside [where bs = "regs_image r" for r, where k = 34, simplified]
  load16_inside [where bs = "regs_image r" for r, where k = 36, simplified]
  load16_inside [where bs = "regs_image r" for r, where k = 38, simplified]
  load16_inside [where bs = "regs_image r" for r, where k = 40, simplified]
  load16_inside [where bs = "regs_image r" for r, where k = 42, simplified]
  load16_inside [where bs = "regs_image r" for r, where k = 44, simplified]
  load16_inside [where bs = "regs_image r" for r, where k = 46, simplified]
  load16_inside [where bs = "regs_image r" for r, where k = 48, simplified]

lemma load_regs_store_regs [simp]: "load_regs (store_regs m p r) p = r"
  unfolding load_regs_def store_regs_def regs_inside32 regs_inside16
  by (simp add: regs_image_def)

section \<open>Properties\<close>

text \<open>
  C33. The loaded program finds every member of the stub info block through the \<open>STUBINFO_*\<close> offsets: when the
  image of a well-formed block stands at \<open>p\<close>, reading the 30 offsets of \<open>stubinfo.h\<close> from \<open>p\<close> at the width of
  the member gives exactly the 30 members, the last one ends at \<open>STUBINFO_END\<close>, and the offsets and the size
  are those the C layout rules give to \<open>_GO32_StubInfo\<close>, without padding.
\<close>

theorem stubinfo_read_back:
  assumes "stubinfo_ok s" "load_bytes m p STUBINFO_END = stubinfo_image s"
    and "at = (\<lambda>k. p + of_nat (stubinfo_macros ! k))"
  shows "load_bytes m (at 0) 16 = magic s \<and> load32 m (at 1) = si_size s \<and> load32 m (at 2) = minstack s \<and>
    load32 m (at 3) = memory_handle s \<and> load32 m (at 4) = initial_size s \<and>
    load16 m (at 5) = minkeep s \<and> load16 m (at 6) = ds_selector s \<and> load16 m (at 7) = ds_segment s \<and>
    load16 m (at 8) = psp_selector s \<and> load16 m (at 9) = cs_selector s \<and>
    load16 m (at 10) = env_size s \<and> load_bytes m (at 11) 8 = reserved s \<and>
    load_bytes m (at 12) 16 = argv0 s \<and> load_bytes m (at 13) 16 = dpmi_server s \<and>
    load32 m (at 14) = stubinfo_ver s \<and> load32 m (at 15) = self_fd s \<and>
    load32 m (at 16) = self_offs s \<and> load32 m (at 17) = self_size s \<and>
    load32 m (at 18) = payload_offs s \<and> load32 m (at 19) = payload_size s \<and>
    load32 m (at 20) = payload2_offs s \<and> load32 m (at 21) = payload2_size s \<and>
    load_bytes m (at 22) 20 = payload2_name s \<and> load32 m (at 23) = mem_base s \<and>
    load32 m (at 24) = si_flags s \<and> load32 m (at 25) = uentry s \<and> load32 m (at 26) = cpl_fd s \<and>
    load32 m (at 27) = upl_base s \<and> load32 m (at 28) = upl_size s \<and> load32 m (at 29) = elfload_arg s \<and>
    stubinfo_macros ! 29 + 4 = STUBINFO_END \<and> struct_offsets stubinfo_members = stubinfo_macros \<and>
    struct_size stubinfo_members = STUBINFO_END \<and> packed_from 0 stubinfo_members"
proof -
  have len: "length (magic s) = 16" "length (reserved s) = 8" "length (argv0 s) = 16"
    "length (dpmi_server s) = 16" "length (payload2_name s) = 20"
    using assms(1) by (simp_all add: stubinfo_ok_def)
  have at: "at k = p + of_nat (stubinfo_macros ! k)" for k by (simp add: assms(3))
  have img: "load_bytes m p 0xA4 = stubinfo_image s" using assms(2) by (simp add: STUBINFO_END_def)
  have b: "load_bytes m (at k) n = take n (drop (stubinfo_macros ! k) (stubinfo_image s))"
    if "stubinfo_macros ! k + n \<le> 0xA4" for k n
    unfolding at img [symmetric] by (rule load_bytes_sub [OF that])
  have layout: "struct_offsets stubinfo_members = stubinfo_macros" "struct_size stubinfo_members = STUBINFO_END"
    "packed_from 0 stubinfo_members" by code_simp+
  show ?thesis
    using layout by (simp add: load32_def load16_def b stubinfo_macros_def stubinfo_image_def len STUBINFO_END_def)
qed

theorem stubinfo_read_back_witness:
  "let m = store_bytes (\<lambda>_. 0) 0x150100 (stubinfo_image (stubinfo_zero\<lparr>minkeep := 0x4000, mem_base := 0x3FF000\<rparr>)) in
    load16 m (0x150100 + of_nat (stubinfo_macros ! 5)) = 0x4000 \<and>
    load32 m (0x150100 + of_nat (stubinfo_macros ! 23)) = 0x3FF000"
proof -
  let ?s = "stubinfo_zero\<lparr>minkeep := 0x4000, mem_base := 0x3FF000\<rparr>"
  have ok: "stubinfo_ok ?s" by (simp add: stubinfo_ok_def stubinfo_zero_def)
  have "load_bytes (store_bytes (\<lambda>_. 0) 0x150100 (stubinfo_image ?s)) 0x150100 STUBINFO_END = stubinfo_image ?s"
    using load_store_bytes [of "stubinfo_image ?s"] length_stubinfo_image [OF ok] by (simp add: STUBINFO_END_def)
  from stubinfo_read_back [OF ok this refl] show ?thesis by (simp add: Let_def)
qed

lemma dpmi_int_regs_layout:
  "struct_offsets dpmi_int_regs_members =
     [0, 4, 8, 12, 16, 20, 24, 28, 32, 34, 36, 38, 40, 42, 44, 46, 48]"
  by code_simp

end
