(* ===== verification/X86.thy ===== *)
theory X86
  imports Layout
begin

text \<open>
  The machine under the C code: registers, flags and memory, the outside world it calls into
  (software interrupts, far calls, descriptor queries), and the inline assembly the sources use,
  as a list of instructions that \<open>exec\<close> runs the way the processor does. The instruction set is
  the one that occurs in \<open>dpmi.c\<close>, \<open>util.c\<close>, \<open>stub.c\<close> and \<open>ministub.c\<close>.

  Memory is kept as two separate spaces: \<open>own\<close> holds the objects of the program (its statics and
  the locals whose address is taken), \<open>lin\<close> is the linear memory reached through a descriptor
  base, where the client is loaded. A DPMI host hands out blocks that do not overlap the program
  it runs, which is why the two are kept apart.
\<close>

section \<open>Machine state\<close>

datatype reg = EAX | EBX | ECX | EDX | ESI | EDI
datatype sreg = DS | ES | FS | GS

record 'h world =
  eax :: u32
  ebx :: u32
  ecx :: u32
  edx :: u32
  esi :: u32
  edi :: u32
  seg_ds :: u16
  seg_es :: u16
  seg_fs :: u16
  seg_gs :: u16
  cf :: bool
  zf :: bool
  other_flags :: u32
  own :: mem
  lin :: mem
  host :: 'h

text \<open>
  What the code calls but does not contain: interrupt handlers, the targets of far calls, the
  descriptor tables behind \<open>lsl\<close> and \<open>lar\<close>, and the C library's real-mode interrupt
  \<open>__dpmi_int\<close>. Each is a parameter. \<open>malloc_ok\<close> tells which heap requests succeed, and
  \<open>uninit\<close> what an uninitialised local buffer holds when its function is entered.
  The rest are addresses and register contents fixed by the linker and the startup code.
\<close>

record 'h env =
  int_call :: "nat \<Rightarrow> 'h world \<Rightarrow> 'h world"
  far_call :: "u16 \<Rightarrow> u32 \<Rightarrow> 'h world \<Rightarrow> 'h world"
  lsl_of :: "'h \<Rightarrow> u16 \<Rightarrow> u32 option"
  lar_of :: "'h \<Rightarrow> u16 \<Rightarrow> u32 option"
  dpmi_int :: "nat \<Rightarrow> dpmi_int_regs \<Rightarrow> 'h world \<Rightarrow> dpmi_int_regs \<times> 'h world"
  malloc_ok :: "u32 \<Rightarrow> bool"
  uninit :: "'h world \<Rightarrow> nat \<Rightarrow> u8"
  stack_ptr :: u32
  dpmi_psp :: u32
  local_slot :: u32
  local_slot2 :: u32
  addr_psp_sel :: u32
  addr_clnt_entry :: u32
  addr_stubinfo :: u32

fun get_reg :: "reg \<Rightarrow> 'h world \<Rightarrow> u32" where
  "get_reg EAX w = eax w"
| "get_reg EBX w = ebx w"
| "get_reg ECX w = ecx w"
| "get_reg EDX w = edx w"
| "get_reg ESI w = esi w"
| "get_reg EDI w = edi w"

fun set_reg :: "reg \<Rightarrow> u32 \<Rightarrow> 'h world \<Rightarrow> 'h world" where
  "set_reg EAX v w = w\<lparr>eax := v\<rparr>"
| "set_reg EBX v w = w\<lparr>ebx := v\<rparr>"
| "set_reg ECX v w = w\<lparr>ecx := v\<rparr>"
| "set_reg EDX v w = w\<lparr>edx := v\<rparr>"
| "set_reg ESI v w = w\<lparr>esi := v\<rparr>"
| "set_reg EDI v w = w\<lparr>edi := v\<rparr>"

fun get_sreg :: "sreg \<Rightarrow> 'h world \<Rightarrow> u16" where
  "get_sreg DS w = seg_ds w"
| "get_sreg ES w = seg_es w"
| "get_sreg FS w = seg_fs w"
| "get_sreg GS w = seg_gs w"

fun set_sreg :: "sreg \<Rightarrow> u16 \<Rightarrow> 'h world \<Rightarrow> 'h world" where
  "set_sreg DS v w = w\<lparr>seg_ds := v\<rparr>"
| "set_sreg ES v w = w\<lparr>seg_es := v\<rparr>"
| "set_sreg FS v w = w\<lparr>seg_fs := v\<rparr>"
| "set_sreg GS v w = w\<lparr>seg_gs := v\<rparr>"

text \<open>The flags register: carry is bit 0, zero is bit 6.\<close>

definition eflags :: "'h world \<Rightarrow> u32" where
  "eflags w = (other_flags w AND NOT 0x41) OR (if cf w then 1 else 0) OR (if zf w then 0x40 else 0)"

lemma eflags_carry: "eflags w AND 1 = (if cf w then 1 else 0)"
  by (rule bit_word_eqI) (auto simp: eflags_def bit_simps)

section \<open>Instructions\<close>

text \<open>
  Operands: \<open>Mov_ra r k\<close> is \<open>mov r, [ebp + k]\<close>, where \<open>ebp + 8\<close> is the first argument of the C
  function; \<open>Mov_rm r b d\<close> is \<open>mov r, [b + d]\<close>; \<open>Mov_mr b d r\<close> stores 32 bits at \<open>[b + d]\<close> and
  \<open>Mov_mr16\<close> the low 16; \<open>Mov_ms\<close> stores a segment register (16 bits); \<open>Mov_gs\<close> stores one
  into a global. \<open>Call_far_sp\<close> is \<open>call far [ss:esp]\<close>, whose operand is the offset on top of the
  stack and the selector above it, and \<open>Jmp_far_es p\<close> is \<open>jmp far dword [es:p]\<close>.
\<close>

datatype label = L_ok | L_done | L_fail

datatype instr =
    Mov_ri reg u32
  | Mov_ra reg nat
  | Movzx_ra reg nat
  | Mov_rm reg reg nat
  | Movzx_rm reg reg nat
  | Mov_mr reg nat reg
  | Mov_mr16 reg nat reg
  | Mov_ms reg nat sreg
  | Mov_gs u32 sreg
  | Mov_sa sreg nat
  | Mov_r16s reg sreg
  | Intr nat
  | Jnc label
  | Jnz label
  | Jmp label
  | Label label
  | Push_s sreg
  | Pop_s sreg
  | Push_a nat
  | Push_r reg
  | Pop_r reg
  | Pop_m reg nat
  | Pushf
  | Pushfw
  | Popw_m reg nat
  | Stc
  | Test_al
  | Xor_ah
  | Lsl_ra reg nat
  | Lar_ra reg nat
  | Shl_ri reg nat
  | Or_rr reg reg
  | Add_esp nat
  | Call_far_sp
  | Jmp_far_es u32

text \<open>
  A run of one assembly block: the stack above the frame in 16-bit units (top first), whether
  the block went wrong (popped below its frame or jumped to a label it does not have), where it
  jumped out to, if it did, and the world.
\<close>

record 'h mach =
  stk :: "u16 list"
  faulty :: bool
  leave_to :: "(u16 \<times> u32) option"
  wld :: "'h world"

definition arg32 :: "u32 list \<Rightarrow> nat \<Rightarrow> u32" where
  "arg32 A k = A ! ((k - 8) div 4)"

definition arg16 :: "u32 list \<Rightarrow> nat \<Rightarrow> u16" where
  "arg16 A k = (if k mod 4 = 2 then hi16 (arg32 A (k - 2)) else lo16 (arg32 A k))"

definition push32 :: "u32 \<Rightarrow> 'h mach \<Rightarrow> 'h mach" where
  "push32 v m = m\<lparr>stk := lo16 v # hi16 v # stk m\<rparr>"

definition upd_w :: "('h world \<Rightarrow> 'h world) \<Rightarrow> 'h mach \<Rightarrow> 'h mach" where
  "upd_w f m = m\<lparr>wld := f (wld m)\<rparr>"

definition pop32 :: "(u32 \<Rightarrow> 'h world \<Rightarrow> 'h world) \<Rightarrow> 'h mach \<Rightarrow> 'h mach" where
  "pop32 f m = (case stk m of
      l # h # st \<Rightarrow> m\<lparr>stk := st, wld := f (pair32 h l) (wld m)\<rparr>
    | _ \<Rightarrow> m\<lparr>faulty := True\<rparr>)"

definition pop16 :: "(u16 \<Rightarrow> 'h world \<Rightarrow> 'h world) \<Rightarrow> 'h mach \<Rightarrow> 'h mach" where
  "pop16 f m = (case stk m of
      v # st \<Rightarrow> m\<lparr>stk := st, wld := f v (wld m)\<rparr>
    | _ \<Rightarrow> m\<lparr>faulty := True\<rparr>)"

definition store_own32 :: "u32 \<Rightarrow> u32 \<Rightarrow> 'h world \<Rightarrow> 'h world" where
  "store_own32 p v w = w\<lparr>own := store32 (own w) p v\<rparr>"

definition store_own16 :: "u32 \<Rightarrow> u16 \<Rightarrow> 'h world \<Rightarrow> 'h world" where
  "store_own16 p v w = w\<lparr>own := store16 (own w) p v\<rparr>"

fun step :: "'h env \<Rightarrow> u32 list \<Rightarrow> instr \<Rightarrow> 'h mach \<Rightarrow> 'h mach" where
  "step E A (Mov_ri r v) m = upd_w (set_reg r v) m"
| "step E A (Mov_ra r k) m = upd_w (set_reg r (arg32 A k)) m"
| "step E A (Movzx_ra r k) m = upd_w (set_reg r (ucast (arg16 A k))) m"
| "step E A (Mov_rm r b d) m =
     upd_w (\<lambda>w. set_reg r (load32 (own w) (get_reg b w + of_nat d)) w) m"
| "step E A (Movzx_rm r b d) m =
     upd_w (\<lambda>w. set_reg r (ucast (load16 (own w) (get_reg b w + of_nat d))) w) m"
| "step E A (Mov_mr b d r) m = upd_w (\<lambda>w. store_own32 (get_reg b w + of_nat d) (get_reg r w) w) m"
| "step E A (Mov_mr16 b d r) m =
     upd_w (\<lambda>w. store_own16 (get_reg b w + of_nat d) (lo16 (get_reg r w)) w) m"
| "step E A (Mov_ms b d s) m =
     upd_w (\<lambda>w. store_own16 (get_reg b w + of_nat d) (get_sreg s w) w) m"
| "step E A (Mov_gs p s) m = upd_w (\<lambda>w. store_own16 p (get_sreg s w) w) m"
| "step E A (Mov_sa s k) m = upd_w (set_sreg s (arg16 A k)) m"
| "step E A (Mov_r16s r s) m =
     upd_w (\<lambda>w. set_reg r (pair32 (hi16 (get_reg r w)) (get_sreg s w)) w) m"
| "step E A (Intr n) m = upd_w (int_call E n) m"
| "step E A (Jnc l) m = m"
| "step E A (Jnz l) m = m"
| "step E A (Jmp l) m = m"
| "step E A (Label l) m = m"
| "step E A (Push_s s) m = push32 (ucast (get_sreg s (wld m))) m"
| "step E A (Pop_s s) m = pop32 (\<lambda>v. set_sreg s (lo16 v)) m"
| "step E A (Push_a k) m = push32 (arg32 A k) m"
| "step E A (Push_r r) m = push32 (get_reg r (wld m)) m"
| "step E A (Pop_r r) m = pop32 (set_reg r) m"
| "step E A (Pop_m b d) m = pop32 (\<lambda>v w. store_own32 (get_reg b w + of_nat d) v w) m"
| "step E A Pushf m = push32 (eflags (wld m)) m"
| "step E A Pushfw m = m\<lparr>stk := lo16 (eflags (wld m)) # stk m\<rparr>"
| "step E A (Popw_m b d) m = pop16 (\<lambda>v w. store_own16 (get_reg b w + of_nat d) v w) m"
| "step E A Stc m = upd_w (\<lambda>w. w\<lparr>cf := True\<rparr>) m"
| "step E A Test_al m = upd_w (\<lambda>w. w\<lparr>cf := False, zf := (eax w AND 0xff = 0)\<rparr>) m"
| "step E A Xor_ah m = upd_w (\<lambda>w. w\<lparr>eax := eax w AND 0xffff00ff, cf := False, zf := True\<rparr>) m"
| "step E A (Lsl_ra r k) m = upd_w (\<lambda>w. case lsl_of E (host w) (arg16 A k) of
      Some v \<Rightarrow> set_reg r v (w\<lparr>zf := True\<rparr>) | None \<Rightarrow> w\<lparr>zf := False\<rparr>) m"
| "step E A (Lar_ra r k) m = upd_w (\<lambda>w. case lar_of E (host w) (arg16 A k) of
      Some v \<Rightarrow> set_reg r v (w\<lparr>zf := True\<rparr>) | None \<Rightarrow> w\<lparr>zf := False\<rparr>) m"
| "step E A (Shl_ri r n) m = upd_w (\<lambda>w. set_reg r (push_bit n (get_reg r w))
      (w\<lparr>cf := bit (get_reg r w) (32 - n), zf := (push_bit n (get_reg r w) = 0)\<rparr>)) m"
| "step E A (Or_rr r s) m = upd_w (\<lambda>w. set_reg r (get_reg r w OR get_reg s w)
      (w\<lparr>cf := False, zf := (get_reg r w OR get_reg s w = 0)\<rparr>)) m"
| "step E A (Add_esp n) m = (if n div 2 \<le> length (stk m)
      then m\<lparr>stk := drop (n div 2) (stk m), wld := (wld m)\<lparr>cf := False, zf := False\<rparr>\<rparr>
      else m\<lparr>faulty := True\<rparr>)"
| "step E A Call_far_sp m = (case stk m of
      ol # oh # s # t # st \<Rightarrow> upd_w (far_call E s (pair32 oh ol)) m
    | _ \<Rightarrow> m\<lparr>faulty := True\<rparr>)"
| "step E A (Jmp_far_es p) m =
     m\<lparr>leave_to := Some (load16 (own (wld m)) (p + 4), load32 (own (wld m)) p)\<rparr>"

text \<open>The label an instruction jumps to, if it jumps in this state.\<close>

fun jumps :: "instr \<Rightarrow> 'h world \<Rightarrow> label option" where
  "jumps (Jnc l) w = (if cf w then None else Some l)"
| "jumps (Jnz l) w = (if zf w then None else Some l)"
| "jumps (Jmp l) w = Some l"
| "jumps _ w = None"

text \<open>All jumps of the sources go forward; the code after a label, if the block has it.\<close>

fun after_label :: "label \<Rightarrow> instr list \<Rightarrow> instr list option" where
  "after_label l [] = None"
| "after_label l (i # P) = (if i = Label l then Some P else after_label l P)"

lemma after_label_shorter: "after_label l P = Some Q \<Longrightarrow> length Q < length P"
  by (induction P) (auto split: if_splits)

function exec :: "'h env \<Rightarrow> u32 list \<Rightarrow> instr list \<Rightarrow> 'h mach \<Rightarrow> 'h mach" where
  "exec E A [] m = m"
| "exec E A (i # P) m = (case jumps i (wld m) of
      Some l \<Rightarrow> (case after_label l P of
          Some Q \<Rightarrow> exec E A Q m | None \<Rightarrow> m\<lparr>faulty := True\<rparr>)
    | None \<Rightarrow> (if leave_to (step E A i m) = None then exec E A P (step E A i m)
               else step E A i m))"
  by pat_completeness auto
termination
  by (relation "measure (\<lambda>(E, A, P, m). length P)") (auto dest: after_label_shorter)

definition start :: "'h world \<Rightarrow> 'h mach" where
  "start w = \<lparr>stk = [], faulty = False, leave_to = None, wld = w\<rparr>"

text \<open>
  A C function written in assembly: how many arguments it has, its block, and whether the block
  is followed by \<open>return 0\<close>. A call runs the block; the epilogue drops the frame, so that
  whatever is left above it is gone, and the result is in \<open>eax\<close> unless it is the constant 0.
\<close>

record cfun =
  nargs :: nat
  returns0 :: bool
  body :: "instr list"

definition call_c :: "'h env \<Rightarrow> cfun \<Rightarrow> u32 list \<Rightarrow> 'h world \<Rightarrow> u32 \<times> 'h world" where
  "call_c E f A w =
     (let v = wld (exec E A (body f) (start w)) in (if returns0 f then 0 else eax v, v))"

text \<open>The block ran to its end with the stack as it found it.\<close>

definition clean :: "'h mach \<Rightarrow> bool" where
  "clean m \<longleftrightarrow> \<not> faulty m \<and> leave_to m = None \<and> stk m = []"

text \<open>The argument offsets a block uses lie within the arguments the function has.\<close>

fun arg_offsets :: "instr \<Rightarrow> nat list" where
  "arg_offsets (Mov_ra r k) = [k]"
| "arg_offsets (Movzx_ra r k) = [k]"
| "arg_offsets (Mov_sa s k) = [k]"
| "arg_offsets (Push_a k) = [k]"
| "arg_offsets (Lsl_ra r k) = [k]"
| "arg_offsets (Lar_ra r k) = [k]"
| "arg_offsets _ = []"

definition uses_args :: "cfun \<Rightarrow> bool" where
  "uses_args f \<longleftrightarrow> list_all (\<lambda>i. list_all (\<lambda>k. 8 \<le> k \<and> k < 8 + 4 * nargs f) (arg_offsets i)) (body f)"

lemmas exec_asm [asm_simps] =
  exec.simps start_def upd_w_def push32_def pop32_def pop16_def arg32_def arg16_def

end
