(* ===== verification/Dpmi.thy ===== *)
theory Dpmi
  imports X86
begin

text \<open>
  \<open>dpmi.c\<close>: the wrappers around the services of the DPMI host, one definition per function with
  the assembly of its body, in the order of the file (the functions under \<open>#if 0\<close> are not compiled
  and have none). Below them, \<open>dpmi_table\<close> says which call the assembly makes, register for
  register, and \<open>dpmi_contracts\<close> what the DPMI specification and \<open>dpmi.h\<close> document of it: the
  operands and results at their documented widths. The assembly is shown to make the call of the
  first, which is then shown to meet the second.
\<close>

section \<open>The wrappers\<close>

definition dpmi_yield :: cfun where
  "dpmi_yield = \<lparr>nargs = 0, returns0 = False, body =
      [Mov_ri EAX 0x1680, Intr 0x2f]\<rparr>"

definition dpmi_allocate_ldt_descriptors :: cfun where
  "dpmi_allocate_ldt_descriptors = \<lparr>nargs = 1, returns0 = False, body =
      [Mov_ri EAX 0, Mov_ra ECX 8, Intr 0x31, Jnc L_ok, Mov_ri EAX (-1), Label L_ok]\<rparr>"

definition dpmi_free_ldt_descriptor :: cfun where
  "dpmi_free_ldt_descriptor = \<lparr>nargs = 1, returns0 = False, body =
      [Mov_ri EAX 1, Mov_ra EBX 8, Intr 0x31, Jnc L_ok, Mov_ri EAX (-1), Label L_ok]\<rparr>"

definition dpmi_segment_to_descriptor :: cfun where
  "dpmi_segment_to_descriptor = \<lparr>nargs = 1, returns0 = False, body =
      [Mov_ri EAX 2, Mov_ra EBX 8, Intr 0x31, Jnc L_ok, Mov_ri EAX (-1), Label L_ok]\<rparr>"

definition dpmi_get_selector_increment_value :: cfun where
  "dpmi_get_selector_increment_value = \<lparr>nargs = 0, returns0 = False, body =
      [Mov_ri EAX 3, Intr 0x31, Jnc L_ok, Mov_ri EAX (-1), Label L_ok]\<rparr>"

definition dpmi_get_segment_base_address :: cfun where
  "dpmi_get_segment_base_address = \<lparr>nargs = 2, returns0 = False, body =
      [Mov_ri EAX 6, Mov_ra EBX 8, Intr 0x31, Jnc L_ok, Mov_ri EAX (-1), Label L_ok,
       Mov_ra EDI 12, Mov_mr16 EDI 0 EDX, Mov_mr16 EDI 2 ECX]\<rparr>"

definition dpmi_set_segment_base_address :: cfun where
  "dpmi_set_segment_base_address = \<lparr>nargs = 2, returns0 = False, body =
      [Mov_ri EAX 7, Mov_ra EBX 8, Movzx_ra ECX 14, Movzx_ra EDX 12, Intr 0x31, Jnc L_ok,
       Mov_ri EAX (-1), Label L_ok]\<rparr>"

definition dpmi_get_segment_limit :: cfun where
  "dpmi_get_segment_limit = \<lparr>nargs = 1, returns0 = False, body =
      [Lsl_ra EAX 8]\<rparr>"

definition dpmi_set_segment_limit :: cfun where
  "dpmi_set_segment_limit = \<lparr>nargs = 2, returns0 = False, body =
      [Mov_ri EAX 8, Mov_ra EBX 8, Movzx_ra ECX 14, Movzx_ra EDX 12, Intr 0x31, Jnc L_ok,
       Mov_ri EAX (-1), Label L_ok]\<rparr>"

definition dpmi_get_descriptor_access_rights :: cfun where
  "dpmi_get_descriptor_access_rights = \<lparr>nargs = 1, returns0 = False, body =
      [Lar_ra EAX 8]\<rparr>"

definition dpmi_set_descriptor_access_rights :: cfun where
  "dpmi_set_descriptor_access_rights = \<lparr>nargs = 2, returns0 = False, body =
      [Mov_ri EAX 9, Mov_ra EBX 8, Mov_ra ECX 12, Intr 0x31, Jnc L_ok, Mov_ri EAX (-1),
       Label L_ok]\<rparr>"

definition dpmi_create_alias_descriptor :: cfun where
  "dpmi_create_alias_descriptor = \<lparr>nargs = 1, returns0 = False, body =
      [Mov_ri EAX 0xa, Mov_ra EBX 8, Intr 0x31, Jnc L_ok, Mov_ri EAX (-1), Label L_ok]\<rparr>"

definition dpmi_get_descriptor :: cfun where
  "dpmi_get_descriptor = \<lparr>nargs = 2, returns0 = False, body =
      [Mov_ri EAX 0xb, Mov_ra EBX 8, Mov_ra EDI 12, Intr 0x31, Jnc L_ok, Mov_ri EAX (-1),
       Label L_ok]\<rparr>"

definition dpmi_set_descriptor :: cfun where
  "dpmi_set_descriptor = \<lparr>nargs = 2, returns0 = False, body =
      [Mov_ri EAX 0xc, Mov_ra EBX 8, Mov_ra EDI 12, Intr 0x31, Jnc L_ok, Mov_ri EAX (-1),
       Label L_ok]\<rparr>"

definition dpmi_allocate_specific_ldt_descriptor :: cfun where
  "dpmi_allocate_specific_ldt_descriptor = \<lparr>nargs = 1, returns0 = False, body =
      [Mov_ri EAX 0xd, Mov_ra EBX 8, Intr 0x31, Jnc L_ok, Mov_ri EAX (-1), Label L_ok]\<rparr>"

definition dpmi_get_multiple_descriptors :: cfun where
  "dpmi_get_multiple_descriptors = \<lparr>nargs = 2, returns0 = False, body =
      [Mov_ri EAX 0xe, Mov_ra ECX 8, Mov_ra EDI 12, Intr 0x31, Jnc L_ok, Mov_ri EAX (-1),
       Label L_ok]\<rparr>"

definition dpmi_set_multiple_descriptors :: cfun where
  "dpmi_set_multiple_descriptors = \<lparr>nargs = 2, returns0 = False, body =
      [Mov_ri EAX 0xf, Mov_ra ECX 8, Mov_ra EDI 12, Intr 0x31, Jnc L_ok, Mov_ri EAX (-1),
       Label L_ok]\<rparr>"

definition dpmi_allocate_dos_memory :: cfun where
  "dpmi_allocate_dos_memory = \<lparr>nargs = 2, returns0 = False, body =
      [Mov_ri EAX 0x100, Mov_ra EBX 8, Intr 0x31, Mov_ra EDI 12, Jnc L_ok, Mov_ri EAX (-1),
       Mov_mr EDI 0 EBX, Jmp L_done, Label L_ok, Mov_mr EDI 0 EDX, Label L_done]\<rparr>"

definition dpmi_free_dos_memory :: cfun where
  "dpmi_free_dos_memory = \<lparr>nargs = 1, returns0 = False, body =
      [Mov_ri EAX 0x101, Mov_ra EDX 8, Intr 0x31, Jnc L_ok, Mov_ri EAX (-1), Label L_ok]\<rparr>"

definition dpmi_resize_dos_memory :: cfun where
  "dpmi_resize_dos_memory = \<lparr>nargs = 3, returns0 = False, body =
      [Mov_ri EAX 0x102, Mov_ra EBX 12, Mov_ra EDX 8, Intr 0x31, Mov_ra EDI 16, Jnc L_ok,
       Mov_ri EAX (-1), Mov_mr EDI 0 EBX, Label L_ok]\<rparr>"

definition dpmi_get_real_mode_interrupt_vector :: cfun where
  "dpmi_get_real_mode_interrupt_vector = \<lparr>nargs = 2, returns0 = True, body =
      [Mov_ri EAX 0x200, Mov_ra EBX 8, Intr 0x31, Mov_ra EDI 12, Mov_mr16 EDI 0 EDX,
       Mov_mr16 EDI 2 ECX]\<rparr>"

definition dpmi_set_real_mode_interrupt_vector :: cfun where
  "dpmi_set_real_mode_interrupt_vector = \<lparr>nargs = 2, returns0 = True, body =
      [Mov_ri EAX 0x201, Mov_ra EBX 8, Mov_ra ESI 12, Movzx_rm ECX ESI 2, Movzx_rm EDX ESI 0,
       Intr 0x31]\<rparr>"

definition dpmi_get_processor_exception_handler_vector :: cfun where
  "dpmi_get_processor_exception_handler_vector = \<lparr>nargs = 2, returns0 = False, body =
      [Mov_ri EAX 0x202, Mov_ra EBX 8, Intr 0x31, Jnc L_ok, Mov_ri EAX (-1), Label L_ok,
       Mov_ra EDI 12, Mov_mr EDI 0 EDX, Mov_mr16 EDI 4 ECX]\<rparr>"

definition dpmi_set_processor_exception_handler_vector :: cfun where
  "dpmi_set_processor_exception_handler_vector = \<lparr>nargs = 2, returns0 = False, body =
      [Mov_ri EAX 0x203, Mov_ra EBX 8, Mov_ra ESI 12, Movzx_rm ECX ESI 4, Mov_rm EDX ESI 0,
       Intr 0x31, Jnc L_ok, Mov_ri EAX (-1), Label L_ok]\<rparr>"

definition dpmi_get_protected_mode_interrupt_vector :: cfun where
  "dpmi_get_protected_mode_interrupt_vector = \<lparr>nargs = 2, returns0 = True, body =
      [Mov_ri EAX 0x204, Mov_ra EBX 8, Intr 0x31, Mov_ra EDI 12, Mov_mr EDI 0 EDX,
       Mov_mr16 EDI 4 ECX]\<rparr>"

definition dpmi_set_protected_mode_interrupt_vector :: cfun where
  "dpmi_set_protected_mode_interrupt_vector = \<lparr>nargs = 2, returns0 = False, body =
      [Mov_ri EAX 0x205, Mov_ra EBX 8, Mov_ra ESI 12, Movzx_rm ECX ESI 4, Mov_rm EDX ESI 0,
       Intr 0x31, Jnc L_ok, Mov_ri EAX (-1), Label L_ok]\<rparr>"

definition dpmi_get_extended_exception_handler_vector_pm :: cfun where
  "dpmi_get_extended_exception_handler_vector_pm = \<lparr>nargs = 2, returns0 = False, body =
      [Mov_ri EAX 0x210, Mov_ra EBX 8, Intr 0x31, Jnc L_ok, Mov_ri EAX (-1), Label L_ok,
       Mov_ra EDI 12, Mov_mr EDI 0 EDX, Mov_mr16 EDI 4 ECX]\<rparr>"

definition dpmi_get_extended_exception_handler_vector_rm :: cfun where
  "dpmi_get_extended_exception_handler_vector_rm = \<lparr>nargs = 2, returns0 = False, body =
      [Mov_ri EAX 0x211, Mov_ra EBX 8, Intr 0x31, Jnc L_ok, Mov_ri EAX (-1), Label L_ok,
       Mov_ra EDI 12, Mov_mr EDI 0 EDX, Mov_mr16 EDI 4 ECX]\<rparr>"

definition dpmi_set_extended_exception_handler_vector_pm :: cfun where
  "dpmi_set_extended_exception_handler_vector_pm = \<lparr>nargs = 2, returns0 = False, body =
      [Mov_ri EAX 0x212, Mov_ra EBX 8, Mov_ra ESI 12, Movzx_rm ECX ESI 4, Mov_rm EDX ESI 0,
       Intr 0x31, Jnc L_ok, Mov_ri EAX (-1), Label L_ok]\<rparr>"

definition dpmi_set_extended_exception_handler_vector_rm :: cfun where
  "dpmi_set_extended_exception_handler_vector_rm = \<lparr>nargs = 2, returns0 = False, body =
      [Mov_ri EAX 0x213, Mov_ra EBX 8, Mov_ra ESI 12, Movzx_rm ECX ESI 4, Mov_rm EDX ESI 0,
       Intr 0x31, Jnc L_ok, Mov_ri EAX (-1), Label L_ok]\<rparr>"

definition dpmi_allocate_memory :: cfun where
  "dpmi_allocate_memory = \<lparr>nargs = 3, returns0 = False, body =
      [Mov_ri EAX 0x501, Movzx_ra EBX 10, Movzx_ra ECX 8, Intr 0x31, Jnc L_ok, Mov_ri EAX (-1),
       Label L_ok, Mov_ra EDX 12, Mov_mr16 EDX 2 EBX, Mov_mr16 EDX 0 ECX, Mov_ra EDX 16,
       Mov_mr16 EDX 2 ESI, Mov_mr16 EDX 0 EDI]\<rparr>"

definition dpmi_free_memory :: cfun where
  "dpmi_free_memory = \<lparr>nargs = 1, returns0 = False, body =
      [Mov_ri EAX 0x502, Movzx_ra ESI 10, Movzx_ra EDI 8, Intr 0x31, Jnc L_ok, Mov_ri EAX (-1),
       Label L_ok]\<rparr>"

definition dpmi_resize_memory :: cfun where
  "dpmi_resize_memory = \<lparr>nargs = 4, returns0 = False, body =
      [Mov_ri EAX 0x503, Movzx_ra EBX 10, Movzx_ra ECX 8, Movzx_ra ESI 14, Movzx_ra EDI 12,
       Intr 0x31, Jnc L_ok, Mov_ri EAX (-1), Label L_ok, Mov_ra EDX 16, Mov_mr16 EDX 2 EBX,
       Mov_mr16 EDX 0 ECX, Mov_ra EDX 20, Mov_mr16 EDX 2 ESI, Mov_mr16 EDX 0 EDI]\<rparr>"

definition dpmi_get_page_size :: cfun where
  "dpmi_get_page_size = \<lparr>nargs = 1, returns0 = False, body =
      [Mov_ri EAX 0x604, Intr 0x31, Jnc L_ok, Mov_ri EAX (-1), Label L_ok, Mov_ra EDI 8,
       Mov_mr16 EDI 2 EBX, Mov_mr16 EDI 0 ECX]\<rparr>"

definition dpmi_get_and_disable_virtual_interrupt_state :: cfun where
  "dpmi_get_and_disable_virtual_interrupt_state = \<lparr>nargs = 0, returns0 = False, body =
      [Mov_ri EAX 0x900, Intr 0x31, Jnc L_ok, Mov_ri EAX (-1), Label L_ok]\<rparr>"

definition dpmi_get_and_enable_virtual_interrupt_state :: cfun where
  "dpmi_get_and_enable_virtual_interrupt_state = \<lparr>nargs = 0, returns0 = False, body =
      [Mov_ri EAX 0x901, Intr 0x31, Jnc L_ok, Mov_ri EAX (-1), Label L_ok]\<rparr>"

definition dpmi_get_virtual_interrupt_state :: cfun where
  "dpmi_get_virtual_interrupt_state = \<lparr>nargs = 0, returns0 = False, body =
      [Mov_ri EAX 0x902, Intr 0x31, Jnc L_ok, Mov_ri EAX (-1), Label L_ok]\<rparr>"

definition dpmi_get_vendor_specific_api_entry_point :: cfun where
  "dpmi_get_vendor_specific_api_entry_point = \<lparr>nargs = 2, returns0 = False, body =
      [Push_s ES, Mov_ri EAX 0xa00, Mov_ra ESI 8, Intr 0x31, Jnc L_ok, Mov_ri EAX (-1),
       Label L_ok, Mov_ra EDX 12, Mov_mr EDX 0 EDI, Mov_ms EDX 4 ES, Pop_s ES]\<rparr>"

section \<open>The calls the assembly makes\<close>

text \<open>
  A service is called with a function number in \<open>ax\<close> and operands in registers: an argument of the
  wrapper, its high or low half, or what lies at an offset behind a pointer argument. It answers with
  the carry flag and registers, which the wrapper stores behind its pointer arguments: a register, its
  low 16 bits, or the pair of two 16-bit registers. \<open>sp_chk\<close> says that carry makes the result \<open>-1\<close>.
\<close>

datatype insrc = A32 nat | AHi nat | ALo nat | M32 nat nat | M16 nat nat
datatype outval = O32 reg | O16 reg | OPair reg reg | OEs
datatype outcond = Always | If_ok | If_err

record dspec =
  sp_int :: nat
  sp_ax :: u32
  sp_in :: "(reg \<times> insrc) list"
  sp_chk :: bool
  sp_zero :: bool
  sp_out :: "(outcond \<times> nat \<times> nat \<times> outval) list"
  sp_keep_es :: bool

fun in_value :: "u32 list \<Rightarrow> 'h world \<Rightarrow> insrc \<Rightarrow> u32" where
  "in_value A w (A32 i) = A ! i"
| "in_value A w (AHi i) = ucast (hi16 (A ! i))"
| "in_value A w (ALo i) = ucast (lo16 (A ! i))"
| "in_value A w (M32 i d) = load32 (own w) (A ! i + of_nat d)"
| "in_value A w (M16 i d) = ucast (load16 (own w) (A ! i + of_nat d))"

fun store_out :: "u32 \<Rightarrow> outval \<Rightarrow> 'h world \<Rightarrow> mem \<Rightarrow> mem" where
  "store_out p (O32 r) v m = store32 m p (get_reg r v)"
| "store_out p (O16 r) v m = store16 m p (lo16 (get_reg r v))"
| "store_out p (OPair h l) v m = store32 m p (pair32 (lo16 (get_reg h v)) (lo16 (get_reg l v)))"
| "store_out p OEs v m = store16 m p (seg_es v)"

fun cond_holds :: "outcond \<Rightarrow> bool \<Rightarrow> bool" where
  "cond_holds Always e = True"
| "cond_holds If_ok e = (\<not> e)"
| "cond_holds If_err e = e"

definition reply :: "'h env \<Rightarrow> dspec \<Rightarrow> u32 list \<Rightarrow> 'h world \<Rightarrow> 'h world" where
  "reply E d A w = int_call E (sp_int d)
     (fold (\<lambda>(r, x). set_reg r x) (map (\<lambda>(r, s). (r, in_value A w s)) (sp_in d))
       (w\<lparr>eax := sp_ax d\<rparr>))"

definition spec_outputs :: "dspec \<Rightarrow> u32 list \<Rightarrow> 'h world \<Rightarrow> mem" where
  "spec_outputs d A v = fold (\<lambda>(c, i, k, x) m. if cond_holds c (cf v)
     then store_out (A ! i + of_nat k) x v m else m) (sp_out d) (own v)"

definition spec_call :: "'h env \<Rightarrow> dspec \<Rightarrow> u32 list \<Rightarrow> 'h world \<Rightarrow> u32 \<times> 'h world" where
  "spec_call E d A w =
     (let v = reply E d A w
      in (if sp_zero d then 0 else if sp_chk d \<and> cf v then - 1 else eax v,
          v\<lparr>own := spec_outputs d A v,
             seg_es := (if sp_keep_es d then seg_es w else seg_es v)\<rparr>))"

text \<open>
  Two outcomes agree in all but the scratch registers and flags, which no C code relies on across a
  call.
\<close>

definition same_outcome :: "u32 \<times> 'h world \<Rightarrow> u32 \<times> 'h world \<Rightarrow> bool" where
  "same_outcome x y \<longleftrightarrow> fst x = fst y \<and> own (snd x) = own (snd y) \<and> lin (snd x) = lin (snd y) \<and>
     host (snd x) = host (snd y) \<and> seg_ds (snd x) = seg_ds (snd y) \<and>
     seg_es (snd x) = seg_es (snd y) \<and> seg_fs (snd x) = seg_fs (snd y) \<and>
     seg_gs (snd x) = seg_gs (snd y)"

definition conforms :: "'h env \<Rightarrow> u32 list \<Rightarrow> 'h world \<Rightarrow> dspec \<Rightarrow> cfun \<Rightarrow> bool" where
  "conforms E A w d f \<longleftrightarrow> same_outcome (call_c E f A w) (spec_call E d A w) \<and>
     clean (exec E A (body f) (start w)) \<and> uses_args f"

text \<open>The usual form: \<open>int 0x31\<close>, carry checked, nothing but registers exchanged.\<close>

definition simple_service :: "u32 \<Rightarrow> (reg \<times> insrc) list \<Rightarrow> dspec" where
  "simple_service ax ins = \<lparr>sp_int = 0x31, sp_ax = ax, sp_in = ins, sp_chk = True, sp_zero = False,
     sp_out = [], sp_keep_es = False\<rparr>"

text \<open>The vector services exchange a far pointer with the object behind the second argument.\<close>

definition get_paddr :: "u32 \<Rightarrow> dspec" where
  "get_paddr ax = (simple_service ax [(EBX, A32 0)])
     \<lparr>sp_out := [(Always, 1, 0, O32 EDX), (Always, 1, 4, O16 ECX)]\<rparr>"

definition set_paddr :: "u32 \<Rightarrow> dspec" where
  "set_paddr ax = simple_service ax [(EBX, A32 0), (ESI, A32 1), (ECX, M16 1 4), (EDX, M32 1 0)]"

definition dpmi_table :: "(dspec \<times> cfun) list" where
  "dpmi_table =
    [((simple_service 0x1680 [])\<lparr>sp_int := 0x2f, sp_chk := False\<rparr>, dpmi_yield),
     (simple_service 0 [(ECX, A32 0)], dpmi_allocate_ldt_descriptors),
     (simple_service 1 [(EBX, A32 0)], dpmi_free_ldt_descriptor),
     (simple_service 2 [(EBX, A32 0)], dpmi_segment_to_descriptor),
     (simple_service 3 [], dpmi_get_selector_increment_value),
     ((simple_service 6 [(EBX, A32 0)])\<lparr>sp_out := [(Always, 1, 0, OPair ECX EDX)]\<rparr>,
        dpmi_get_segment_base_address),
     (simple_service 7 [(EBX, A32 0), (ECX, AHi 1), (EDX, ALo 1)], dpmi_set_segment_base_address),
     (simple_service 8 [(EBX, A32 0), (ECX, AHi 1), (EDX, ALo 1)], dpmi_set_segment_limit),
     (simple_service 9 [(EBX, A32 0), (ECX, A32 1)], dpmi_set_descriptor_access_rights),
     (simple_service 0xa [(EBX, A32 0)], dpmi_create_alias_descriptor),
     (simple_service 0xb [(EBX, A32 0), (EDI, A32 1)], dpmi_get_descriptor),
     (simple_service 0xc [(EBX, A32 0), (EDI, A32 1)], dpmi_set_descriptor),
     (simple_service 0xd [(EBX, A32 0)], dpmi_allocate_specific_ldt_descriptor),
     (simple_service 0xe [(ECX, A32 0), (EDI, A32 1)], dpmi_get_multiple_descriptors),
     (simple_service 0xf [(ECX, A32 0), (EDI, A32 1)], dpmi_set_multiple_descriptors),
     ((simple_service 0x100 [(EBX, A32 0)])
        \<lparr>sp_out := [(If_err, 1, 0, O32 EBX), (If_ok, 1, 0, O32 EDX)]\<rparr>, dpmi_allocate_dos_memory),
     (simple_service 0x101 [(EDX, A32 0)], dpmi_free_dos_memory),
     ((simple_service 0x102 [(EBX, A32 1), (EDX, A32 0)])\<lparr>sp_out := [(If_err, 2, 0, O32 EBX)]\<rparr>,
        dpmi_resize_dos_memory),
     ((simple_service 0x200 [(EBX, A32 0)])\<lparr>sp_chk := False, sp_zero := True,
        sp_out := [(Always, 1, 0, O16 EDX), (Always, 1, 2, O16 ECX)]\<rparr>,
        dpmi_get_real_mode_interrupt_vector),
     ((simple_service 0x201 [(EBX, A32 0), (ESI, A32 1), (ECX, M16 1 2), (EDX, M16 1 0)])
        \<lparr>sp_chk := False, sp_zero := True\<rparr>, dpmi_set_real_mode_interrupt_vector),
     (get_paddr 0x202, dpmi_get_processor_exception_handler_vector),
     (set_paddr 0x203, dpmi_set_processor_exception_handler_vector),
     ((get_paddr 0x204)\<lparr>sp_chk := False, sp_zero := True\<rparr>,
        dpmi_get_protected_mode_interrupt_vector),
     (set_paddr 0x205, dpmi_set_protected_mode_interrupt_vector),
     (get_paddr 0x210, dpmi_get_extended_exception_handler_vector_pm),
     (get_paddr 0x211, dpmi_get_extended_exception_handler_vector_rm),
     (set_paddr 0x212, dpmi_set_extended_exception_handler_vector_pm),
     (set_paddr 0x213, dpmi_set_extended_exception_handler_vector_rm),
     ((simple_service 0x501 [(EBX, AHi 0), (ECX, ALo 0)])
        \<lparr>sp_out := [(Always, 1, 0, OPair EBX ECX), (Always, 2, 0, OPair ESI EDI)]\<rparr>,
        dpmi_allocate_memory),
     (simple_service 0x502 [(ESI, AHi 0), (EDI, ALo 0)], dpmi_free_memory),
     ((simple_service 0x503 [(EBX, AHi 0), (ECX, ALo 0), (ESI, AHi 1), (EDI, ALo 1)])
        \<lparr>sp_out := [(Always, 2, 0, OPair EBX ECX), (Always, 3, 0, OPair ESI EDI)]\<rparr>,
        dpmi_resize_memory),
     ((simple_service 0x604 [])\<lparr>sp_out := [(Always, 0, 0, OPair EBX ECX)]\<rparr>, dpmi_get_page_size),
     (simple_service 0x900 [], dpmi_get_and_disable_virtual_interrupt_state),
     (simple_service 0x901 [], dpmi_get_and_enable_virtual_interrupt_state),
     (simple_service 0x902 [], dpmi_get_virtual_interrupt_state),
     ((simple_service 0xa00 [(ESI, A32 0)])
        \<lparr>sp_out := [(Always, 1, 0, O32 EDI), (Always, 1, 4, OEs)], sp_keep_es := True\<rparr>,
        dpmi_get_vendor_specific_api_entry_point)]"

section \<open>Conformance\<close>

text \<open>Two 16-bit stores, in either order, are one 32-bit store of the pair.\<close>

lemma store_pair_lo_hi:
  "store16 (store16 m p l) (p + 2) h = store32 m p (pair32 h l)"
  using store_bytes_append [of "bytes16 l" "bytes16 h" m p]
  by (simp add: store16_def store32_def bytes32_halves)

lemma store_bytes_commute:
  assumes "apart a (length xs) b (length ys)"
  shows "store_bytes (store_bytes m a xs) b ys = store_bytes (store_bytes m b ys) a xs"
proof
  fix x
  have "\<not> (in_region x a (length xs) \<and> in_region x b (length ys))"
    using apart_not_in [OF assms] by blast
  then show "store_bytes (store_bytes m a xs) b ys x = store_bytes (store_bytes m b ys) a xs x"
    by (auto simp: store_bytes_def)
qed

lemma store_pair_hi_lo:
  "store16 (store16 m (p + 2) h) p l = store32 m p (pair32 h l)"
proof -
  have "apart (p + 2) 2 p 2" by (simp add: apart_def)
  then have "store16 (store16 m (p + 2) h) p l = store16 (store16 m p l) (p + 2) h"
    using store_bytes_commute [of "p + 2" "bytes16 h" p "bytes16 l" m] by (simp add: store16_def)
  then show ?thesis by (simp add: store_pair_lo_hi)
qed

lemma lo16_ucast [simp]: "lo16 (ucast (x :: u16)) = x"
  by (rule bit_word_eqI) (auto simp: lo16_def bit_simps)

lemma length_eqs:
  "length A = 1 \<longleftrightarrow> (\<exists>a. A = [a])"
  "length A = 2 \<longleftrightarrow> (\<exists>a b. A = [a, b])"
  "length A = 3 \<longleftrightarrow> (\<exists>a b c. A = [a, b, c])"
  "length A = 4 \<longleftrightarrow> (\<exists>a b c d. A = [a, b, c, d])"
  by (auto simp: length_Suc_conv numeral_eq_Suc)

lemmas conforms_defs =
  conforms_def same_outcome_def call_c_def spec_call_def reply_def spec_outputs_def clean_def uses_args_def exec_asm Let_def
  simple_service_def get_paddr_def set_paddr_def store_own32_def store_own16_def
  store_pair_lo_hi store_pair_hi_lo length_eqs

lemma conf_yield:
  "length A = nargs dpmi_yield \<Longrightarrow>
    conforms E A w ((simple_service 0x1680 [])\<lparr>sp_int := 0x2f, sp_chk := False\<rparr>) dpmi_yield"
  by (auto simp: dpmi_yield_def conforms_defs)

lemma conf_allocate_ldt_descriptors:
  "length A = nargs dpmi_allocate_ldt_descriptors \<Longrightarrow>
    conforms E A w (simple_service 0 [(ECX, A32 0)]) dpmi_allocate_ldt_descriptors"
  by (auto simp: dpmi_allocate_ldt_descriptors_def conforms_defs)

lemma conf_free_ldt_descriptor:
  "length A = nargs dpmi_free_ldt_descriptor \<Longrightarrow>
    conforms E A w (simple_service 1 [(EBX, A32 0)]) dpmi_free_ldt_descriptor"
  by (auto simp: dpmi_free_ldt_descriptor_def conforms_defs)

lemma conf_segment_to_descriptor:
  "length A = nargs dpmi_segment_to_descriptor \<Longrightarrow>
    conforms E A w (simple_service 2 [(EBX, A32 0)]) dpmi_segment_to_descriptor"
  by (auto simp: dpmi_segment_to_descriptor_def conforms_defs)

lemma conf_get_selector_increment_value:
  "length A = nargs dpmi_get_selector_increment_value \<Longrightarrow>
    conforms E A w (simple_service 3 []) dpmi_get_selector_increment_value"
  by (auto simp: dpmi_get_selector_increment_value_def conforms_defs)

lemma conf_get_segment_base_address:
  "length A = nargs dpmi_get_segment_base_address \<Longrightarrow>
    conforms E A w ((simple_service 6 [(EBX, A32 0)])\<lparr>sp_out := [(Always, 1, 0, OPair ECX EDX)]\<rparr>) dpmi_get_segment_base_address"
  by (auto simp: dpmi_get_segment_base_address_def conforms_defs)

lemma conf_set_segment_base_address:
  "length A = nargs dpmi_set_segment_base_address \<Longrightarrow>
    conforms E A w (simple_service 7 [(EBX, A32 0), (ECX, AHi 1), (EDX, ALo 1)]) dpmi_set_segment_base_address"
  by (auto simp: dpmi_set_segment_base_address_def conforms_defs)

lemma conf_set_segment_limit:
  "length A = nargs dpmi_set_segment_limit \<Longrightarrow>
    conforms E A w (simple_service 8 [(EBX, A32 0), (ECX, AHi 1), (EDX, ALo 1)]) dpmi_set_segment_limit"
  by (auto simp: dpmi_set_segment_limit_def conforms_defs)

lemma conf_set_descriptor_access_rights:
  "length A = nargs dpmi_set_descriptor_access_rights \<Longrightarrow>
    conforms E A w (simple_service 9 [(EBX, A32 0), (ECX, A32 1)]) dpmi_set_descriptor_access_rights"
  by (auto simp: dpmi_set_descriptor_access_rights_def conforms_defs)

lemma conf_create_alias_descriptor:
  "length A = nargs dpmi_create_alias_descriptor \<Longrightarrow>
    conforms E A w (simple_service 0xa [(EBX, A32 0)]) dpmi_create_alias_descriptor"
  by (auto simp: dpmi_create_alias_descriptor_def conforms_defs)

lemma conf_get_descriptor:
  "length A = nargs dpmi_get_descriptor \<Longrightarrow>
    conforms E A w (simple_service 0xb [(EBX, A32 0), (EDI, A32 1)]) dpmi_get_descriptor"
  by (auto simp: dpmi_get_descriptor_def conforms_defs)

lemma conf_set_descriptor:
  "length A = nargs dpmi_set_descriptor \<Longrightarrow>
    conforms E A w (simple_service 0xc [(EBX, A32 0), (EDI, A32 1)]) dpmi_set_descriptor"
  by (auto simp: dpmi_set_descriptor_def conforms_defs)

lemma conf_allocate_specific_ldt_descriptor:
  "length A = nargs dpmi_allocate_specific_ldt_descriptor \<Longrightarrow>
    conforms E A w (simple_service 0xd [(EBX, A32 0)]) dpmi_allocate_specific_ldt_descriptor"
  by (auto simp: dpmi_allocate_specific_ldt_descriptor_def conforms_defs)

lemma conf_get_multiple_descriptors:
  "length A = nargs dpmi_get_multiple_descriptors \<Longrightarrow>
    conforms E A w (simple_service 0xe [(ECX, A32 0), (EDI, A32 1)]) dpmi_get_multiple_descriptors"
  by (auto simp: dpmi_get_multiple_descriptors_def conforms_defs)

lemma conf_set_multiple_descriptors:
  "length A = nargs dpmi_set_multiple_descriptors \<Longrightarrow>
    conforms E A w (simple_service 0xf [(ECX, A32 0), (EDI, A32 1)]) dpmi_set_multiple_descriptors"
  by (auto simp: dpmi_set_multiple_descriptors_def conforms_defs)

lemma conf_allocate_dos_memory:
  "length A = nargs dpmi_allocate_dos_memory \<Longrightarrow>
    conforms E A w ((simple_service 0x100 [(EBX, A32 0)]) \<lparr>sp_out := [(If_err, 1, 0, O32 EBX), (If_ok, 1, 0, O32 EDX)]\<rparr>) dpmi_allocate_dos_memory"
  by (auto simp: dpmi_allocate_dos_memory_def conforms_defs)

lemma conf_free_dos_memory:
  "length A = nargs dpmi_free_dos_memory \<Longrightarrow>
    conforms E A w (simple_service 0x101 [(EDX, A32 0)]) dpmi_free_dos_memory"
  by (auto simp: dpmi_free_dos_memory_def conforms_defs)

lemma conf_resize_dos_memory:
  "length A = nargs dpmi_resize_dos_memory \<Longrightarrow>
    conforms E A w ((simple_service 0x102 [(EBX, A32 1), (EDX, A32 0)])\<lparr>sp_out := [(If_err, 2, 0, O32 EBX)]\<rparr>) dpmi_resize_dos_memory"
  by (auto simp: dpmi_resize_dos_memory_def conforms_defs)

lemma conf_get_real_mode_interrupt_vector:
  "length A = nargs dpmi_get_real_mode_interrupt_vector \<Longrightarrow>
    conforms E A w ((simple_service 0x200 [(EBX, A32 0)])\<lparr>sp_chk := False, sp_zero := True, sp_out := [(Always, 1, 0, O16 EDX), (Always, 1, 2, O16 ECX)]\<rparr>) dpmi_get_real_mode_interrupt_vector"
  by (auto simp: dpmi_get_real_mode_interrupt_vector_def conforms_defs)

lemma conf_set_real_mode_interrupt_vector:
  "length A = nargs dpmi_set_real_mode_interrupt_vector \<Longrightarrow>
    conforms E A w ((simple_service 0x201 [(EBX, A32 0), (ESI, A32 1), (ECX, M16 1 2), (EDX, M16 1 0)]) \<lparr>sp_chk := False, sp_zero := True\<rparr>) dpmi_set_real_mode_interrupt_vector"
  by (auto simp: dpmi_set_real_mode_interrupt_vector_def conforms_defs)

lemma conf_get_processor_exception_handler_vector:
  "length A = nargs dpmi_get_processor_exception_handler_vector \<Longrightarrow>
    conforms E A w (get_paddr 0x202) dpmi_get_processor_exception_handler_vector"
  by (auto simp: dpmi_get_processor_exception_handler_vector_def conforms_defs)

lemma conf_set_processor_exception_handler_vector:
  "length A = nargs dpmi_set_processor_exception_handler_vector \<Longrightarrow>
    conforms E A w (set_paddr 0x203) dpmi_set_processor_exception_handler_vector"
  by (auto simp: dpmi_set_processor_exception_handler_vector_def conforms_defs)

lemma conf_get_protected_mode_interrupt_vector:
  "length A = nargs dpmi_get_protected_mode_interrupt_vector \<Longrightarrow>
    conforms E A w ((get_paddr 0x204)\<lparr>sp_chk := False, sp_zero := True\<rparr>) dpmi_get_protected_mode_interrupt_vector"
  by (auto simp: dpmi_get_protected_mode_interrupt_vector_def conforms_defs)

lemma conf_set_protected_mode_interrupt_vector:
  "length A = nargs dpmi_set_protected_mode_interrupt_vector \<Longrightarrow>
    conforms E A w (set_paddr 0x205) dpmi_set_protected_mode_interrupt_vector"
  by (auto simp: dpmi_set_protected_mode_interrupt_vector_def conforms_defs)

lemma conf_get_extended_exception_handler_vector_pm:
  "length A = nargs dpmi_get_extended_exception_handler_vector_pm \<Longrightarrow>
    conforms E A w (get_paddr 0x210) dpmi_get_extended_exception_handler_vector_pm"
  by (auto simp: dpmi_get_extended_exception_handler_vector_pm_def conforms_defs)

lemma conf_get_extended_exception_handler_vector_rm:
  "length A = nargs dpmi_get_extended_exception_handler_vector_rm \<Longrightarrow>
    conforms E A w (get_paddr 0x211) dpmi_get_extended_exception_handler_vector_rm"
  by (auto simp: dpmi_get_extended_exception_handler_vector_rm_def conforms_defs)

lemma conf_set_extended_exception_handler_vector_pm:
  "length A = nargs dpmi_set_extended_exception_handler_vector_pm \<Longrightarrow>
    conforms E A w (set_paddr 0x212) dpmi_set_extended_exception_handler_vector_pm"
  by (auto simp: dpmi_set_extended_exception_handler_vector_pm_def conforms_defs)

lemma conf_set_extended_exception_handler_vector_rm:
  "length A = nargs dpmi_set_extended_exception_handler_vector_rm \<Longrightarrow>
    conforms E A w (set_paddr 0x213) dpmi_set_extended_exception_handler_vector_rm"
  by (auto simp: dpmi_set_extended_exception_handler_vector_rm_def conforms_defs)

lemma conf_allocate_memory:
  "length A = nargs dpmi_allocate_memory \<Longrightarrow>
    conforms E A w ((simple_service 0x501 [(EBX, AHi 0), (ECX, ALo 0)]) \<lparr>sp_out := [(Always, 1, 0, OPair EBX ECX), (Always, 2, 0, OPair ESI EDI)]\<rparr>) dpmi_allocate_memory"
  by (auto simp: dpmi_allocate_memory_def conforms_defs)

lemma conf_free_memory:
  "length A = nargs dpmi_free_memory \<Longrightarrow>
    conforms E A w (simple_service 0x502 [(ESI, AHi 0), (EDI, ALo 0)]) dpmi_free_memory"
  by (auto simp: dpmi_free_memory_def conforms_defs)

lemma conf_resize_memory:
  "length A = nargs dpmi_resize_memory \<Longrightarrow>
    conforms E A w ((simple_service 0x503 [(EBX, AHi 0), (ECX, ALo 0), (ESI, AHi 1), (EDI, ALo 1)]) \<lparr>sp_out := [(Always, 2, 0, OPair EBX ECX), (Always, 3, 0, OPair ESI EDI)]\<rparr>) dpmi_resize_memory"
  by (auto simp: dpmi_resize_memory_def conforms_defs)

lemma conf_get_page_size:
  "length A = nargs dpmi_get_page_size \<Longrightarrow>
    conforms E A w ((simple_service 0x604 [])\<lparr>sp_out := [(Always, 0, 0, OPair EBX ECX)]\<rparr>) dpmi_get_page_size"
  by (auto simp: dpmi_get_page_size_def conforms_defs)

lemma conf_get_and_disable_virtual_interrupt_state:
  "length A = nargs dpmi_get_and_disable_virtual_interrupt_state \<Longrightarrow>
    conforms E A w (simple_service 0x900 []) dpmi_get_and_disable_virtual_interrupt_state"
  by (auto simp: dpmi_get_and_disable_virtual_interrupt_state_def conforms_defs)

lemma conf_get_and_enable_virtual_interrupt_state:
  "length A = nargs dpmi_get_and_enable_virtual_interrupt_state \<Longrightarrow>
    conforms E A w (simple_service 0x901 []) dpmi_get_and_enable_virtual_interrupt_state"
  by (auto simp: dpmi_get_and_enable_virtual_interrupt_state_def conforms_defs)

lemma conf_get_virtual_interrupt_state:
  "length A = nargs dpmi_get_virtual_interrupt_state \<Longrightarrow>
    conforms E A w (simple_service 0x902 []) dpmi_get_virtual_interrupt_state"
  by (auto simp: dpmi_get_virtual_interrupt_state_def conforms_defs)

lemma conf_get_vendor_specific_api_entry_point:
  "length A = nargs dpmi_get_vendor_specific_api_entry_point \<Longrightarrow>
    conforms E A w ((simple_service 0xa00 [(ESI, A32 0)]) \<lparr>sp_out := [(Always, 1, 0, O32 EDI), (Always, 1, 4, OEs)], sp_keep_es := True\<rparr>) dpmi_get_vendor_specific_api_entry_point"
  by (auto simp: dpmi_get_vendor_specific_api_entry_point_def conforms_defs)

lemmas conforms_all =
  conf_yield conf_allocate_ldt_descriptors conf_free_ldt_descriptor conf_segment_to_descriptor
  conf_get_selector_increment_value conf_get_segment_base_address conf_set_segment_base_address
  conf_set_segment_limit conf_set_descriptor_access_rights conf_create_alias_descriptor
  conf_get_descriptor conf_set_descriptor conf_allocate_specific_ldt_descriptor
  conf_get_multiple_descriptors conf_set_multiple_descriptors conf_allocate_dos_memory
  conf_free_dos_memory conf_resize_dos_memory conf_get_real_mode_interrupt_vector
  conf_set_real_mode_interrupt_vector conf_get_processor_exception_handler_vector
  conf_set_processor_exception_handler_vector conf_get_protected_mode_interrupt_vector
  conf_set_protected_mode_interrupt_vector conf_get_extended_exception_handler_vector_pm
  conf_get_extended_exception_handler_vector_rm conf_set_extended_exception_handler_vector_pm
  conf_set_extended_exception_handler_vector_rm conf_allocate_memory conf_free_memory
  conf_resize_memory conf_get_page_size conf_get_and_disable_virtual_interrupt_state
  conf_get_and_enable_virtual_interrupt_state conf_get_virtual_interrupt_state
  conf_get_vendor_specific_api_entry_point

lemma dpmi_table_conforms:
  "list_all (\<lambda>(d, f). \<forall>A. length A = nargs f \<longrightarrow> conforms E A w d f) dpmi_table"
  unfolding dpmi_table_def list.pred_inject(2) prod.case
  by (intro conjI allI impI list.pred_inject(1); (rule conforms_all, assumption))

section \<open>What the wrappers write\<close>

text \<open>
  The objects a wrapper may write, from the prototypes in \<open>dpmi.h\<close>: pointer argument and size of the
  type it points to (\<open>uint32_t\<close> and \<open>int\<close> 4, \<open>uint16_t\<close> 2, \<open>__dpmi_raddr\<close> 4,
  \<open>__dpmi_paddr\<close> 8 with its padding). The functions not listed have no output object.
\<close>

definition raddr_members :: "ctype list" where
  "raddr_members = [U16, U16]"

definition paddr_members :: "ctype list" where
  "paddr_members = [U32, U16]"

definition out_objects :: "(cfun \<times> (nat \<times> nat) list) list" where
  "out_objects =
    [(dpmi_get_segment_base_address, [(1, 4)]),
     (dpmi_allocate_dos_memory, [(1, 2)]),
     (dpmi_resize_dos_memory, [(2, 4)]),
     (dpmi_get_real_mode_interrupt_vector, [(1, struct_size raddr_members)]),
     (dpmi_get_processor_exception_handler_vector, [(1, struct_size paddr_members)]),
     (dpmi_get_protected_mode_interrupt_vector, [(1, struct_size paddr_members)]),
     (dpmi_get_extended_exception_handler_vector_pm, [(1, struct_size paddr_members)]),
     (dpmi_get_extended_exception_handler_vector_rm, [(1, struct_size paddr_members)]),
     (dpmi_allocate_memory, [(1, 4), (2, 4)]),
     (dpmi_resize_memory, [(2, 4), (3, 4)]),
     (dpmi_get_page_size, [(0, 4)]),
     (dpmi_get_vendor_specific_api_entry_point, [(1, struct_size paddr_members)])]"

definition objects_of :: "cfun \<Rightarrow> (nat \<times> nat) list" where
  "objects_of f = (case map_of out_objects f of Some xs \<Rightarrow> xs | None \<Rightarrow> [])"

fun out_width :: "outval \<Rightarrow> nat" where
  "out_width (O32 r) = 4"
| "out_width (O16 r) = 2"
| "out_width (OPair h l) = 4"
| "out_width OEs = 2"

definition outs_within :: "(nat \<times> nat) list \<Rightarrow> dspec \<Rightarrow> bool" where
  "outs_within objs d \<longleftrightarrow> list_all (\<lambda>(c, i, k, x).
     list_ex (\<lambda>(j, n). j = i \<and> k + out_width x \<le> n) objs) (sp_out d)"

lemma store_out_outside:
  "\<not> in_region x p (out_width v) \<Longrightarrow> store_out p v w m x = m x"
  by (cases v) (auto simp: store16_def store32_def store_bytes_outside)

lemma in_region_shift:
  assumes "in_region x (p + of_nat k) n" "k + n \<le> N" "N \<le> 2 ^ 32"
  shows "in_region x p N"
proof -
  define i where "i = unat (x - (p + of_nat k))"
  have i: "i < n" using assms(1) by (simp add: in_region_def i_def)
  have "x = (p + of_nat k) + of_nat i"
    unfolding i_def by simp
  then have "x = p + of_nat (k + i)" by simp
  then show ?thesis
    using i assms by (simp only: in_region_offset) simp
qed

lemma spec_outputs_footprint:
  assumes "outs_within objs d" "\<And>j n. (j, n) \<in> set objs \<Longrightarrow> n \<le> 2 ^ 32 \<and> \<not> in_region x (A ! j) n"
  shows "spec_outputs d A v x = own v x"
proof -
  have "fold (\<lambda>(c, i, k, y) m. if cond_holds c (cf v)
     then store_out (A ! i + of_nat k) y v m else m) os m x = m x"
    if "list_all (\<lambda>(c, i, k, y). list_ex (\<lambda>(j, n). j = i \<and> k + out_width y \<le> n) objs) os" for os m
    using that
  proof (induction os arbitrary: m)
    case (Cons a os)
    obtain c i k y where a: "a = (c, i, k, y)" by (cases a)
    from Cons.prems a obtain n where "(i, n) \<in> set objs" "k + out_width y \<le> n"
      by (auto simp: list_ex_iff)
    then have "\<not> in_region x (A ! i + of_nat k) (out_width y)"
      using assms(2) in_region_shift by blast
    then show ?case
      using Cons a by (simp add: store_out_outside)
  qed simp
  then show ?thesis
    using assms(1) by (simp add: spec_outputs_def outs_within_def)
qed

section \<open>The documented calls\<close>

text \<open>
  What the DPMI specification documents of a service: the function number in \<open>ax\<close>, the operands at
  the width of their registers (\<open>bl\<close> is 8 bits of \<open>ebx\<close>, \<open>cx:dx\<close> two halves), whether the service
  can fail (with carry set), which bits of \<open>eax\<close> are a result, and the results stored behind the
  pointer arguments, with the outcome they belong to. \<open>doc_open\<close> lists the bytes whose contents after
  the call are not documented: an output object after a failure, and the two bytes that
  \<open>dpmi_allocate_dos_memory\<close> and \<open>dpmi_resize_dos_memory\<close> store beyond the 16-bit result. Two
  wrappers make no call but read the descriptor themselves with \<open>lsl\<close> and \<open>lar\<close>.
\<close>

datatype doc_result = Zero | Bits u32

record docspec =
  doc_int :: nat
  doc_ax :: u16
  doc_in :: "(reg \<times> nat \<times> insrc) list"
  doc_fails :: bool
  doc_res :: doc_result
  doc_out :: "(outcond \<times> nat \<times> nat \<times> outval) list"
  doc_open :: "(outcond \<times> nat \<times> nat \<times> nat) list"
  doc_keep_es :: bool

datatype contract = Service docspec | Load_limit | Load_rights

definition doc_outputs :: "docspec \<Rightarrow> u32 list \<Rightarrow> 'h world \<Rightarrow> mem" where
  "doc_outputs k A v = fold (\<lambda>(c, i, d, x) m. if cond_holds c (cf v)
     then store_out (A ! i + of_nat d) x v m else m) (doc_out k) (own v)"

definition undocumented :: "docspec \<Rightarrow> u32 list \<Rightarrow> bool \<Rightarrow> u32 \<Rightarrow> bool" where
  "undocumented k A e y \<longleftrightarrow>
     list_ex (\<lambda>(c, i, d, n). cond_holds c e \<and> in_region y (A ! i + of_nat d) n) (doc_open k)"

text \<open>The world \<open>u\<close> asks for the service: only general registers and flags differ from \<open>w\<close>.\<close>

definition asks :: "docspec \<Rightarrow> u32 list \<Rightarrow> 'h world \<Rightarrow> 'h world \<Rightarrow> bool" where
  "asks k A w u \<longleftrightarrow> own u = own w \<and> lin u = lin w \<and> host u = host w \<and> seg_ds u = seg_ds w \<and>
     seg_es u = seg_es w \<and> seg_fs u = seg_fs w \<and> seg_gs u = seg_gs w \<and>
     lo16 (eax u) = doc_ax k \<and>
     list_all (\<lambda>(r, n, s). take_bit n (get_reg r u) = take_bit n (in_value A w s)) (doc_in k)"

fun result_ok :: "docspec \<Rightarrow> 'h world \<Rightarrow> u32 \<Rightarrow> bool" where
  "result_ok k v rc = (if doc_fails k \<and> cf v then rc = - 1
     else case doc_res k of Zero \<Rightarrow> rc = 0 | Bits b \<Rightarrow> cf v \<or> rc AND b = eax v AND b)"

text \<open>The world \<open>v\<close> is the host's reply, \<open>x\<close> the world and \<open>rc\<close> the result of the wrapper.\<close>

definition delivers :: "docspec \<Rightarrow> u32 list \<Rightarrow> 'h world \<Rightarrow> 'h world \<Rightarrow> u32 \<Rightarrow> 'h world \<Rightarrow> bool" where
  "delivers k A w v rc x \<longleftrightarrow> result_ok k v rc \<and>
     (\<forall>y. undocumented k A (cf v) y \<or> own x y = doc_outputs k A v y) \<and>
     lin x = lin v \<and> host x = host v \<and> seg_ds x = seg_ds v \<and> seg_fs x = seg_fs v \<and>
     seg_gs x = seg_gs v \<and> seg_es x = (if doc_keep_es k then seg_es w else seg_es v)"

definition loads :: "u32 option \<Rightarrow> 'h world \<Rightarrow> u32 \<times> 'h world" where
  "loads q w = (case q of Some v \<Rightarrow> (v, w\<lparr>eax := v, zf := True\<rparr>) | None \<Rightarrow> (eax w, w\<lparr>zf := False\<rparr>))"

fun meets :: "'h env \<Rightarrow> u32 list \<Rightarrow> 'h world \<Rightarrow> contract \<Rightarrow> cfun \<Rightarrow> bool" where
  "meets E A w (Service k) f = (\<exists>u. asks k A w u \<and>
     delivers k A w (int_call E (doc_int k) u) (fst (call_c E f A w)) (snd (call_c E f A w)))"
| "meets E A w Load_limit f = (call_c E f A w = loads (lsl_of E (host w) (lo16 (A ! 0))) w)"
| "meets E A w Load_rights f = (call_c E f A w = loads (lar_of E (host w) (lo16 (A ! 0))) w)"

text \<open>The usual form: \<open>int 0x31\<close>, which can fail and has no result but its success.\<close>

definition dpmi_doc :: "u16 \<Rightarrow> (reg \<times> nat \<times> insrc) list \<Rightarrow> docspec" where
  "dpmi_doc ax ins = \<lparr>doc_int = 0x31, doc_ax = ax, doc_in = ins, doc_fails = True, doc_res = Bits 0,
     doc_out = [], doc_open = [], doc_keep_es = False\<rparr>"

definition sel_doc :: "u16 \<Rightarrow> (reg \<times> nat \<times> insrc) list \<Rightarrow> docspec" where
  "sel_doc ax ins = (dpmi_doc ax ins)\<lparr>doc_res := Bits 0xffff\<rparr>"

definition int_state_doc :: "u16 \<Rightarrow> docspec" where
  "int_state_doc ax = (dpmi_doc ax [])\<lparr>doc_fails := False, doc_res := Bits 0xff\<rparr>"

definition get_vector_doc :: "u16 \<Rightarrow> docspec" where
  "get_vector_doc ax = (dpmi_doc ax [(EBX, 8, A32 0)])
     \<lparr>doc_out := [(If_ok, 1, 0, O32 EDX), (If_ok, 1, 4, O16 ECX)], doc_open := [(If_err, 1, 0, 6)]\<rparr>"

definition set_vector_doc :: "u16 \<Rightarrow> docspec" where
  "set_vector_doc ax = dpmi_doc ax [(EBX, 8, A32 0), (ECX, 16, M16 1 4), (EDX, 32, M32 1 0)]"

definition dpmi_contracts :: "(contract \<times> cfun) list" where
  "dpmi_contracts =
    [(Service ((dpmi_doc 0x1680 [])\<lparr>doc_int := 0x2f, doc_fails := False\<rparr>), dpmi_yield),
     (Service (sel_doc 0 [(ECX, 16, A32 0)]), dpmi_allocate_ldt_descriptors),
     (Service (dpmi_doc 1 [(EBX, 16, A32 0)]), dpmi_free_ldt_descriptor),
     (Service (sel_doc 2 [(EBX, 16, A32 0)]), dpmi_segment_to_descriptor),
     (Service ((sel_doc 3 [])\<lparr>doc_fails := False\<rparr>), dpmi_get_selector_increment_value),
     (Service ((dpmi_doc 6 [(EBX, 16, A32 0)])\<lparr>doc_out := [(If_ok, 1, 0, OPair ECX EDX)],
        doc_open := [(If_err, 1, 0, 4)]\<rparr>), dpmi_get_segment_base_address),
     (Service (dpmi_doc 7 [(EBX, 16, A32 0), (ECX, 16, AHi 1), (EDX, 16, ALo 1)]),
        dpmi_set_segment_base_address),
     (Load_limit, dpmi_get_segment_limit),
     (Service (dpmi_doc 8 [(EBX, 16, A32 0), (ECX, 16, AHi 1), (EDX, 16, ALo 1)]),
        dpmi_set_segment_limit),
     (Load_rights, dpmi_get_descriptor_access_rights),
     (Service (dpmi_doc 9 [(EBX, 16, A32 0), (ECX, 16, A32 1)]), dpmi_set_descriptor_access_rights),
     (Service (sel_doc 0xa [(EBX, 16, A32 0)]), dpmi_create_alias_descriptor),
     (Service (dpmi_doc 0xb [(EBX, 16, A32 0), (EDI, 32, A32 1)]), dpmi_get_descriptor),
     (Service (dpmi_doc 0xc [(EBX, 16, A32 0), (EDI, 32, A32 1)]), dpmi_set_descriptor),
     (Service (dpmi_doc 0xd [(EBX, 16, A32 0)]), dpmi_allocate_specific_ldt_descriptor),
     (Service (dpmi_doc 0xe [(ECX, 16, A32 0), (EDI, 32, A32 1)]), dpmi_get_multiple_descriptors),
     (Service (dpmi_doc 0xf [(ECX, 16, A32 0), (EDI, 32, A32 1)]), dpmi_set_multiple_descriptors),
     (Service ((sel_doc 0x100 [(EBX, 16, A32 0)])
        \<lparr>doc_out := [(If_err, 1, 0, O16 EBX), (If_ok, 1, 0, O16 EDX)],
         doc_open := [(Always, 1, 2, 2)]\<rparr>), dpmi_allocate_dos_memory),
     (Service (dpmi_doc 0x101 [(EDX, 16, A32 0)]), dpmi_free_dos_memory),
     (Service ((dpmi_doc 0x102 [(EBX, 16, A32 1), (EDX, 16, A32 0)])
        \<lparr>doc_out := [(If_err, 2, 0, O16 EBX)], doc_open := [(If_err, 2, 2, 2)]\<rparr>),
        dpmi_resize_dos_memory),
     (Service ((dpmi_doc 0x200 [(EBX, 8, A32 0)])\<lparr>doc_fails := False, doc_res := Zero,
        doc_out := [(Always, 1, 0, O16 EDX), (Always, 1, 2, O16 ECX)]\<rparr>),
        dpmi_get_real_mode_interrupt_vector),
     (Service ((dpmi_doc 0x201 [(EBX, 8, A32 0), (ECX, 16, M16 1 2), (EDX, 16, M16 1 0)])
        \<lparr>doc_fails := False, doc_res := Zero\<rparr>), dpmi_set_real_mode_interrupt_vector),
     (Service (get_vector_doc 0x202), dpmi_get_processor_exception_handler_vector),
     (Service (set_vector_doc 0x203), dpmi_set_processor_exception_handler_vector),
     (Service ((dpmi_doc 0x204 [(EBX, 8, A32 0)])\<lparr>doc_fails := False, doc_res := Zero,
        doc_out := [(Always, 1, 0, O32 EDX), (Always, 1, 4, O16 ECX)]\<rparr>),
        dpmi_get_protected_mode_interrupt_vector),
     (Service (set_vector_doc 0x205), dpmi_set_protected_mode_interrupt_vector),
     (Service (get_vector_doc 0x210), dpmi_get_extended_exception_handler_vector_pm),
     (Service (get_vector_doc 0x211), dpmi_get_extended_exception_handler_vector_rm),
     (Service (set_vector_doc 0x212), dpmi_set_extended_exception_handler_vector_pm),
     (Service (set_vector_doc 0x213), dpmi_set_extended_exception_handler_vector_rm),
     (Service ((dpmi_doc 0x501 [(EBX, 16, AHi 0), (ECX, 16, ALo 0)])
        \<lparr>doc_out := [(If_ok, 1, 0, OPair EBX ECX), (If_ok, 2, 0, OPair ESI EDI)],
         doc_open := [(If_err, 1, 0, 4), (If_err, 2, 0, 4)]\<rparr>), dpmi_allocate_memory),
     (Service (dpmi_doc 0x502 [(ESI, 16, AHi 0), (EDI, 16, ALo 0)]), dpmi_free_memory),
     (Service ((dpmi_doc 0x503
          [(EBX, 16, AHi 0), (ECX, 16, ALo 0), (ESI, 16, AHi 1), (EDI, 16, ALo 1)])
        \<lparr>doc_out := [(If_ok, 2, 0, OPair EBX ECX), (If_ok, 3, 0, OPair ESI EDI)],
         doc_open := [(If_err, 2, 0, 4), (If_err, 3, 0, 4)]\<rparr>), dpmi_resize_memory),
     (Service ((dpmi_doc 0x604 [])\<lparr>doc_out := [(If_ok, 0, 0, OPair EBX ECX)],
        doc_open := [(If_err, 0, 0, 4)]\<rparr>), dpmi_get_page_size),
     (Service (int_state_doc 0x900), dpmi_get_and_disable_virtual_interrupt_state),
     (Service (int_state_doc 0x901), dpmi_get_and_enable_virtual_interrupt_state),
     (Service (int_state_doc 0x902), dpmi_get_virtual_interrupt_state),
     (Service ((dpmi_doc 0xa00 [(ESI, 32, A32 0)])
        \<lparr>doc_out := [(If_ok, 1, 0, O32 EDI), (If_ok, 1, 4, OEs)],
         doc_open := [(If_err, 1, 0, 6)], doc_keep_es := True\<rparr>),
        dpmi_get_vendor_specific_api_entry_point)]"

section \<open>The calls made meet the documented ones\<close>

text \<open>
  A call made meets a documented one when it loads every documented operand, checks carry where the
  service can fail, and performs the documented stores: exactly, or on every outcome instead of on
  success only, or 32 bits instead of 16, where the surplus is listed as undocumented.
\<close>

fun store_meets ::
  "(outcond \<times> nat \<times> nat \<times> nat) list \<Rightarrow> outcond \<times> nat \<times> nat \<times> outval \<Rightarrow> outcond \<times> nat \<times> nat \<times> outval \<Rightarrow> bool"
where
  "store_meets free (c, i, d, x) (c', i', d', x') \<longleftrightarrow> i = i' \<and> d = d' \<and>
     (c = c' \<and> x = x' \<or>
      c = Always \<and> c' = If_ok \<and> x = x' \<and>
        list_ex (\<lambda>(c'', j, b, n). c'' = If_err \<and> j = i \<and> b \<le> d \<and> d + out_width x \<le> b + n \<and> n \<le> 8) free \<or>
      c = c' \<and> (\<exists>r \<in> {EBX, EDX}. x = O32 r \<and> x' = O16 r) \<and>
        list_ex (\<lambda>(c'', j, b, n). (c'' = Always \<or> c'' = c) \<and> j = i \<and> b = d + 2 \<and> n = 2) free)"

definition call_meets :: "dspec \<Rightarrow> docspec \<Rightarrow> bool" where
  "call_meets d k \<longleftrightarrow> sp_int d = doc_int k \<and> lo16 (sp_ax d) = doc_ax k \<and>
     EAX \<notin> set (map fst (sp_in d)) \<and> distinct (map fst (sp_in d)) \<and>
     list_all (\<lambda>(r, n, s). (r, s) \<in> set (sp_in d)) (doc_in k) \<and>
     (doc_fails k \<longrightarrow> sp_chk d \<and> \<not> sp_zero d) \<and>
     (case doc_res k of Zero \<Rightarrow> sp_zero d | Bits b \<Rightarrow> \<not> sp_zero d) \<and>
     list_all2 (store_meets (doc_open k)) (sp_out d) (doc_out k) \<and> sp_keep_es d = doc_keep_es k"

definition service_contracts :: "(docspec \<times> cfun) list" where
  "service_contracts =
     concat (map (\<lambda>(c, f). case c of Service k \<Rightarrow> [(k, f)] | _ \<Rightarrow> []) dpmi_contracts)"

lemma calls_meet_contracts:
  "list_all2 (\<lambda>(d, f) (k, g). f = g \<and> call_meets d k) dpmi_table service_contracts"
  by code_simp

definition asked :: "dspec \<Rightarrow> u32 list \<Rightarrow> 'h world \<Rightarrow> 'h world" where
  "asked d A w = fold (\<lambda>(r, x). set_reg r x) (map (\<lambda>(r, s). (r, in_value A w s)) (sp_in d))
     (w\<lparr>eax := sp_ax d\<rparr>)"

lemma reply_asked: "reply E d A w = int_call E (sp_int d) (asked d A w)"
  by (simp add: reply_def asked_def)

lemma get_set_reg: "get_reg r (set_reg q v w) = (if r = q then v else get_reg r w)"
  by (cases r; cases q) simp_all

lemma set_reg_frame:
  "own (set_reg q v w) = own w" "lin (set_reg q v w) = lin w" "host (set_reg q v w) = host w"
  "seg_ds (set_reg q v w) = seg_ds w" "seg_es (set_reg q v w) = seg_es w"
  "seg_fs (set_reg q v w) = seg_fs w" "seg_gs (set_reg q v w) = seg_gs w"
  by (cases q; simp)+

lemma fold_set_reg_frame:
  fixes rs :: "(reg \<times> u32) list"
  defines "set_all \<equiv> fold (\<lambda>(r, x). set_reg r x) rs"
  shows "own (set_all w) = own w" "lin (set_all w) = lin w" "host (set_all w) = host w"
    "seg_ds (set_all w) = seg_ds w" "seg_es (set_all w) = seg_es w"
    "seg_fs (set_all w) = seg_fs w" "seg_gs (set_all w) = seg_gs w"
  unfolding set_all_def
  by (induction rs arbitrary: w; simp add: set_reg_frame case_prod_beta)+

lemma fold_set_reg_other:
  "r \<notin> set (map fst rs) \<Longrightarrow> get_reg r (fold (\<lambda>(r, x). set_reg r x) rs w) = get_reg r w"
  by (induction rs arbitrary: w) (auto simp: get_set_reg)

lemma fold_set_reg_same:
  "distinct (map fst rs) \<Longrightarrow> (r, x) \<in> set rs \<Longrightarrow>
    get_reg r (fold (\<lambda>(r, x). set_reg r x) rs w) = x"
  by (induction rs arbitrary: w) (auto simp: get_set_reg fold_set_reg_other image_iff)

lemma asked_asks:
  assumes "call_meets d k"
  shows "asks k A w (asked d A w)"
proof -
  let ?rs = "map (\<lambda>(r, s). (r, in_value A w s)) (sp_in d)"
  have fst_eq: "map fst ?rs = map fst (sp_in d)"
    by (simp add: comp_def case_prod_beta)
  have "get_reg EAX (asked d A w) = sp_ax d"
    using assms fold_set_reg_other [of EAX ?rs "w\<lparr>eax := sp_ax d\<rparr>"]
    by (simp only: fst_eq asked_def call_meets_def) simp
  moreover have "get_reg r (asked d A w) = in_value A w s" if "(r, s) \<in> set (sp_in d)" for r s
    unfolding asked_def
    by (rule fold_set_reg_same, unfold fst_eq) (use that assms in \<open>auto simp: call_meets_def\<close>)
  ultimately show ?thesis
    using assms fold_set_reg_frame [of ?rs "w\<lparr>eax := sp_ax d\<rparr>"]
    by (fastforce simp: asks_def asked_def call_meets_def list_all_iff)
qed

text \<open>The byte at \<open>y\<close> after a store depends on the byte there before, and on nothing else.\<close>

lemma store_out_cong: "m y = m' y \<Longrightarrow> store_out p x v m y = store_out p x v m' y"
  by (cases x) (simp_all add: store16_def store32_def store_bytes_def)

lemma store_wide_narrow:
  assumes "\<not> in_region y (p + 2) 2"
  shows "store_out p (O32 r) v m y = store_out p (O16 r) v m y"
proof -
  let ?x = "get_reg r v"
  have "store32 m p ?x = store16 (store16 m p (lo16 ?x)) (p + 2) (hi16 ?x)"
    by (simp add: store_pair_lo_hi)
  then show ?thesis
    using assms by (simp add: store16_def [of _ "p + 2"] store_bytes_outside)
qed

lemma store_meets_byte:
  assumes "store_meets (doc_open k) (c, i, d, x) (c', i', d', x')" "\<not> undocumented k A (cf v) y"
    and "m y = m' y"
  shows "(if cond_holds c (cf v) then store_out (A ! i + of_nat d) x v m else m) y =
    (if cond_holds c' (cf v) then store_out (A ! i' + of_nat d') x' v m' else m') y"
proof -
  let ?p = "A ! i + of_nat d"
  have at: "i' = i" "d' = d" using assms(1) by simp_all
  define covers where "covers \<longleftrightarrow> list_ex (\<lambda>(c'', j, b, n). c'' = If_err \<and> j = i \<and> b \<le> d \<and>
    d + out_width x \<le> b + n \<and> n \<le> 8) (doc_open k)"
  define surplus where "surplus \<longleftrightarrow> list_ex (\<lambda>(c'', j, b, n). (c'' = Always \<or> c'' = c) \<and> j = i \<and>
    b = d + 2 \<and> n = 2) (doc_open k)"
  from assms(1) have "c = c' \<and> x = x' \<or> c = Always \<and> c' = If_ok \<and> x = x' \<and> covers \<or>
      c = c' \<and> (\<exists>r \<in> {EBX, EDX}. x = O32 r \<and> x' = O16 r) \<and> surplus"
    unfolding store_meets.simps covers_def surplus_def by (elim conjE)
  then consider
      (same) "c = c'" "x = x'"
    | (always) "c = Always" "c' = If_ok" "x = x'" covers
    | (wide) r where "c = c'" "x = O32 r" "x' = O16 r" surplus
    by blast
  then show ?thesis
  proof cases
    case same
    then show ?thesis using at assms(3) store_out_cong [of m y m' _ _ v] by simp
  next
    case always
    from always(4) obtain b n where cover: "(If_err, i, b, n) \<in> set (doc_open k)" "b \<le> d"
        "d + out_width x \<le> b + n" "n \<le> 8"
      by (auto simp: covers_def list_ex_iff)
    show ?thesis
    proof (cases "cf v")
      case True
      then have "\<not> in_region y (A ! i + of_nat b) n"
        using cover(1) assms(2) by (auto simp: undocumented_def list_ex_iff)
      moreover have "?p = A ! i + of_nat b + of_nat (d - b)" "d - b + out_width x \<le> n"
        using cover(2,3) by (simp_all add: of_nat_diff)
      ultimately have "\<not> in_region y ?p (out_width x)"
        using in_region_shift [of y "A ! i + of_nat b" "d - b" "out_width x" n] cover(4) by (auto simp: add.assoc)
      then show ?thesis using always(1-3) at True assms(3) by (simp add: store_out_outside)
    next
      case False
      then show ?thesis using always(1-3) at assms(3) store_out_cong [of m y m' _ _ v] by simp
    qed
  next
    case wide
    from wide(4) obtain c'' where more: "c'' = Always \<or> c'' = c" "(c'', i, d + 2, 2) \<in> set (doc_open k)"
      by (auto simp: surplus_def list_ex_iff)
    show ?thesis
    proof (cases "cond_holds c (cf v)")
      case True
      then have "\<not> in_region y (A ! i + of_nat (d + 2)) 2"
        using more assms(2) by (auto simp: undocumented_def list_ex_iff)
      then have "\<not> in_region y (?p + 2) 2"
        by (simp add: add.assoc add.commute [of 2])
      then have "store_out ?p (O32 r) v m y = store_out ?p (O16 r) v m' y"
        using store_wide_narrow [of y ?p r v m] store_out_cong [of m y m' ?p "O16 r" v] assms(3)
        by (simp only: simp_thms)
      then show ?thesis using True wide(1-3) at by (simp only: if_True)
    qed (use wide(1-3) at assms(3) in simp)
  qed
qed

lemma outputs_meet:
  assumes "call_meets d k" "\<not> undocumented k A (cf v) y"
  shows "spec_outputs d A v y = doc_outputs k A v y"
proof -
  have "list_all2 (store_meets (doc_open k)) (sp_out d) (doc_out k)"
    using assms(1) by (simp add: call_meets_def)
  then have "fold (\<lambda>(c, i, d, x) m. if cond_holds c (cf v)
        then store_out (A ! i + of_nat d) x v m else m) (sp_out d) m y =
      fold (\<lambda>(c, i, d, x) m. if cond_holds c (cf v)
        then store_out (A ! i + of_nat d) x v m else m) (doc_out k) m' y"
    if "m y = m' y" for m m'
    using that
  proof (induction arbitrary: m m' rule: list_all2_induct)
    case (Cons a as b bs)
    obtain c i d x c' i' d' x' where ab: "a = (c, i, d, x)" "b = (c', i', d', x')"
      by (cases a; cases b)
    with Cons.hyps have "store_meets (doc_open k) (c, i, d, x) (c', i', d', x')" by (simp only:)
    from store_meets_byte [where m = m and m' = m', OF this assms(2) Cons.prems]
    show ?case using Cons.IH ab by simp
  qed simp
  then show ?thesis by (simp add: spec_outputs_def doc_outputs_def)
qed

lemma conforms_meets:
  assumes "conforms E A w d f" "call_meets d k"
  shows "meets E A w (Service k) f"
proof -
  let ?u = "asked d A w"
  let ?v = "int_call E (doc_int k) ?u"
  have v: "reply E d A w = ?v"
    using assms(2) by (simp add: reply_asked call_meets_def)
  have same: "same_outcome (call_c E f A w) (spec_call E d A w)"
    using assms(1) by (simp add: conforms_def)
  have "result_ok k ?v (fst (call_c E f A w))"
    using same assms(2)
    by (auto simp: same_outcome_def spec_call_def Let_def v call_meets_def split: doc_result.splits)
  moreover have "own (snd (call_c E f A w)) y = doc_outputs k A ?v y"
    if "\<not> undocumented k A (cf ?v) y" for y
    using same outputs_meet [OF assms(2) that]
    by (simp add: same_outcome_def spec_call_def Let_def v)
  moreover have "sp_keep_es d = doc_keep_es k"
    using assms(2) by (simp add: call_meets_def)
  ultimately have "delivers k A w ?v (fst (call_c E f A w)) (snd (call_c E f A w))"
    using same
    by (simp add: delivers_def same_outcome_def spec_call_def Let_def v del: result_ok.simps) blast
  then show ?thesis
    using asked_asks [OF assms(2)] by auto
qed

lemma lsl_meets:
  "length A = nargs dpmi_get_segment_limit \<Longrightarrow> meets E A w Load_limit dpmi_get_segment_limit"
  by (auto simp: dpmi_get_segment_limit_def call_c_def exec_asm loads_def length_eqs Let_def
    split: option.splits)

lemma lar_meets:
  "length A = nargs dpmi_get_descriptor_access_rights \<Longrightarrow>
    meets E A w Load_rights dpmi_get_descriptor_access_rights"
  by (auto simp: dpmi_get_descriptor_access_rights_def call_c_def exec_asm loads_def length_eqs Let_def
    split: option.splits)

text \<open>The two wrappers without a call, and the others with theirs.\<close>

lemma contract_cases:
  assumes "(c, f) \<in> set dpmi_contracts"
  obtains (service) d k where "c = Service k" "(d, f) \<in> set dpmi_table" "call_meets d k"
    | (limit) "c = Load_limit" "f = dpmi_get_segment_limit"
    | (rights) "c = Load_rights" "f = dpmi_get_descriptor_access_rights"
proof (cases c)
  case (Service k)
  then have "(k, f) \<in> set service_contracts"
    using assms by (force simp: service_contracts_def)
  then obtain i where i: "i < length service_contracts" "service_contracts ! i = (k, f)"
    by (auto simp: in_set_conv_nth)
  obtain d g where d: "dpmi_table ! i = (d, g)" by (cases "dpmi_table ! i")
  have "i < length dpmi_table" "g = f" "call_meets d k"
    using calls_meet_contracts i d by (auto simp: list_all2_conv_all_nth)
  then show thesis
    using service Service d nth_mem by metis
next
  case Load_limit
  have "list_all (\<lambda>(c, f). c = Load_limit \<longrightarrow> f = dpmi_get_segment_limit) dpmi_contracts"
    by (simp add: dpmi_contracts_def)
  then show thesis using limit Load_limit assms by (auto simp: list_all_iff)
next
  case Load_rights
  have "list_all (\<lambda>(c, f). c = Load_rights \<longrightarrow> f = dpmi_get_descriptor_access_rights) dpmi_contracts"
    by (simp add: dpmi_contracts_def)
  then show thesis using rights Load_rights assms by (auto simp: list_all_iff)
qed

section \<open>Properties\<close>

text \<open>
  C21. Every one of the 38 wrappers of \<open>dpmi.c\<close> meets its contract in \<open>dpmi_contracts\<close>, for every
  host. A service wrapper asks for the documented function with the documented operands, at the
  widths of their registers and with memory and segment registers as they were. It returns \<open>-1\<close>
  when the service can fail and reports failure by carry; without carry its result has the
  documented bits of \<open>eax\<close> (\<open>ax\<close> for a selector, \<open>al\<close> for the virtual interrupt state, nothing where
  the service only succeeds), or is 0 for the three wrappers that end with \<open>return 0\<close>. The
  documented results stand behind the pointer arguments, and memory is otherwise as the host left
  it, except in the bytes \<open>doc_open\<close> lists: an output object after a failure, and the two bytes behind
  the 16-bit result of \<open>dpmi_allocate_dos_memory\<close> and \<open>dpmi_resize_dos_memory\<close>. The \<open>lsl\<close> and
  \<open>lar\<close> wrappers return the limit or access rights of the selector, and what was in \<open>eax\<close> if there
  are none. Each block has no dangling jump, leaves the stack balanced and reads only its own
  arguments.
\<close>

theorem dpmi_wrappers_conform:
  assumes "(c, f) \<in> set dpmi_contracts" "length A = nargs f"
  shows "meets E A w c f \<and> clean (exec E A (body f) (start w)) \<and> uses_args f"
  using assms(1)
proof (cases rule: contract_cases)
  case (service d k)
  then have "conforms E A w d f"
    using dpmi_table_conforms [of E w] assms(2) by (auto simp: list_all_iff)
  with conforms_meets [OF this service(3)] show ?thesis
    by (simp only: service(1) conforms_def simp_thms)
next
  case limit
  then show ?thesis
    using assms(2) lsl_meets
    by (auto simp: dpmi_get_segment_limit_def clean_def uses_args_def exec_asm length_eqs
        simp del: meets.simps split: option.splits)
next
  case rights
  then show ?thesis
    using assms(2) lar_meets
    by (auto simp: dpmi_get_descriptor_access_rights_def clean_def uses_args_def exec_asm length_eqs
        simp del: meets.simps split: option.splits)
qed

definition quiet_world :: "unit world" where
  "quiet_world = \<lparr>eax = 0, ebx = 0, ecx = 0, edx = 0, esi = 0, edi = 0, seg_ds = 0, seg_es = 0,
     seg_fs = 0, seg_gs = 0, cf = False, zf = False, other_flags = 2, own = (\<lambda>_. 0),
     lin = (\<lambda>_. 0), host = ()\<rparr>"

definition quiet_env :: "unit env" where
  "quiet_env = \<lparr>int_call = (\<lambda>_ w. w), far_call = (\<lambda>_ _ w. w), lsl_of = (\<lambda>_ _. None),
     lar_of = (\<lambda>_ _. None), dpmi_int = (\<lambda>_ r w. (r, w)), malloc_ok = (\<lambda>_. True), uninit = (\<lambda>_ _. 0xCC),
     stack_ptr = 0x200000, dpmi_psp = 0x10000, local_slot = 0x180000, local_slot2 = 0x180100,
     addr_psp_sel = 0x150000, addr_clnt_entry = 0x150010, addr_stubinfo = 0x150100\<rparr>"

text \<open>A host with pages of 4096 bytes.\<close>

definition page_size_env :: "unit env" where
  "page_size_env = quiet_env\<lparr>int_call := (\<lambda>_ w. w\<lparr>ebx := 0, ecx := 0x1000\<rparr>)\<rparr>"

theorem dpmi_wrappers_conform_witness:
  "meets page_size_env [0x500] quiet_world
     (Service ((dpmi_doc 0x604 [])\<lparr>doc_out := [(If_ok, 0, 0, OPair EBX ECX)],
        doc_open := [(If_err, 0, 0, 4)]\<rparr>)) dpmi_get_page_size"
  by (rule dpmi_wrappers_conform [THEN conjunct1])
    (simp_all add: dpmi_contracts_def dpmi_get_page_size_def)

text \<open>
  C3. Apart from \<open>dpmi_allocate_dos_memory\<close>, every one of the 38 wrappers changes memory only inside
  the objects its pointer arguments are declared to point to: any other byte is as the host left it
  when it answered the call, and as it was where the wrapper makes no call (\<open>lsl\<close> and \<open>lar\<close>).
\<close>

definition host_answer :: "'h env \<Rightarrow> cfun \<Rightarrow> u32 list \<Rightarrow> 'h world \<Rightarrow> 'h world" where
  "host_answer E f A w = (case map_of (map (\<lambda>(d, f). (f, d)) dpmi_table) f of
     Some d \<Rightarrow> reply E d A w | None \<Rightarrow> w)"

lemma outs_within_table:
  "list_all (\<lambda>(d, f). f = dpmi_allocate_dos_memory \<or>
     outs_within (objects_of f) d \<and> list_all (\<lambda>(j, n). n \<le> 8) (objects_of f)) dpmi_table"
  by code_simp

lemma table_footprint:
  assumes "(d, f) \<in> set dpmi_table" "length A = nargs f" "f \<noteq> dpmi_allocate_dos_memory"
    and "\<And>j n. (j, n) \<in> set (objects_of f) \<Longrightarrow> \<not> in_region x (A ! j) n"
  shows "own (snd (call_c E f A w)) x = own (reply E d A w) x"
proof -
  have "conforms E A w d f"
    using dpmi_table_conforms [of E w] assms(1,2) by (auto simp: list_all_iff)
  then have "own (snd (call_c E f A w)) = spec_outputs d A (reply E d A w)"
    by (simp add: conforms_def same_outcome_def spec_call_def Let_def)
  moreover have within: "outs_within (objects_of f) d"
    and small: "\<And>j n. (j, n) \<in> set (objects_of f) \<Longrightarrow> n \<le> 8"
    using outs_within_table assms(1,3) by (auto simp: list_all_iff)
  have "spec_outputs d A (reply E d A w) x = own (reply E d A w) x"
    by (rule spec_outputs_footprint [OF within]) (use small assms(4) in force)
  ultimately show ?thesis by simp
qed

lemma own_loads: "own (snd (loads q w)) = own w"
  by (simp add: loads_def split: option.splits)

theorem dpmi_wrappers_footprint:
  assumes "(c, f) \<in> set dpmi_contracts" "length A = nargs f" "f \<noteq> dpmi_allocate_dos_memory"
    and "\<And>j n. (j, n) \<in> set (objects_of f) \<Longrightarrow> \<not> in_region x (A ! j) n"
  shows "own (snd (call_c E f A w)) x = own (host_answer E f A w) x"
proof (cases "map_of (map (\<lambda>(d, f). (f, d)) dpmi_table) f")
  case None
  then have "\<nexists>d. (d, f) \<in> set dpmi_table"
    by (force simp: map_of_eq_None_iff)
  with assms(1) have "f = dpmi_get_segment_limit \<or> f = dpmi_get_descriptor_access_rights"
    by (cases rule: contract_cases) auto
  then show ?thesis
    using None lsl_meets [of A E w] lar_meets [of A E w] assms(2)
    by (auto simp: host_answer_def own_loads)
next
  case (Some d)
  then have "(d, f) \<in> set dpmi_table"
    by (auto dest: map_of_SomeD)
  from table_footprint [OF this assms(2,3,4)] Some show ?thesis
    by (simp add: host_answer_def)
qed

theorem dpmi_wrappers_footprint_witness:
  "own (snd (call_c page_size_env dpmi_get_page_size [0x500] quiet_world)) 0x504 = 0"
proof -
  let ?k = "(dpmi_doc 0x604 [])\<lparr>doc_out := [(If_ok, 0, 0, OPair EBX ECX)],
    doc_open := [(If_err, 0, 0, 4)]\<rparr>"
  let ?d = "(simple_service 0x604 [])\<lparr>sp_out := [(Always, 0, 0, OPair EBX ECX)]\<rparr>"
  have answer: "host_answer page_size_env dpmi_get_page_size [0x500] quiet_world =
      reply page_size_env ?d [0x500] quiet_world"
    by (simp add: host_answer_def, code_simp)
  have "own (snd (call_c page_size_env dpmi_get_page_size [0x500] quiet_world)) 0x504 =
      own (host_answer page_size_env dpmi_get_page_size [0x500] quiet_world) 0x504"
  proof (rule dpmi_wrappers_footprint)
    show "(Service ?k, dpmi_get_page_size) \<in> set dpmi_contracts"
      by (simp add: dpmi_contracts_def)
    show "length [0x500 :: u32] = nargs dpmi_get_page_size"
      by (simp add: dpmi_get_page_size_def)
    show "dpmi_get_page_size \<noteq> dpmi_allocate_dos_memory"
      by (simp add: dpmi_get_page_size_def dpmi_allocate_dos_memory_def)
    show "\<not> in_region 0x504 ([0x500] ! j) n" if "(j, n) \<in> set (objects_of dpmi_get_page_size)" for j n
    proof -
      have "objects_of dpmi_get_page_size = [(0, 4)]" by code_simp
      with that show ?thesis by (simp add: in_region_def)
    qed
  qed
  also have "\<dots> = 0"
    unfolding answer
    by (simp add: reply_def simple_service_def page_size_env_def quiet_env_def quiet_world_def)
  finally show ?thesis .
qed

text \<open>
  C4. \<open>dpmi_allocate_dos_memory\<close> overruns its result: the object behind
  \<open>_ret_selector_or_max\<close> is a \<open>uint16_t\<close>, but 32 bits are stored there, so that the two bytes
  after the object receive the upper half of \<open>edx\<close> (of \<open>ebx\<close> on failure).
\<close>

theorem dpmi_allocate_dos_memory_overrun:
  "let v = int_call E 0x31 (w\<lparr>eax := 0x100, ebx := n\<rparr>)
   in own (snd (call_c E dpmi_allocate_dos_memory [n, p] w)) =
        store32 (own v) p (if cf v then ebx v else edx v) \<and>
      load16 (own (snd (call_c E dpmi_allocate_dos_memory [n, p] w))) (p + 2) =
        hi16 (if cf v then ebx v else edx v)"
proof -
  have hi: "load16 (store32 m p x) (p + 2) = hi16 x" for m p x
    using load16_inside [of 2 "bytes32 x" m p] by (simp add: store32_def bytes32_halves)
  show ?thesis
    by (simp add: dpmi_allocate_dos_memory_def call_c_def exec_asm Let_def store_own32_def hi)
qed

end
