(* ===== verification/Host.thy ===== *)
theory Host
  imports Dpmi
begin

text \<open>
  What the stub relies on from the DPMI host, as documented for DPMI 0.9: descriptors with a base, a
  limit and access rights, the functions that read and change them, and linear memory blocks. The
  host is a parameter (\<open>int_call\<close> of the environment); a view \<open>D\<close> reads the descriptor table out of
  the host's private state, and \<open>lin\<close> is the linear memory the client can use: conventional memory and the
  blocks it was given. The laws are the hypotheses of the loading theorems. A small reference
  host satisfies them, which shows that they can hold together.
\<close>

section \<open>Descriptors\<close>

text \<open>
  A descriptor as the hardware has it: the base, the 20-bit limit field and the access rights in the layout
  of \<open>cx\<close> of function 0009h (bits 0 to 7 the access byte, bit 15 the granularity, bit 14 the default operand
  size). \<open>d_real\<close> marks the descriptors that function 0002h makes for real-mode segments.
\<close>

record desc =
  d_base :: u32
  d_field :: u32
  d_access :: u16
  d_real :: bool

type_synonym 'h view = "'h \<Rightarrow> u16 \<Rightarrow> desc option"

text \<open>The limit in bytes, which counts pages when the granularity bit is set.\<close>

definition d_limit :: "desc \<Rightarrow> u32" where
  "d_limit d = (if bit (d_access d) 15 then push_bit 12 (d_field d) OR 0xfff else d_field d)"

text \<open>
  A limit given in bytes makes a descriptor byte granular below one megabyte and page granular above,
  where only a whole number of pages can be expressed.
\<close>

definition with_limit :: "u32 \<Rightarrow> desc \<Rightarrow> desc" where
  "with_limit x d = (if x < 0x100000 then d\<lparr>d_field := x, d_access := d_access d AND 0x7fff\<rparr>
     else d\<lparr>d_field := drop_bit 12 x, d_access := d_access d OR 0x8000\<rparr>)"

lemma with_limit_fields [simp]:
  "d_base (with_limit x d) = d_base d" "d_real (with_limit x d) = d_real d"
  "d_access (with_limit x d) = (if x < 0x100000 then d_access d AND 0x7fff else d_access d OR 0x8000)"
  by (simp_all add: with_limit_def)

lemma limit_with_limit:
  assumes "x < 0x100000 \<or> x AND 0xfff = 0xfff"
  shows "d_limit (with_limit x d) = x"
proof (cases "x < 0x100000")
  case True
  then show ?thesis by (simp add: d_limit_def with_limit_def bit_simps)
next
  case False
  then have low: "x AND mask 12 = mask 12" using assms by (simp add: mask_eq_exp_minus_1)
  have "push_bit 12 (drop_bit 12 x) OR mask 12 = x"
  proof (rule bit_word_eqI)
    fix n assume "n < LENGTH(32)"
    have "bit (x AND mask 12) n = bit (mask 12 :: u32) n" by (simp only: low)
    then show "bit (push_bit 12 (drop_bit 12 x) OR mask 12) n = bit x n"
      using \<open>n < LENGTH(32)\<close> by (cases "n < 12") (auto simp: bit_simps)
  qed
  then show ?thesis using False by (simp add: d_limit_def with_limit_def bit_simps mask_eq_exp_minus_1)
qed

text \<open>Access rights of a present, writable, expand-up data segment.\<close>

definition writable :: "u16 \<Rightarrow> bool" where
  "writable a \<longleftrightarrow> a AND 0x9e = 0x92"

lemma writable_granular [simp]:
  "writable (a AND 0x7fff) = writable a" "writable (a OR 0x8000) = writable a"
proof -
  have "(a AND 0x7fff) AND 0x9e = a AND 0x9e" by (simp add: and.assoc)
  moreover have "(a OR 0x8000) AND 0x9e = a AND 0x9e" by (simp add: bit.conj_disj_distrib2)
  ultimately show "writable (a AND 0x7fff) = writable a" "writable (a OR 0x8000) = writable a"
    by (simp_all add: writable_def)
qed

text \<open>A service leaves memory and the segment registers alone and reports success.\<close>

definition served :: "'h world \<Rightarrow> 'h world \<Rightarrow> bool" where
  "served w v \<longleftrightarrow> own v = own w \<and> lin v = lin w \<and> seg_ds v = seg_ds w \<and> seg_es v = seg_es w \<and>
     seg_fs v = seg_fs w \<and> seg_gs v = seg_gs w \<and> \<not> cf v \<and> eax v \<noteq> - 1"

text \<open>Function 0006h: the base of the descriptor \<open>bx\<close> in \<open>cx:dx\<close>.\<close>

definition get_base_law :: "'h env \<Rightarrow> 'h view \<Rightarrow> bool" where
  "get_base_law E D \<longleftrightarrow> (\<forall>w d. eax w = 6 \<longrightarrow> D (host w) (lo16 (ebx w)) = Some d \<longrightarrow>
     (let v = int_call E 0x31 w in served w v \<and> host v = host w \<and>
        pair32 (lo16 (ecx v)) (lo16 (edx v)) = d_base d))"

text \<open>
  Functions 0007h, 0008h and 0009h change one descriptor from \<open>cx:dx\<close> or \<open>cx\<close>. Function 0009h takes a
  present code or data segment of the client's privilege level, which the stub's constants put at 3; bit 13
  has to be 0, and bits 8 to 11 are not access rights.
\<close>

definition set_desc_law :: "'h env \<Rightarrow> 'h view \<Rightarrow> bool" where
  "set_desc_law E D \<longleftrightarrow> (\<forall>w d. D (host w) (lo16 (ebx w)) = Some d \<longrightarrow>
     (let v = int_call E 0x31 w; x = pair32 (lo16 (ecx w)) (lo16 (edx w)) in
       (eax w = 7 \<longrightarrow> \<not> d_real d \<longrightarrow> served w v \<and>
          D (host v) = (D (host w))(lo16 (ebx w) \<mapsto> d\<lparr>d_base := x\<rparr>)) \<and>
       (eax w = 8 \<longrightarrow> \<not> d_real d \<longrightarrow> (x < 0x100000 \<or> x AND 0xfff = 0xfff) \<longrightarrow> served w v \<and>
          D (host v) = (D (host w))(lo16 (ebx w) \<mapsto> with_limit x d)) \<and>
       (eax w = 9 \<longrightarrow> \<not> d_real d \<longrightarrow> ecx w AND 0x2ff0 = 0xf0 \<longrightarrow> served w v \<and>
          D (host v) = (D (host w))(lo16 (ebx w) \<mapsto> d\<lparr>d_access := ucast (ecx w)\<rparr>))))"

text \<open>
  Functions 0000h (one descriptor) and 0002h (a descriptor for a real-mode segment) return a selector in
  \<open>ax\<close>, as long as fewer than \<open>N\<close> descriptors are in use: a selector that was free, or, for 0002h, possibly
  the one it gave for that segment before.
\<close>

definition new_desc_law :: "'h env \<Rightarrow> 'h view \<Rightarrow> nat \<Rightarrow> bool" where
  "new_desc_law E D N \<longleftrightarrow> (\<forall>w. card (dom (D (host w))) < N \<longrightarrow>
     (let v = int_call E 0x31 w; s = lo16 (eax v); free = (D (host w) s = None) in
     (eax w = 0 \<longrightarrow> ecx w = 1 \<longrightarrow> served w v \<and> free \<and>
        (\<exists>d. \<not> d_real d \<and> D (host v) = (D (host w))(s \<mapsto> d))) \<and>
     (eax w = 2 \<longrightarrow> served w v \<and>
        (\<exists>d. d_base d = push_bit 4 (ucast (lo16 (ebx w))) \<and> writable (d_access d) \<and> d_real d \<and>
             (free \<and> D (host v) = (D (host w))(s \<mapsto> d) \<or>
              D (host w) s = Some d \<and> D (host v) = D (host w))))))"

text \<open>
  Two things the stub asks for are not granted by the DPMI document, which wants the descriptors of function
  0002h left as they are and allows function 000Ah for code segments only: \<open>dpmi_set_segment_limit\<close> on a
  descriptor of 0002h, and an alias of a data segment. The hosts the stub was written for grant both, as
  stated by the next two laws: 0008h on a real-mode descriptor, and 000Ah, which makes a writable data
  descriptor with the same base and limit, for every descriptor.
\<close>

definition real_limit_law :: "'h env \<Rightarrow> 'h view \<Rightarrow> bool" where
  "real_limit_law E D \<longleftrightarrow> (\<forall>w d. eax w = 8 \<longrightarrow> D (host w) (lo16 (ebx w)) = Some d \<longrightarrow> d_real d \<longrightarrow>
     (let v = int_call E 0x31 w; x = pair32 (lo16 (ecx w)) (lo16 (edx w)) in x < 0x100000 \<longrightarrow> served w v \<and>
        D (host v) = (D (host w))(lo16 (ebx w) \<mapsto> with_limit x d)))"

definition alias_law :: "'h env \<Rightarrow> 'h view \<Rightarrow> nat \<Rightarrow> bool" where
  "alias_law E D N \<longleftrightarrow> (\<forall>w d. eax w = 0xa \<longrightarrow> card (dom (D (host w))) < N \<longrightarrow>
     D (host w) (lo16 (ebx w)) = Some d \<longrightarrow>
     (let v = int_call E 0x31 w; s = lo16 (eax v) in served w v \<and> D (host w) s = None \<and>
        (\<exists>a. writable a \<and> bit a 15 = bit (d_access d) 15 \<and>
           D (host v) = (D (host w))(s \<mapsto> d\<lparr>d_access := a, d_real := False\<rparr>))))"

text \<open>
  Function 0501h: a block of \<open>bx:cx\<close> bytes. When it succeeds, the block lies in the address space
  without wrapping; descriptors and all other memory are unchanged.
\<close>

definition alloc_law :: "'h env \<Rightarrow> 'h view \<Rightarrow> bool" where
  "alloc_law E D \<longleftrightarrow> (\<forall>w. eax w = 0x501 \<longrightarrow>
     (let v = int_call E 0x31 w; n = pair32 (lo16 (ebx w)) (lo16 (ecx w));
          a = pair32 (lo16 (ebx v)) (lo16 (ecx v)) in
       own v = own w \<and> D (host v) = D (host w) \<and> seg_ds v = seg_ds w \<and> seg_es v = seg_es w \<and>
       seg_fs v = seg_fs w \<and> seg_gs v = seg_gs w \<and>
       (\<not> cf v \<longrightarrow> eax v \<noteq> - 1 \<and> unat a + unat n \<le> 2 ^ 32 \<and>
          (\<forall>x. \<not> in_region x a (unat n) \<longrightarrow> lin v x = lin w x))))"

definition dpmi_host :: "'h env \<Rightarrow> 'h view \<Rightarrow> nat \<Rightarrow> bool" where
  "dpmi_host E D N \<longleftrightarrow> get_base_law E D \<and> set_desc_law E D \<and> new_desc_law E D N \<and> alloc_law E D \<and>
     real_limit_law E D \<and> alias_law E D N"

section \<open>Calls through the wrappers\<close>

text \<open>What a wrapper call changes besides scratch registers: nothing but what is listed.\<close>

definition same_segs :: "'h world \<Rightarrow> 'h world \<Rightarrow> bool" where
  "same_segs w v \<longleftrightarrow> seg_ds v = seg_ds w \<and> seg_es v = seg_es w \<and> seg_fs v = seg_fs w \<and>
     seg_gs v = seg_gs w"

lemma same_segs_refl [simp]: "same_segs w w"
  by (simp add: same_segs_def)

lemma same_segs_trans [trans]: "same_segs u v \<Longrightarrow> same_segs v w \<Longrightarrow> same_segs u w"
  by (simp add: same_segs_def)

lemmas wrapper_defs = call_c_def exec_asm Let_def store_own32_def store_own16_def

lemma call_get_base:
  assumes "get_base_law E D" "D (host w) s = Some d"
    and "call_c E dpmi_get_segment_base_address [ucast s, p] w = (rc, v)"
  shows "rc \<noteq> - 1 \<and> load32 (own v) p = d_base d \<and> own v = store32 (own w) p (d_base d) \<and>
    lin v = lin w \<and> host v = host w \<and> same_segs w v"
proof -
  let ?v = "int_call E 0x31 (w\<lparr>eax := 6, ebx := ucast s\<rparr>)"
  have v: "served (w\<lparr>eax := 6, ebx := ucast s\<rparr>) ?v" "host ?v = host w"
    "pair32 (lo16 (ecx ?v)) (lo16 (edx ?v)) = d_base d"
    using assms(1,2) by (auto simp: get_base_law_def Let_def dest!: spec [of _ "w\<lparr>eax := 6, ebx := ucast s\<rparr>"])
  show ?thesis
    using assms(3) v store_pair_lo_hi [of "own ?v" p "lo16 (edx ?v)" "lo16 (ecx ?v)"]
    by (auto simp: wrapper_defs dpmi_get_segment_base_address_def served_def same_segs_def)
qed

lemma call_set_base:
  assumes "dpmi_host E D N" "D (host w) s = Some d" "\<not> d_real d"
    and "call_c E dpmi_set_segment_base_address [ucast s, x] w = (rc, v)"
  shows "own v = own w \<and> lin v = lin w \<and> same_segs w v \<and>
    D (host v) = (D (host w))(s \<mapsto> d\<lparr>d_base := x\<rparr>)"
  using assms by (auto simp: wrapper_defs dpmi_set_segment_base_address_def served_def same_segs_def
      dpmi_host_def set_desc_law_def)

lemma call_set_limit:
  assumes "dpmi_host E D N" "D (host w) s = Some d" "x < 0x100000 \<or> \<not> d_real d \<and> x AND 0xfff = 0xfff"
    and "call_c E dpmi_set_segment_limit [ucast s, x] w = (rc, v)"
  shows "own v = own w \<and> lin v = lin w \<and> same_segs w v \<and>
    D (host v) = (D (host w))(s \<mapsto> with_limit x d)"
  using assms by (cases "d_real d") (auto simp: wrapper_defs dpmi_set_segment_limit_def served_def same_segs_def
      dpmi_host_def set_desc_law_def real_limit_law_def)

lemma call_set_access:
  assumes "dpmi_host E D N" "D (host w) s = Some d" "\<not> d_real d" "x AND 0x2ff0 = 0xf0"
    and "call_c E dpmi_set_descriptor_access_rights [ucast s, x] w = (rc, v)"
  shows "own v = own w \<and> lin v = lin w \<and> same_segs w v \<and>
    D (host v) = (D (host w))(s \<mapsto> d\<lparr>d_access := ucast x\<rparr>)"
  using assms by (auto simp: wrapper_defs dpmi_set_descriptor_access_rights_def served_def
      same_segs_def dpmi_host_def set_desc_law_def)

lemma call_allocate_ldt:
  assumes "dpmi_host E D N" "card (dom (D (host w))) < N"
    and "call_c E dpmi_allocate_ldt_descriptors [1] w = (rc, v)"
  shows "own v = own w \<and> lin v = lin w \<and> same_segs w v \<and> D (host w) (lo16 rc) = None \<and>
    (\<exists>d. \<not> d_real d \<and> D (host v) = (D (host w))(lo16 rc \<mapsto> d))"
proof -
  let ?u = "w\<lparr>eax := 0, ecx := 1\<rparr>"
  let ?v = "int_call E 0x31 ?u"
  have "served ?u ?v \<and> D (host w) (lo16 (eax ?v)) = None \<and>
      (\<exists>d. \<not> d_real d \<and> D (host ?v) = (D (host w))(lo16 (eax ?v) \<mapsto> d))"
    using assms(1,2) by (auto simp: dpmi_host_def new_desc_law_def Let_def dest!: spec [of _ ?u])
  then show ?thesis
    using assms(3) by (auto simp: wrapper_defs dpmi_allocate_ldt_descriptors_def served_def
        same_segs_def)
qed

lemma call_segment_to_descriptor:
  assumes "dpmi_host E D N" "card (dom (D (host w))) < N"
    and "call_c E dpmi_segment_to_descriptor [ucast seg] w = (rc, v)"
  shows "own v = own w \<and> lin v = lin w \<and> same_segs w v \<and>
    (\<exists>d. d_base d = push_bit 4 (ucast (seg :: u16)) \<and> writable (d_access d) \<and> d_real d \<and> D (host v) (lo16 rc) = Some d \<and>
      (D (host w) (lo16 rc) = None \<and> D (host v) = (D (host w))(lo16 rc \<mapsto> d) \<or>
       D (host v) = D (host w)))"
proof -
  let ?u = "w\<lparr>eax := 2, ebx := ucast seg\<rparr>"
  let ?v = "int_call E 0x31 ?u"
  have "served ?u ?v \<and> (\<exists>d. d_base d = push_bit 4 (ucast seg) \<and> writable (d_access d) \<and> d_real d \<and>
      (D (host w) (lo16 (eax ?v)) = None \<and> D (host ?v) = (D (host w))(lo16 (eax ?v) \<mapsto> d) \<or>
       D (host w) (lo16 (eax ?v)) = Some d \<and> D (host ?v) = D (host w)))"
    using assms(1,2) by (auto simp: dpmi_host_def new_desc_law_def Let_def dest!: spec [of _ ?u])
  then show ?thesis
    using assms(3) by (auto simp: wrapper_defs dpmi_segment_to_descriptor_def served_def
        same_segs_def)
qed

lemma call_create_alias:
  assumes "dpmi_host E D N" "card (dom (D (host w))) < N" "D (host w) s = Some d"
    and "call_c E dpmi_create_alias_descriptor [ucast s] w = (rc, v)"
  shows "own v = own w \<and> lin v = lin w \<and> same_segs w v \<and> D (host w) (lo16 rc) = None \<and>
    (\<exists>a. writable a \<and> bit a 15 = bit (d_access d) 15 \<and>
      D (host v) = (D (host w))(lo16 rc \<mapsto> d\<lparr>d_access := a, d_real := False\<rparr>))"
proof -
  let ?u = "w\<lparr>eax := 0xa, ebx := ucast s\<rparr>"
  let ?v = "int_call E 0x31 ?u"
  have "served ?u ?v \<and> D (host w) (lo16 (eax ?v)) = None \<and>
      (\<exists>a. writable a \<and> bit a 15 = bit (d_access d) 15 \<and>
        D (host ?v) = (D (host w))(lo16 (eax ?v) \<mapsto> d\<lparr>d_access := a, d_real := False\<rparr>))"
    using assms(1-3) by (auto simp: dpmi_host_def alias_law_def Let_def dest!: spec [of _ ?u])
  then show ?thesis
    using assms(4) by (auto simp: wrapper_defs dpmi_create_alias_descriptor_def served_def
        same_segs_def)
qed

text \<open>The answer of the host to an allocation, as the wrapper stores it.\<close>

lemma call_allocate_memory_stores:
  assumes "call_c E dpmi_allocate_memory [n, p, q] w = (rc, v)" "rc \<noteq> - 1"
    and "u = int_call E 0x31 (w\<lparr>eax := 0x501, ebx := ucast (hi16 n), ecx := ucast (lo16 n)\<rparr>)"
  shows "\<not> cf u \<and> own v = store32 (store32 (own u) p (pair32 (lo16 (ebx u)) (lo16 (ecx u)))) q
      (pair32 (lo16 (esi u)) (lo16 (edi u))) \<and> lin v = lin u \<and> host v = host u \<and> same_segs u v"
proof -
  have "\<not> cf u"
    using assms by (auto simp: wrapper_defs dpmi_allocate_memory_def split: if_splits)
  then show ?thesis
    using assms
    by (auto simp: wrapper_defs dpmi_allocate_memory_def store_pair_hi_lo same_segs_def)
qed

lemma call_allocate_memory:
  assumes "dpmi_host E D N" "apart p 4 q 4"
    and "call_c E dpmi_allocate_memory [n, p, q] w = (rc, v)" "rc \<noteq> - 1"
  shows "unat (load32 (own v) p) + unat n \<le> 2 ^ 32 \<and>
    (\<forall>x. \<not> in_region x (load32 (own v) p) (unat n) \<longrightarrow> lin v x = lin w x) \<and>
    (\<forall>x. \<not> in_region x p 4 \<longrightarrow> \<not> in_region x q 4 \<longrightarrow> own v x = own w x) \<and>
    D (host v) = D (host w) \<and> same_segs w v"
proof -
  let ?u = "w\<lparr>eax := 0x501, ebx := ucast (hi16 n), ecx := ucast (lo16 n)\<rparr>"
  let ?v = "int_call E 0x31 ?u"
  let ?a = "pair32 (lo16 (ebx ?v)) (lo16 (ecx ?v))"
  have law: "own ?v = own w \<and> D (host ?v) = D (host w) \<and> same_segs w ?v \<and>
      (\<not> cf ?v \<longrightarrow> unat ?a + unat n \<le> 2 ^ 32 \<and> (\<forall>x. \<not> in_region x ?a (unat n) \<longrightarrow> lin ?v x = lin w x))"
    using assms(1)
    by (auto simp: dpmi_host_def alloc_law_def Let_def same_segs_def dest!: spec [of _ ?u])
  let ?h = "pair32 (lo16 (esi ?v)) (lo16 (edi ?v))"
  have cf: "\<not> cf ?v" and v: "own v = store32 (store32 (own ?v) p ?a) q ?h" "lin v = lin ?v"
      "host v = host ?v" "same_segs ?v v"
    using call_allocate_memory_stores [OF assms(3,4) refl] by blast+
  have "load32 (own v) p = ?a"
    using apart_sym [OF assms(2)] by (simp add: v load32_store_apart)
  then show ?thesis
    using law v cf by (auto simp: store32_def store_bytes_outside same_segs_def)
qed

section \<open>A reference host\<close>

text \<open>
  A host that keeps its descriptors in an association list and gives every request of up to 256 MB
  the block at 4 MB. It wants 16 paragraphs of low memory for itself and makes a new descriptor for the PSP
  when it is entered; DOS rewrites the control block in front of a block it resizes, and refuses to resize one
  beyond the first megabyte. It is used by the witnesses of the theorems that assume a host.
\<close>

type_synonym ref_host = "(u16 \<times> desc) list"

text \<open>The first free selector at or above \<open>s\<close>, in \<open>k\<close> tries.\<close>

fun free_sel :: "nat \<Rightarrow> u16 \<Rightarrow> ref_host \<Rightarrow> u16" where
  "free_sel k s t = (if k = 0 then s else if map_of t s = None then s else free_sel (k - 1) (s + 8) t)"

declare free_sel.simps [simp del]

definition ref_new :: "desc \<Rightarrow> ref_host world \<Rightarrow> ref_host world" where
  "ref_new d w = (let s = free_sel 65536 0x87 (host w)
     in w\<lparr>eax := ucast s, cf := False, host := (s, d) # host w\<rparr>)"

definition ref_int :: "nat \<Rightarrow> ref_host world \<Rightarrow> ref_host world" where
  "ref_int n w = (let s = lo16 (ebx w); x = pair32 (lo16 (ecx w)) (lo16 (edx w)) in
     if n = 0x2f \<and> eax w = 0x1687 then
       w\<lparr>eax := 0x2000, ebx := 0x403, esi := 0x10, edi := 0x1234, seg_es := 0xf000, cf := False\<rparr>
     else if n \<noteq> 0x31 then w\<lparr>cf := True\<rparr>
     else if eax w = 0 then ref_new \<lparr>d_base = 0, d_field = 0, d_access = 0xf2, d_real = False\<rparr> w
     else if eax w = 2 then
       ref_new \<lparr>d_base = push_bit 4 (ucast s), d_field = 0xffff, d_access = 0xf2, d_real = True\<rparr> w
     else if eax w = 0x501 then
       (if unat (pair32 (lo16 (ebx w)) (lo16 (ecx w))) \<le> 0x10000000
        then w\<lparr>ebx := 0x40, ecx := 0, esi := 0, edi := 1, cf := False\<rparr> else w\<lparr>cf := True\<rparr>)
     else case map_of (host w) s of
       None \<Rightarrow> w\<lparr>cf := True\<rparr>
     | Some d \<Rightarrow>
         if eax w = 6 then w\<lparr>ecx := ucast (hi16 (d_base d)), edx := ucast (lo16 (d_base d)), cf := False\<rparr>
         else if eax w = 7 then w\<lparr>cf := False, host := (s, d\<lparr>d_base := x\<rparr>) # host w\<rparr>
         else if eax w = 8 then w\<lparr>cf := False, host := (s, with_limit x d) # host w\<rparr>
         else if eax w = 9 then
           w\<lparr>cf := False, host := (s, d\<lparr>d_access := ucast (ecx w)\<rparr>) # host w\<rparr>
         else if eax w = 0xa then ref_new (d\<lparr>d_access := (d_access d AND 0x8000) OR 0xf2, d_real := False\<rparr>) w
         else w\<lparr>cf := True\<rparr>)"

definition ref_switch :: "ref_host world \<Rightarrow> ref_host world" where
  "ref_switch w = (let s = free_sel 65536 0x87 (host w) in
     if map_of (host w) s = None then w\<lparr>seg_es := s, cf := False,
       host := (s, \<lparr>d_base = 0x10000, d_field = 0xff, d_access = 0xf2, d_real = False\<rparr>) # host w\<rparr>
     else w\<lparr>seg_es := 0, cf := False\<rparr>)"

definition ref_env :: "ref_host env" where
  "ref_env = \<lparr>int_call = ref_int, far_call = (\<lambda>_ _. ref_switch),
     lsl_of = (\<lambda>_ _. None), lar_of = (\<lambda>_ _. None),
     dpmi_int = (\<lambda>_ r w. (r\<lparr>r_flags :=
       (if r_eax r = 0x4a00 \<and> 0x10000 < unat (r_es r) + unat (lo16 (r_ebx r)) then 1 else 0)\<rparr>,
       w\<lparr>lin := (lin w)(push_bit 4 (ucast (r_es r - 1)) + 3 := ucast (r_ebx r))\<rparr>)),
     malloc_ok = (\<lambda>_. True), uninit = (\<lambda>_ _. 0xCC),
     stack_ptr = 0x200000, dpmi_psp = 0x10000, local_slot = 0x180000, local_slot2 = 0x180100,
     addr_psp_sel = 0x150000, addr_clnt_entry = 0x150010, addr_stubinfo = 0x150100\<rparr>"

definition ref_view :: "ref_host view" where
  "ref_view t = map_of t"

definition ref_world :: "ref_host \<Rightarrow> ref_host world" where
  "ref_world t = \<lparr>eax = 0, ebx = 0, ecx = 0, edx = 0, esi = 0, edi = 0, seg_ds = 0x17, seg_es = 0x17,
     seg_fs = 0, seg_gs = 0, cf = False, zf = False, other_flags = 2, own = (\<lambda>_. 0),
     lin = (\<lambda>_. 0), host = t\<rparr>"

lemma ucast_ucast16 [simp]: "ucast (ucast (x :: u16) :: u32) = x"
  using lo16_ucast [of x] by (simp add: lo16_def)

lemma free_sel_tries:
  "free_sel k s t \<in> dom (map_of t) \<Longrightarrow> i < k \<Longrightarrow> s + of_nat (8 * i) \<in> dom (map_of t)"
proof (induction k arbitrary: s i)
  case (Suc k)
  show ?case
  proof (cases i)
    case 0
    then show ?thesis
      using Suc.prems(1) by (cases "map_of t s") (auto simp: free_sel.simps [of "Suc k"] domIff)
  next
    case (Suc j)
    have used: "map_of t s \<noteq> None"
      using Suc.prems(1) by (auto simp: free_sel.simps [of "Suc k"] domIff split: if_splits)
    have "free_sel (Suc k) s t = free_sel k (s + 8) t"
      using used by (subst free_sel.simps) auto
    then have "free_sel k (s + 8) t \<in> dom (map_of t)"
      using Suc.prems(1) by simp
    then have "(s + 8) + of_nat (8 * j) \<in> dom (map_of t)"
      using Suc.IH Suc.prems(2) Suc by simp
    then show ?thesis using Suc by (simp add: algebra_simps)
  qed
qed simp

lemma free_sel_free:
  assumes "card (dom (map_of t)) < 8192"
  shows "map_of t (free_sel 65536 s t) = None"
proof (rule ccontr)
  assume "\<not> ?thesis"
  then have "free_sel 65536 s t \<in> dom (map_of t)" by auto
  note tries = free_sel_tries [OF this]
  have sub: "(\<lambda>i. s + of_nat (8 * i)) ` {..<8192} \<subseteq> dom (map_of t)"
  proof
    fix x assume "x \<in> (\<lambda>i. s + of_nat (8 * i)) ` {..<8192 :: nat}"
    then obtain i where "i < 8192" "x = s + of_nat (8 * i)" by blast
    then show "x \<in> dom (map_of t)" using tries [of i] by simp
  qed
  have "inj_on (\<lambda>i. s + of_nat (8 * i) :: u16) {..<8192}"
  proof (rule inj_onI)
    fix i j assume ij: "i \<in> {..<8192 :: nat}" "j \<in> {..<8192 :: nat}"
      and "s + of_nat (8 * i) = s + of_nat (8 * j)"
    then have "unat (of_nat (8 * i) :: u16) = unat (of_nat (8 * j) :: u16)" by simp
    with ij show "i = j" by (simp add: unat_of_nat del: of_nat_mult)
  qed
  then have "card ((\<lambda>i. s + of_nat (8 * i) :: u16) ` {..<8192}) = 8192"
    by (simp add: card_image)
  moreover have "card ((\<lambda>i. s + of_nat (8 * i) :: u16) ` {..<8192}) \<le> card (dom (map_of t))"
    using sub finite_dom_map_of by (intro card_mono)
  ultimately show False using assms by simp
qed

lemma ref_get_base_law: "get_base_law ref_env ref_view"
  by (auto simp: get_base_law_def ref_env_def ref_int_def ref_view_def Let_def served_def)

lemma ref_set_desc_law: "set_desc_law ref_env ref_view"
  by (auto simp: set_desc_law_def ref_env_def ref_int_def ref_view_def Let_def served_def)

lemma ucast16_not_minus1 [simp]: "(ucast (s :: u16) :: u32) \<noteq> - 1"
proof
  assume "(ucast s :: u32) = - 1"
  then have "bit (ucast s :: u32) 16 = bit (- 1 :: u32) 16" by simp
  then show False by (auto simp: bit_simps dest: bit_imp_le_length)
qed

lemma ex_upd1: "\<not> d_real d \<Longrightarrow> \<exists>x. \<not> d_real x \<and> m(s \<mapsto> d) = m(s \<mapsto> x)"
  by blast

lemma ex_upd2:
  "d_base d = b \<Longrightarrow> writable (d_access d) \<Longrightarrow> d_real d \<Longrightarrow>
    \<exists>x. d_base x = b \<and> writable (d_access x) \<and> d_real x \<and> m(s \<mapsto> d) = m(s \<mapsto> x)"
  by blast

lemma ref_new_desc_law: "new_desc_law ref_env ref_view 8192"
  by (auto simp: new_desc_law_def ref_env_def ref_int_def ref_new_def ref_view_def Let_def served_def
      free_sel_free intro!: ex_upd1 ex_upd2) (simp_all add: writable_def)

lemma ref_real_limit_law: "real_limit_law ref_env ref_view"
  by (auto simp: real_limit_law_def ref_env_def ref_int_def ref_view_def Let_def served_def)

lemma ref_alias_access: "writable (a AND 0x8000 OR 0xf2)" "bit (a AND 0x8000 OR 0xf2) 15 = bit (a :: u16) 15"
  by (simp_all add: writable_def bit.conj_disj_distrib2 and.assoc bit_simps)

lemma ref_alias_law: "alias_law ref_env ref_view 8192"
  unfolding alias_law_def Let_def
proof (intro allI impI)
  fix w :: "ref_host world" and d
  assume w: "eax w = 0xa" "card (dom (ref_view (host w))) < 8192" "ref_view (host w) (lo16 (ebx w)) = Some d"
  then have v: "int_call ref_env 0x31 w =
      ref_new (d\<lparr>d_access := (d_access d AND 0x8000) OR 0xf2, d_real := False\<rparr>) w"
    by (simp add: ref_env_def ref_int_def ref_view_def Let_def)
  show "served w (int_call ref_env 0x31 w) \<and> ref_view (host w) (lo16 (eax (int_call ref_env 0x31 w))) = None \<and>
      (\<exists>a. writable a \<and> bit a 15 = bit (d_access d) 15 \<and> ref_view (host (int_call ref_env 0x31 w)) =
        (ref_view (host w))(lo16 (eax (int_call ref_env 0x31 w)) \<mapsto> d\<lparr>d_access := a, d_real := False\<rparr>))"
    unfolding v using w(2) ref_alias_access [of "d_access d"]
    by (auto simp: ref_new_def ref_view_def Let_def served_def free_sel_free)
qed

lemma ref_alloc_law: "alloc_law ref_env ref_view"
proof -
  have "pair32 (lo16 64) (lo16 0) = 0x400000" by (simp add: pair32_def lo16_def)
  then show ?thesis
    by (auto simp: alloc_law_def ref_env_def ref_int_def ref_view_def Let_def)
qed

lemma ref_host_laws: "dpmi_host ref_env ref_view 8192"
  by (simp add: dpmi_host_def ref_get_base_law ref_set_desc_law ref_new_desc_law ref_alloc_law
      ref_real_limit_law ref_alias_law)

end
