(* ===== verification/Clib.thy ===== *)
theory Clib
  imports Prelude
begin

text \<open>
  The part of the C library the loaders use on the program file: \<open>open\<close>, \<open>read\<close> and \<open>lseek\<close> on a
  regular file, with 32-bit signed offsets.
\<close>

text \<open>
  An open file: its contents, the position, the offsets that the medium cannot deliver, and the
  descriptor number.
\<close>

record cfile =
  f_data :: bytes
  f_pos :: nat
  f_bad :: "nat list"
  f_fd :: u32

text \<open>The bytes a read of \<open>n\<close> bytes would deliver.\<close>

definition pending :: "nat \<Rightarrow> cfile \<Rightarrow> bytes" where
  "pending n f = take n (drop (f_pos f) (f_data f))"

definition readable :: "nat \<Rightarrow> cfile \<Rightarrow> bool" where
  "readable n f \<longleftrightarrow>
     list_all (\<lambda>b. b < f_pos f \<or> f_pos f + length (pending n f) \<le> b) (f_bad f)"

text \<open>
  \<open>read\<close>: the bytes up to the end of the file, and the position moves behind them; \<open>None\<close> is the
  return value \<open>-1\<close> of a read error, which leaves the position.
\<close>

definition read_file :: "nat \<Rightarrow> cfile \<Rightarrow> bytes option \<times> cfile" where
  "read_file n f =
     (if readable n f
      then (Some (pending n f), f\<lparr>f_pos := f_pos f + length (pending n f)\<rparr>)
      else (None, f))"

text \<open>The idiom \<open>rc = read(fd, buf, n); if (rc != n)\<close>: the bytes, if all of them came.\<close>

definition read_exact :: "nat \<Rightarrow> cfile \<Rightarrow> bytes option \<times> cfile" where
  "read_exact n f = (case read_file n f of
      (Some bs, f1) \<Rightarrow> (if length bs = n then Some bs else None, f1)
    | (None, f1) \<Rightarrow> (None, f1))"

text \<open>
  \<open>lseek\<close> fails, and leaves the position, when the new one is negative or does not fit the signed
  32-bit offset type.
\<close>

datatype whence = Seek_set | Seek_cur

definition lseek :: "cfile \<Rightarrow> u32 \<Rightarrow> whence \<Rightarrow> cfile" where
  "lseek f off wh =
     (let p = (case wh of Seek_set \<Rightarrow> sint off | Seek_cur \<Rightarrow> int (f_pos f) + sint off)
      in if p < 0 \<or> 2 ^ 31 \<le> p then f else f\<lparr>f_pos := nat p\<rparr>)"

lemma length_pending: "length (pending n f) = min n (length (f_data f) - f_pos f)"
  by (simp add: pending_def)

lemma length_pending_le: "length (pending n f) \<le> n"
  by (simp add: pending_def)

lemma read_file_data [simp]:
  "f_data (snd (read_file n f)) = f_data f" "f_bad (snd (read_file n f)) = f_bad f"
  "f_fd (snd (read_file n f)) = f_fd f"
  by (simp_all add: read_file_def)

lemma lseek_data [simp]:
  "f_data (lseek f off wh) = f_data f" "f_bad (lseek f off wh) = f_bad f"
  "f_fd (lseek f off wh) = f_fd f"
  by (simp_all add: lseek_def Let_def)

lemma sint_small:
  assumes "unat (x :: u32) < 2 ^ 31"
  shows "sint x = int (unat x)"
proof -
  have "int (unat x) < int (2 ^ 31)"
    using assms by (simp only: of_nat_less_iff)
  then have less: "uint x < 2 ^ 31" by simp
  then have "uint x div 2 ^ 31 = 0"
    by (intro div_pos_pos_trivial) auto
  then have "\<not> bit (uint x) 31"
    by (simp only: bit_iff_odd) simp
  then have "sint x = take_bit 31 (uint x)"
    by (simp add: sint_uint signed_take_bit_eq_if_positive)
  also have "\<dots> = uint x"
    using less by (intro take_bit_int_eq_self) auto
  finally show ?thesis by simp
qed

lemma lseek_at:
  "(case wh of Seek_set \<Rightarrow> sint off | Seek_cur \<Rightarrow> int (f_pos f) + sint off) = int n \<Longrightarrow> n < 2 ^ 31 \<Longrightarrow>
    lseek f off wh = f\<lparr>f_pos := n\<rparr>"
  by (simp only: lseek_def Let_def) simp

lemma lseek_set: "unat off < 2 ^ 31 \<Longrightarrow> lseek f off Seek_set = f\<lparr>f_pos := unat off\<rparr>"
  by (rule lseek_at) (simp_all only: whence.case sint_small)

lemma lseek_cur:
  assumes "f_pos f + unat off < 2 ^ 31"
  shows "lseek f off Seek_cur = f\<lparr>f_pos := f_pos f + unat off\<rparr>"
  by (rule lseek_at) (use assms in \<open>simp_all only: whence.case sint_small of_nat_add\<close>)

lemma pending_append:
  "pending (m + n) f = pending m f @ pending n (f\<lparr>f_pos := f_pos f + m\<rparr>)"
  by (simp add: pending_def take_add add.commute)

text \<open>A longer read fails where a shorter one does.\<close>

lemma not_readable_mono: "\<not> readable m f \<Longrightarrow> m \<le> n \<Longrightarrow> \<not> readable n f"
  by (fastforce simp: readable_def list_all_iff length_pending)

lemma readable_part:
  assumes "readable (m + n) f" "m \<le> length (f_data f) - f_pos f"
  shows "readable m f" "readable n (f\<lparr>f_pos := f_pos f + m\<rparr>)"
  using assms by (fastforce simp: readable_def list_all_iff length_pending)+

lemma readable_join:
  assumes "readable m f" "length (pending m f) = m" "readable k (f\<lparr>f_pos := f_pos f + m\<rparr>)"
  shows "readable (m + k) f"
  unfolding readable_def list_all_iff
proof
  fix b assume b: "b \<in> set (f_bad f)"
  have "b < f_pos f \<or> f_pos f + m \<le> b"
    using assms(1,2) b by (simp add: readable_def list_all_iff)
  moreover have "b < f_pos f + m \<or> f_pos f + m + min k (length (f_data f) - (f_pos f + m)) \<le> b"
    using assms(3) b by (auto simp: readable_def list_all_iff length_pending)
  ultimately show "b < f_pos f \<or> f_pos f + length (pending (m + k) f) \<le> b"
    unfolding length_pending by linarith
qed

lemma read_exact_ok:
  "readable n f \<Longrightarrow> f_pos f + n \<le> length (f_data f) \<Longrightarrow>
    read_exact n f = (Some (pending n f), f\<lparr>f_pos := f_pos f + n\<rparr>)"
  by (simp add: read_exact_def read_file_def length_pending)

lemma read_exact_short:
  "length (f_data f) < f_pos f + n \<Longrightarrow> 0 < n \<Longrightarrow> fst (read_exact n f) = None"
  by (auto simp: read_exact_def read_file_def length_pending)

lemma read_exact_Some:
  "read_exact n f = (Some bs, g) \<Longrightarrow>
    bs = pending n f \<and> length bs = n \<and> g = f\<lparr>f_pos := f_pos f + n\<rparr> \<and> readable n f"
  by (auto simp: read_exact_def read_file_def split: if_splits)

lemma read_exact_data:
  "read_exact n f = (r, g) \<Longrightarrow> f_data g = f_data f \<and> f_bad g = f_bad f \<and> f_fd g = f_fd f"
  by (auto simp: read_exact_def read_file_def split: if_splits)

text \<open>A read in a file whose contents from the position on are known.\<close>

lemma read_prefix:
  assumes "drop (f_pos f) (f_data f) = xs @ ys" "f_bad f = []"
  shows "read_exact (length xs) f = (Some xs, f\<lparr>f_pos := f_pos f + length xs\<rparr>)"
    "read_file (length xs) f = (Some xs, f\<lparr>f_pos := f_pos f + length xs\<rparr>)"
    "drop (f_pos f + length xs) (f_data f) = ys"
proof -
  have "pending (length xs) f = xs" using assms(1) by (simp add: pending_def)
  then show "read_exact (length xs) f = (Some xs, f\<lparr>f_pos := f_pos f + length xs\<rparr>)"
    "read_file (length xs) f = (Some xs, f\<lparr>f_pos := f_pos f + length xs\<rparr>)"
    using assms(2) by (simp_all add: read_exact_def read_file_def readable_def)
  show "drop (f_pos f + length xs) (f_data f) = ys"
    using assms(1) by (metis add.commute append_eq_conv_conj drop_drop)
qed

end
