(* ===== verification/FarMem.thy ===== *)
theory FarMem
  imports Host Clib
begin

text \<open>
  The far-memory half of \<open>util.c\<close> and \<open>util.h\<close>: far pointers, page rounding, \<open>farmemcpy\<close>,
  \<open>farmemset\<close> and \<open>_long_read\<close> in the variant compiled by SmallerC. The interface the payload loaders use
  (fill a region, read a piece of the file into a region) is the locale \<open>far_memory\<close>; it is interpreted
  on these definitions at the end.
\<close>

section \<open>Far pointers and pages\<close>

record char_far =
  fp_off :: u16
  fp_seg :: u16

definition PAGE_SIZE :: u32 where
  "PAGE_SIZE = 4096"

definition PAGE_MASK :: u32 where
  "PAGE_MASK = NOT (PAGE_SIZE - 1)"

definition PAGE_ALIGN :: "u32 \<Rightarrow> u32" where
  "PAGE_ALIGN a = (a + PAGE_SIZE - 1) AND PAGE_MASK"

section \<open>Copying and filling\<close>

text \<open>
  \<open>memcpy\<close> and \<open>memset\<close> to a linear address. The source of a copy is a buffer of \<open>cap\<close> bytes; reading
  past it is \<open>Bad_access\<close>.
\<close>

definition farmemcpy ::
  "'h env \<Rightarrow> char_far \<Rightarrow> u32 \<Rightarrow> (nat \<Rightarrow> u8) \<Rightarrow> nat \<Rightarrow> u32 \<Rightarrow> 'h world \<Rightarrow> stop + 'h world" where
  "farmemcpy E ptr offset src cap len w =
     (if len AND 1 \<noteq> 0 then Inl Assert_failed else
      let (rc, w1) = call_c E dpmi_get_segment_base_address [ucast (fp_seg ptr), local_slot E] w in
      if rc = - 1 then Inl Assert_failed else
      let base = load32 (own w1) (local_slot E) + ucast (fp_off ptr) in
      if cap < unat len then Inl Bad_access else
      Inr (w1\<lparr>lin := store_bytes (lin w1) (base + offset) (map src [0..<unat len])\<rparr>))"

definition farmemset ::
  "'h env \<Rightarrow> char_far \<Rightarrow> u32 \<Rightarrow> u8 \<Rightarrow> u32 \<Rightarrow> 'h world \<Rightarrow> stop + 'h world" where
  "farmemset E ptr offset val sz w =
     (if sz AND 1 \<noteq> 0 then Inl Assert_failed else
      let (rc, w1) = call_c E dpmi_get_segment_base_address [ucast (fp_seg ptr), local_slot E] w in
      if rc = - 1 then Inl Assert_failed else
      let base = load32 (own w1) (local_slot E) + ucast (fp_off ptr) in
      Inr (w1\<lparr>lin := store_bytes (lin w1) (base + offset) (replicate (unat sz) val)\<rparr>))"

section \<open>Reading a piece of the file into far memory\<close>

text \<open>The variables of the loop of \<open>_long_read\<close>; \<open>lr_tmp\<close> is the 4096-byte buffer \<open>tmp\<close>.\<close>

record 'h lr =
  lr_size :: u32
  lr_done :: u32
  lr_tmp :: "nat \<Rightarrow> u8"
  lr_file :: cfile
  lr_world :: "'h world"

text \<open>
  One pass of the loop; the flag says whether it ends in \<open>break\<close>. A failing \<open>read\<close> returns \<open>-1\<close>, which the
  code holds in an unsigned variable.
\<close>

definition long_read_step ::
  "'h env \<Rightarrow> char_far \<Rightarrow> u32 \<Rightarrow> 'h lr \<Rightarrow> stop + (bool \<times> 'h lr)" where
  "long_read_step E buf offset s =
     (let todo = (if lr_size s < PAGE_SIZE then lr_size s else PAGE_SIZE);
          (r, f1) = read_file (unat todo) (lr_file s);
          rd = (case r of None \<Rightarrow> - 1 | Some bs \<Rightarrow> of_nat (length bs));
          tmp1 = (case r of None \<Rightarrow> lr_tmp s
                  | Some bs \<Rightarrow> (\<lambda>i. if i < length bs then bs ! i else lr_tmp s i));
          s1 = s\<lparr>lr_tmp := tmp1, lr_file := f1\<rparr>
      in if rd = 0 then Inr (rd < todo, s1)
         else bindR (farmemcpy E buf (offset + lr_done s) tmp1 4096 (rd + (rd AND 1)) (lr_world s))
           (\<lambda>w1. Inr (rd < todo,
              s1\<lparr>lr_size := lr_size s - rd, lr_done := lr_done s + rd, lr_world := w1\<rparr>)))"

partial_function (option) long_read_loop ::
  "'h env \<Rightarrow> char_far \<Rightarrow> u32 \<Rightarrow> 'h lr \<Rightarrow> (stop + 'h lr) option" where
  "long_read_loop E buf offset s =
     (if lr_size s = 0 then Some (Inr s)
      else case long_read_step E buf offset s of
        Inl e \<Rightarrow> Some (Inl e)
      | Inr (brk, s1) \<Rightarrow> if brk then Some (Inr s1) else long_read_loop E buf offset s1)"

definition long_read ::
  "'h env \<Rightarrow> cfile \<Rightarrow> char_far \<Rightarrow> u32 \<Rightarrow> u32 \<Rightarrow> 'h world \<Rightarrow>
    (stop + (u32 \<times> cfile \<times> 'h world)) option" where
  "long_read E f buf offset sz w =
     map_option (\<lambda>r. bindR r (\<lambda>s. Inr (lr_done s, lr_file s, lr_world s)))
       (long_read_loop E buf offset \<lparr>lr_size = sz, lr_done = 0, lr_tmp = uninit E w, lr_file = f,
          lr_world = w\<rparr>)"

section \<open>Lemmas\<close>

lemma unat_and_one: "unat ((x :: u32) AND 1) = unat x mod 2"
  by (simp add: and_one_eq unat_mod)

lemma and_one_zero: "(x :: u32) AND 1 = 0 \<longleftrightarrow> even (unat x)"
  using unat_and_one [of x] by (metis even_iff_mod_2_eq_zero unat_0 unat_eq_0)

text \<open>What the far-memory operations may change besides linear memory: only the local variable.\<close>

definition far_effect :: "'h env \<Rightarrow> 'h world \<Rightarrow> 'h world \<Rightarrow> bool" where
  "far_effect E w v \<longleftrightarrow> host v = host w \<and> same_segs w v \<and>
     (\<forall>x. \<not> in_region x (local_slot E) 4 \<longrightarrow> own v x = own w x)"

lemma far_effect_refl [simp]: "far_effect E w w"
  by (simp add: far_effect_def)

lemma far_effect_trans [trans]: "far_effect E u v \<Longrightarrow> far_effect E v w \<Longrightarrow> far_effect E u w"
  by (auto simp: far_effect_def intro: same_segs_trans)

lemma far_effect_host: "far_effect E w v \<Longrightarrow> host v = host w"
  by (simp add: far_effect_def)

lemma farmemcpy_ok:
  assumes "get_base_law E D" "D (host w) (fp_seg p) = Some d" "even (unat len)" "unat len \<le> cap"
  shows "\<exists>v. farmemcpy E p offset src cap len w = Inr v \<and> far_effect E w v \<and>
    lin v = store_bytes (lin w) (d_base d + ucast (fp_off p) + offset) (map src [0..<unat len])"
proof -
  obtain rc v where c: "call_c E dpmi_get_segment_base_address [ucast (fp_seg p), local_slot E] w = (rc, v)"
    by fastforce
  have "rc \<noteq> - 1" "load32 (own v) (local_slot E) = d_base d" "lin v = lin w"
    "far_effect E w v"
    using call_get_base [OF assms(1,2) c]
    by (auto simp: far_effect_def store32_def store_bytes_outside)
  then show ?thesis
    using assms(3,4) c by (auto simp: farmemcpy_def and_one_zero far_effect_def same_segs_def)
qed

lemma farmemset_ok:
  assumes "get_base_law E D" "D (host w) (fp_seg p) = Some d" "even (unat sz)"
  shows "\<exists>v. farmemset E p offset val sz w = Inr v \<and> far_effect E w v \<and>
    lin v = store_bytes (lin w) (d_base d + ucast (fp_off p) + offset) (replicate (unat sz) val)"
proof -
  obtain rc v where c: "call_c E dpmi_get_segment_base_address [ucast (fp_seg p), local_slot E] w = (rc, v)"
    by fastforce
  have "rc \<noteq> - 1" "load32 (own v) (local_slot E) = d_base d" "lin v = lin w"
    "far_effect E w v"
    using call_get_base [OF assms(1,2) c]
    by (auto simp: far_effect_def store32_def store_bytes_outside)
  then show ?thesis
    using assms(3) c by (auto simp: farmemset_def and_one_zero far_effect_def same_segs_def)
qed

text \<open>
  What lands in memory: the bytes read and, after an odd number of them, one more byte of the buffer
  (from the previous chunk, or from before the call when there was none).
\<close>

definition padded :: "(nat \<Rightarrow> u8) \<Rightarrow> bytes \<Rightarrow> bytes" where
  "padded tmp bs = (if even (length bs) then bs
     else bs @ [if length bs < 4096 then tmp (length bs) else bs ! (length bs - 4096)])"

lemma padded_Nil [simp]: "padded tmp [] = []"
  by (simp add: padded_def)

lemma length_padded: "length (padded tmp bs) = length bs + length bs mod 2"
  by (auto simp: padded_def odd_iff_mod_2_eq_one)

lemma map_buffer:
  assumes "length c \<le> 4096"
  shows "map (\<lambda>i. if i < length c then c ! i else tmp i) [0..<length c + length c mod 2] = padded tmp c"
proof -
  have c: "map (\<lambda>i. if i < length c then c ! i else tmp i) [0..<length c] = c"
    by (auto intro: nth_equalityI)
  show ?thesis
  proof (cases "even (length c)")
    case True
    then show ?thesis using c by (simp add: padded_def even_iff_mod_2_eq_zero)
  next
    case False
    with assms have "length c < 4096"
      by (metis even_numeral le_neq_implies_less)
    with False c show ?thesis by (simp add: padded_def odd_iff_mod_2_eq_one)
  qed
qed

lemma padded_chunk:
  assumes "length c = 4096"
  shows "c @ padded (\<lambda>i. if i < length c then c ! i else tmp i) bs = padded tmp (c @ bs)"
  using assms by (auto simp: padded_def nth_append)

lemma lr_all_fields:
  "s\<lparr>lr_tmp := a, lr_file := b, lr_size := c, lr_done := d, lr_world := v\<rparr> =
    \<lparr>lr_size = c, lr_done = d, lr_tmp = a, lr_file = b, lr_world = v\<rparr>"
  by (cases s) simp

text \<open>One pass of the loop, when the medium delivers.\<close>

lemma long_read_step_ok:
  assumes law: "get_base_law E D" "D (host (lr_world s)) (fp_seg buf) = Some d"
    and r: "readable (min (unat (lr_size s)) 4096) (lr_file s)"
    and c: "c = pending (min (unat (lr_size s)) 4096) (lr_file s)"
    and pos: "lr_size s \<noteq> 0"
  shows "\<exists>v. long_read_step E buf offset s =
      Inr (length c < min (unat (lr_size s)) 4096,
        \<lparr>lr_size = lr_size s - of_nat (length c), lr_done = lr_done s + of_nat (length c),
         lr_tmp = (\<lambda>i. if i < length c then c ! i else lr_tmp s i),
         lr_file = lr_file s\<lparr>f_pos := f_pos (lr_file s) + length c\<rparr>, lr_world = v\<rparr>) \<and>
    far_effect E (lr_world s) v \<and>
    lin v = store_bytes (lin (lr_world s))
      (d_base d + ucast (fp_off buf) + (offset + lr_done s)) (padded (lr_tmp s) c)"
proof -
  let ?todo = "if lr_size s < PAGE_SIZE then lr_size s else PAGE_SIZE"
  let ?rd = "of_nat (length c) :: u32"
  have todo: "unat ?todo = min (unat (lr_size s)) 4096"
    by (auto simp: PAGE_SIZE_def word_less_nat_alt min_def)
  have le: "length c \<le> 4096" "length c \<le> unat ?todo"
    unfolding c todo length_pending by (auto simp: min_le_iff_disj)
  have rd: "unat ?rd = length c"
    using le by (simp add: unat_of_nat)
  have less: "?rd < ?todo \<longleftrightarrow> length c < min (unat (lr_size s)) 4096"
    using rd todo by (simp only: word_less_nat_alt)
  have read: "read_file (unat ?todo) (lr_file s) =
      (Some c, lr_file s\<lparr>f_pos := f_pos (lr_file s) + length c\<rparr>)"
    unfolding todo using r by (simp add: read_file_def c)
  show ?thesis
  proof (cases "length c = 0")
    case True
    then show ?thesis
      using less unfolding long_read_step_def Let_def read
      by (intro exI [of _ "lr_world s"]) simp
  next
    case False
    then have "?rd \<noteq> 0" using rd by (metis unat_0)
    have len: "unat (?rd + (?rd AND 1)) = length c + length c mod 2"
    proof -
      have "unat ?rd + unat (?rd AND 1) < 2 ^ 32"
        unfolding unat_and_one rd using le(1) by (simp add: order_le_less_trans [of _ 4096])
      then show ?thesis
        by (subst unat_add_lem [THEN iffD1]) (simp_all add: unat_and_one rd)
    qed
    have "even (length c + length c mod 2)"
      by (simp add: mod_2_eq_odd)
    moreover have "length c + length c mod 2 \<le> 4096"
      using le(1) by (cases "length c = 4096") (auto simp: mod_2_eq_odd)
    ultimately obtain v where v: "farmemcpy E buf (offset + lr_done s)
          (\<lambda>i. if i < length c then c ! i else lr_tmp s i) 4096 (?rd + (?rd AND 1)) (lr_world s) = Inr v"
      "far_effect E (lr_world s) v"
      "lin v = store_bytes (lin (lr_world s)) (d_base d + ucast (fp_off buf) + (offset + lr_done s))
         (map (\<lambda>i. if i < length c then c ! i else lr_tmp s i) [0..<unat (?rd + (?rd AND 1))])"
      using farmemcpy_ok [OF law, of "?rd + (?rd AND 1)" 4096] unfolding len by metis
    show ?thesis
      unfolding long_read_step_def Let_def read
      using v less \<open>?rd \<noteq> 0\<close> map_buffer [OF le(1), of "lr_tmp s"]
      unfolding len by (simp add: lr_all_fields)
  qed
qed

text \<open>The whole loop, by induction on what is left to read.\<close>

lemma pending_split:
  assumes "m \<le> n" "length (pending m f) = m"
  shows "pending n f = pending m f @ pending (n - m) (f\<lparr>f_pos := f_pos f + m\<rparr>)"
  using pending_append [of m "n - m" f] assms by simp

lemma long_read_loop_ok:
  assumes "get_base_law E D" "D (host (lr_world s)) (fp_seg buf) = Some d"
    and "readable (unat (lr_size s)) (lr_file s)"
    and "bs = pending (unat (lr_size s)) (lr_file s)"
  shows "\<exists>t. long_read_loop E buf offset s = Some (Inr t) \<and>
    lr_done t = lr_done s + of_nat (length bs) \<and>
    lr_file t = lr_file s\<lparr>f_pos := f_pos (lr_file s) + length bs\<rparr> \<and>
    far_effect E (lr_world s) (lr_world t) \<and>
    lin (lr_world t) = store_bytes (lin (lr_world s))
      (d_base d + ucast (fp_off buf) + offset + lr_done s) (padded (lr_tmp s) bs)"
  using assms(2-4)
proof (induction "unat (lr_size s)" arbitrary: s bs rule: less_induct)
  case less
  let ?n = "unat (lr_size s)" and ?f = "lr_file s"
  show ?case
  proof (cases "lr_size s = 0")
    case True
    then show ?thesis
      using less.prems(3) by (subst long_read_loop.simps) (simp add: pending_def)
  next
    case False
    let ?m = "min ?n 4096"
    define c where "c = pending ?m ?f"
    define A where "A = d_base d + ucast (fp_off buf) + offset + lr_done s"
    have part: "readable ?m ?f"
      using less.prems(2) not_readable_mono [of ?m ?f ?n] by auto
    obtain v where step: "long_read_step E buf offset s = Inr (length c < ?m,
        \<lparr>lr_size = lr_size s - of_nat (length c), lr_done = lr_done s + of_nat (length c),
         lr_tmp = (\<lambda>i. if i < length c then c ! i else lr_tmp s i),
         lr_file = ?f\<lparr>f_pos := f_pos ?f + length c\<rparr>, lr_world = v\<rparr>)" (is "_ = Inr (_, ?t)")
      and v: "far_effect E (lr_world s) v" "lin v = store_bytes (lin (lr_world s)) A (padded (lr_tmp s) c)"
      using long_read_step_ok [OF assms(1) less.prems(1) part c_def False, of offset]
      by (auto simp: A_def add.assoc)
    show ?thesis
    proof (cases "length c < ?m")
      case True
      then have "bs = c"
        unfolding less.prems(3) c_def by (auto simp: pending_def min_def split: if_splits)
      then show ?thesis
        using False step v True by (subst long_read_loop.simps) (simp add: A_def)
    next
      case full: False
      moreover have "length c \<le> ?m"
        unfolding c_def by (rule length_pending_le)
      ultimately have len: "length c = ?m" by linarith
      define bs' where "bs' = pending (?n - ?m) (?f\<lparr>f_pos := f_pos ?f + ?m\<rparr>)"
      have bs: "bs = c @ bs'"
        unfolding less.prems(3) c_def bs'_def using len c_def by (intro pending_split) auto
      have size: "unat (lr_size ?t) = ?n - ?m"
        using len by (simp add: unat_sub_if' unat_of_nat)
      have smaller: "unat (lr_size ?t) < ?n"
        using False size by (simp add: unat_gt_0)
      have host: "host v = host (lr_world s)" using v(1) by (simp add: far_effect_def)
      have rest: "readable (unat (lr_size ?t)) (lr_file ?t)"
        unfolding size using readable_part(2) [of ?m "?n - ?m" ?f] less.prems(2) len
        by (simp add: c_def length_pending)
      obtain t where t: "long_read_loop E buf offset ?t = Some (Inr t)"
        "lr_done t = lr_done ?t + of_nat (length bs')"
        "lr_file t = lr_file ?t\<lparr>f_pos := f_pos (lr_file ?t) + length bs'\<rparr>"
        "far_effect E v (lr_world t)"
        "lin (lr_world t) = store_bytes (lin v)
           (d_base d + ucast (fp_off buf) + offset + lr_done ?t) (padded (lr_tmp ?t) bs')"
        using less.hyps [OF smaller, of bs'] less.prems(1) host rest
        unfolding size by (auto simp: bs'_def len)
      have "store_bytes (store_bytes (lin (lr_world s)) A (padded (lr_tmp s) c))
          (A + of_nat (length c)) (padded (lr_tmp ?t) bs') =
        store_bytes (lin (lr_world s)) A (padded (lr_tmp s) bs)"
      proof (cases "?n \<le> 4096")
        case True
        then show ?thesis by (simp add: bs bs'_def pending_def)
      next
        case big: False
        then have "length c = 4096" using len by simp
        moreover have "length c + length (padded (lr_tmp ?t) bs') \<le> 2 ^ 32"
        proof -
          have "length bs' \<le> ?n - 4096"
            unfolding bs'_def length_pending using big by (simp add: min_le_iff_disj)
          then have "length bs' < 2 ^ 32 - 4096" using unat_u32_less [of "lr_size s"] big by simp
          then show ?thesis using \<open>length c = 4096\<close> by (simp add: length_padded mod_2_eq_odd)
        qed
        ultimately show ?thesis
          using padded_chunk [of c "lr_tmp s" bs']
            store_bytes_append [of c "padded (lr_tmp ?t) bs'" "lin (lr_world s)" A]
          by (simp add: padded_def [of "lr_tmp s" c] bs)
      qed
      moreover have "far_effect E (lr_world s) (lr_world t)"
        using v(1) t(4) by (rule far_effect_trans)
      ultimately show ?thesis
        using False full step t v(2) bs len
        by (subst long_read_loop.simps) (simp add: A_def algebra_simps)
    qed
  qed
qed

section \<open>When the medium fails\<close>

text \<open>A pass whose \<open>read\<close> fails counts \<open>-1\<close> as data: one byte less is done, one more is wanted.\<close>

lemma long_read_step_error:
  assumes "get_base_law E D" "D (host (lr_world s)) (fp_seg buf) = Some d"
    and "\<not> readable (min (unat (lr_size s)) 4096) (lr_file s)"
  shows "\<exists>v. long_read_step E buf offset s =
      Inr (False, s\<lparr>lr_size := lr_size s + 1, lr_done := lr_done s - 1, lr_world := v\<rparr>) \<and>
    far_effect E (lr_world s) v \<and> lin v = lin (lr_world s)"
proof -
  let ?todo = "if lr_size s < PAGE_SIZE then lr_size s else PAGE_SIZE"
  have todo: "unat ?todo = min (unat (lr_size s)) 4096"
    by (auto simp: PAGE_SIZE_def word_less_nat_alt min_def)
  have read: "read_file (unat ?todo) (lr_file s) = (None, lr_file s)"
    unfolding todo using assms(3) by (simp add: read_file_def)
  obtain v where v: "farmemcpy E buf (offset + lr_done s) (lr_tmp s) 4096 (- 1 + (- 1 AND 1)) (lr_world s) = Inr v"
    "far_effect E (lr_world s) v" "lin v = lin (lr_world s)"
    using farmemcpy_ok [OF assms(1,2), of 0 4096 "offset + lr_done s" "lr_tmp s"] by auto
  have "s\<lparr>lr_tmp := lr_tmp s, lr_file := lr_file s\<rparr> = s" by simp
  then show ?thesis
    unfolding long_read_step_def Let_def read using v by (intro exI [of _ v]) simp
qed

lemma long_read_loop_error:
  assumes "get_base_law E D" "D (host (lr_world s)) (fp_seg buf) = Some d"
    and "\<not> readable (min (unat (lr_size s)) 4096) (lr_file s)"
  shows "\<exists>t. long_read_loop E buf offset s = Some (Inr t) \<and> lr_done t = lr_done s + lr_size s \<and>
    lr_file t = lr_file s \<and> far_effect E (lr_world s) (lr_world t) \<and>
    lin (lr_world t) = lin (lr_world s)"
  using assms(2,3)
proof (induction "2 ^ 32 - unat (lr_size s)" arbitrary: s rule: less_induct)
  case less
  have "lr_size s \<noteq> 0"
    using less.prems(2) by (auto simp: readable_def pending_def list_all_iff)
  obtain v where v: "long_read_step E buf offset s =
      Inr (False, s\<lparr>lr_size := lr_size s + 1, lr_done := lr_done s - 1, lr_world := v\<rparr>)"
      (is "_ = Inr (_, ?t)") "far_effect E (lr_world s) v" "lin v = lin (lr_world s)"
    using long_read_step_error [OF assms(1) less.prems] by blast
  show ?case
  proof (cases "lr_size s + 1 = 0")
    case True
    then have "lr_size s = - 1" by (simp add: eq_neg_iff_add_eq_0)
    moreover have "long_read_loop E buf offset ?t = Some (Inr ?t)"
      using True by (subst long_read_loop.simps) simp
    ultimately show ?thesis
      using \<open>lr_size s \<noteq> 0\<close> v
      by (subst long_read_loop.simps) (auto simp: True)
  next
    case False
    then have size: "unat (lr_size ?t) = unat (lr_size s) + 1"
      using unatSuc [of "lr_size s"] by (simp add: add.commute)
    then have "2 ^ 32 - unat (lr_size ?t) < 2 ^ 32 - unat (lr_size s)"
      using unat_u32_less [of "lr_size ?t"] by simp
    moreover have "D (host (lr_world ?t)) (fp_seg buf) = Some d"
      using v(2) less.prems(1) by (simp add: far_effect_def)
    moreover have "\<not> readable (min (unat (lr_size ?t)) 4096) (lr_file ?t)"
      using less.prems(2) not_readable_mono [of "min (unat (lr_size s)) 4096" "lr_file s"
        "min (unat (lr_size s) + 1) 4096"] unfolding size by (simp add: min_def)
    ultimately obtain t where "long_read_loop E buf offset ?t = Some (Inr t)"
      "lr_done t = lr_done ?t + lr_size ?t" "lr_file t = lr_file s"
      "far_effect E v (lr_world t)" "lin (lr_world t) = lin v"
      using less.hyps [of ?t] by auto
    then show ?thesis
      using \<open>lr_size s \<noteq> 0\<close> v far_effect_trans [OF v(2)]
      by (subst long_read_loop.simps) auto
  qed
qed

lemma long_read_loop_fault:
  assumes "get_base_law E D" "D (host (lr_world s)) (fp_seg buf) = Some d"
    and "\<not> readable (unat (lr_size s)) (lr_file s)"
  shows "\<exists>t. long_read_loop E buf offset s = Some (Inr t) \<and> lr_done t = lr_done s + lr_size s"
  using assms(2,3)
proof (induction "unat (lr_size s)" arbitrary: s rule: less_induct)
  case less
  let ?m = "min (unat (lr_size s)) 4096" and ?f = "lr_file s"
  have nz: "lr_size s \<noteq> 0"
    using less.prems(2) by (auto simp: readable_def pending_def list_all_iff)
  show ?case
  proof (cases "readable ?m ?f")
    case False
    then show ?thesis
      using long_read_loop_error [OF assms(1) less.prems(1)] by blast
  next
    case part: True
    have full: "length (pending ?m ?f) = ?m"
    proof (rule ccontr)
      assume "\<not> ?thesis"
      then have "pending (unat (lr_size s)) ?f = pending ?m ?f"
        by (auto simp: pending_def min_def split: if_splits)
      then show False using part less.prems(2) by (simp add: readable_def)
    qed
    obtain v where step: "long_read_step E buf offset s = Inr (False,
        \<lparr>lr_size = lr_size s - of_nat ?m, lr_done = lr_done s + of_nat ?m,
         lr_tmp = (\<lambda>i. if i < ?m then pending ?m ?f ! i else lr_tmp s i),
         lr_file = ?f\<lparr>f_pos := f_pos ?f + ?m\<rparr>, lr_world = v\<rparr>)" (is "_ = Inr (_, ?t)")
      "far_effect E (lr_world s) v"
      using long_read_step_ok [OF assms(1) less.prems(1) part refl nz, of offset]
      unfolding full by auto
    have size: "unat (lr_size ?t) = unat (lr_size s) - ?m"
      by (simp add: unat_sub_if' unat_of_nat)
    have "\<not> readable (unat (lr_size ?t)) (lr_file ?t)"
    proof
      assume rest: "readable (unat (lr_size ?t)) (lr_file ?t)"
      have "readable (?m + (unat (lr_size s) - ?m)) ?f"
        by (rule readable_join [OF part full]) (use rest size in simp)
      then have "readable (unat (lr_size s)) ?f" by simp
      then show False using less.prems(2) by contradiction
    qed
    moreover have "unat (lr_size ?t) < unat (lr_size s)"
      using nz size by (simp add: unat_gt_0)
    moreover have "D (host (lr_world ?t)) (fp_seg buf) = Some d"
      using step(2) less.prems(1) by (simp add: far_effect_def)
    ultimately obtain t where "long_read_loop E buf offset ?t = Some (Inr t)"
      "lr_done t = lr_done ?t + lr_size ?t"
      using less.hyps [of ?t] by auto
    then show ?thesis
      using nz step by (subst long_read_loop.simps) simp
  qed
qed

text \<open>
  The loop of \<open>_long_read\<close> always ends: after a failed \<open>read\<close> the size grows until it wraps to zero,
  otherwise it falls.
\<close>

lemma long_read_loop_bad_total:
  "\<not> readable (min (unat (lr_size s)) 4096) (lr_file s) \<Longrightarrow> \<exists>r. long_read_loop E buf offset s = Some r"
proof (induction "2 ^ 32 - unat (lr_size s)" arbitrary: s rule: less_induct)
  case less
  let ?todo = "if lr_size s < PAGE_SIZE then lr_size s else PAGE_SIZE"
  have todo: "unat ?todo = min (unat (lr_size s)) 4096"
    by (auto simp: PAGE_SIZE_def word_less_nat_alt min_def)
  have read: "read_file (unat ?todo) (lr_file s) = (None, lr_file s)"
    unfolding todo using less.prems by (simp add: read_file_def)
  show ?case
  proof (cases "lr_size s = 0 \<or> (\<exists>e. long_read_step E buf offset s = Inl e)")
    case True
    then show ?thesis by (subst long_read_loop.simps) auto
  next
    case False
    then obtain brk t where step: "long_read_step E buf offset s = Inr (brk, t)"
      by (cases "long_read_step E buf offset s") auto
    then have t: "lr_size t = lr_size s + 1" "lr_file t = lr_file s"
      unfolding long_read_step_def Let_def read by (auto simp: bindR_Inr_iff)
    have "\<exists>r. long_read_loop E buf offset t = Some r"
    proof (cases "lr_size s + 1 = 0")
      case True
      then show ?thesis using t(1) by (subst long_read_loop.simps) simp
    next
      case False
      then have size: "unat (lr_size t) = unat (lr_size s) + 1"
        using unatSuc [of "lr_size s"] t(1) by (simp add: add.commute)
      moreover have "\<not> readable (min (unat (lr_size t)) 4096) (lr_file t)"
        unfolding size t(2) by (rule not_readable_mono [OF less.prems]) simp
      ultimately show ?thesis
        using less.hyps [of t] unat_u32_less [of "lr_size t"] by simp
    qed
    then show ?thesis
      using step False by (subst long_read_loop.simps) auto
  qed
qed

lemma long_read_loop_total: "\<exists>r. long_read_loop E buf offset s = Some r"
proof (induction "unat (lr_size s)" arbitrary: s rule: less_induct)
  case less
  let ?todo = "if lr_size s < PAGE_SIZE then lr_size s else PAGE_SIZE"
  have todo: "unat ?todo = min (unat (lr_size s)) 4096"
    by (auto simp: PAGE_SIZE_def word_less_nat_alt min_def)
  show ?case
  proof (cases "readable (unat ?todo) (lr_file s)")
    case False
    then show ?thesis unfolding todo by (rule long_read_loop_bad_total)
  next
    case True
    let ?n = "length (pending (unat ?todo) (lr_file s))"
    have n: "?n \<le> unat ?todo" by (rule length_pending_le)
    then have w: "unat (of_nat ?n :: u32) = ?n"
      using unat_u32_less [of ?todo] by (simp add: unat_of_nat)
    show ?thesis
    proof (cases "lr_size s = 0 \<or> (\<exists>e. long_read_step E buf offset s = Inl e)")
      case True
      then show ?thesis by (subst long_read_loop.simps) auto
    next
      case False
      then obtain brk t where step: "long_read_step E buf offset s = Inr (brk, t)"
        by (cases "long_read_step E buf offset s") auto
      have "brk \<or> lr_size t = lr_size s - of_nat ?n \<and> 0 < ?n"
      proof (cases "?n = 0")
        case True
        have "0 < ?todo" using False by (auto simp: PAGE_SIZE_def word_gt_0)
        then have brk: "brk"
          using step True \<open>readable _ _\<close> by (simp add: long_read_step_def read_file_def split: if_splits)
        then show ?thesis ..
      next
        case False
        then have "(of_nat ?n :: u32) \<noteq> 0" using w by (metis unat_0)
        then show ?thesis
          using step False \<open>readable _ _\<close>
          unfolding long_read_step_def Let_def read_file_def by (auto simp: bindR_Inr_iff)
      qed
      then show ?thesis
      proof
        assume brk
        then show ?thesis using step by (subst long_read_loop.simps) simp
      next
        assume *: "lr_size t = lr_size s - of_nat ?n \<and> 0 < ?n"
        have "?n \<le> unat (lr_size s)" using n todo by simp
        then have "unat (lr_size t) = unat (lr_size s) - ?n"
          using * w by (simp add: unat_sub_if')
        then have "\<exists>r. long_read_loop E buf offset t = Some r"
          using * \<open>?n \<le> unat (lr_size s)\<close> by (intro less.hyps) linarith
        then show ?thesis using step by (subst long_read_loop.simps) auto
      qed
    qed
  qed
qed

lemma long_read_total: "long_read E f buf offset n w \<noteq> None"
  using long_read_loop_total by (simp add: long_read_def)

section \<open>The interface of the loaders\<close>

text \<open>
  What a payload loader needs from far memory, over a state \<open>'w\<close>. \<open>cmem p w\<close> is the client's memory
  as addressed by offsets behind the far pointer \<open>p\<close>; \<open>mapped\<close> says that \<open>p\<close> can be used; \<open>keeps\<close>
  relates states that agree on everything but client memory; \<open>junk\<close> is what an uninitialised buffer
  holds. \<open>fill\<close> and \<open>load\<close> then act on client memory alone.
\<close>

locale far_memory =
  fixes fill :: "char_far \<Rightarrow> u32 \<Rightarrow> u8 \<Rightarrow> u32 \<Rightarrow> 'w \<Rightarrow> stop + 'w"
    and load :: "cfile \<Rightarrow> char_far \<Rightarrow> u32 \<Rightarrow> u32 \<Rightarrow> 'w \<Rightarrow> (stop + (u32 \<times> cfile \<times> 'w)) option"
    and cmem :: "char_far \<Rightarrow> 'w \<Rightarrow> mem"
    and mapped :: "char_far \<Rightarrow> 'w \<Rightarrow> bool"
    and keeps :: "'w \<Rightarrow> 'w \<Rightarrow> bool"
    and junk :: "'w \<Rightarrow> nat \<Rightarrow> u8"
  assumes keeps_refl: "keeps w w"
    and keeps_trans: "keeps u v \<Longrightarrow> keeps v w \<Longrightarrow> keeps u w"
    and keeps_mapped: "keeps w v \<Longrightarrow> mapped p w \<Longrightarrow> mapped p v"
    and fill_law: "mapped p w \<Longrightarrow> even (unat n) \<Longrightarrow>
      \<exists>v. fill p a x n w = Inr v \<and> keeps w v \<and>
        cmem p v = store_bytes (cmem p w) a (replicate (unat n) x)"
    and load_law: "mapped p w \<Longrightarrow> readable (unat n) f \<Longrightarrow>
      \<exists>v. load f p a n w = Some (Inr (of_nat (length (pending (unat n) f)),
          f\<lparr>f_pos := f_pos f + length (pending (unat n) f)\<rparr>, v)) \<and> keeps w v \<and>
        cmem p v = store_bytes (cmem p w) a (padded (junk w) (pending (unat n) f))"

definition far_base :: "'h view \<Rightarrow> char_far \<Rightarrow> 'h world \<Rightarrow> u32" where
  "far_base D p w = (case D (host w) (fp_seg p) of
     Some d \<Rightarrow> d_base d + ucast (fp_off p) | None \<Rightarrow> 0)"

definition client_mem :: "'h view \<Rightarrow> char_far \<Rightarrow> 'h world \<Rightarrow> mem" where
  "client_mem D p w = (\<lambda>a. lin w (far_base D p w + a))"

definition far_mapped :: "'h env \<Rightarrow> 'h view \<Rightarrow> char_far \<Rightarrow> 'h world \<Rightarrow> bool" where
  "far_mapped E D p w \<longleftrightarrow> get_base_law E D \<and> D (host w) (fp_seg p) \<noteq> None"

lemma store_bytes_shift:
  "(\<lambda>x. store_bytes m (b + a) bs (b + x)) = store_bytes (\<lambda>x. m (b + x)) a bs"
  by (simp add: store_bytes_def in_region_def fun_eq_iff)

lemma far_base_effect: "far_effect E w v \<Longrightarrow> far_base D p v = far_base D p w"
  by (simp add: far_base_def far_effect_def)

lemma client_mem_store:
  "far_effect E w v \<Longrightarrow> lin v = store_bytes (lin w) (far_base D p w + a) bs \<Longrightarrow>
    client_mem D p v = store_bytes (client_mem D p w) a bs"
  using store_bytes_shift [of "lin w" "far_base D p w" a bs]
  by (simp add: client_mem_def far_base_effect)

lemma long_read_ok:
  assumes "get_base_law E D" "D (host w) (fp_seg buf) = Some d" "readable (unat sz) f"
  shows "\<exists>v. long_read E f buf offset sz w = Some (Inr (of_nat (length (pending (unat sz) f)),
      f\<lparr>f_pos := f_pos f + length (pending (unat sz) f)\<rparr>, v)) \<and> far_effect E w v \<and>
    lin v = store_bytes (lin w) (d_base d + ucast (fp_off buf) + offset)
      (padded (uninit E w) (pending (unat sz) f))"
  using long_read_loop_ok [OF assms(1), of "\<lparr>lr_size = sz, lr_done = 0, lr_tmp = uninit E w,
      lr_file = f, lr_world = w\<rparr>" buf d "pending (unat sz) f" offset] assms(2,3)
  by (auto simp: long_read_def)

interpretation fm: far_memory "farmemset E" "long_read E" "client_mem D" "far_mapped E D"
  "far_effect E" "uninit E" for E :: "'h env" and D :: "'h view"
proof unfold_locales
  fix p a x and n :: u32 and w :: "'h world"
  assume "far_mapped E D p w" "even (unat n)"
  then obtain d where d: "get_base_law E D" "D (host w) (fp_seg p) = Some d"
    by (auto simp: far_mapped_def)
  obtain v where "farmemset E p a x n w = Inr v" "far_effect E w v"
    "lin v = store_bytes (lin w) (far_base D p w + a) (replicate (unat n) x)"
    using farmemset_ok [OF d \<open>even (unat n)\<close>] d(2) by (auto simp: far_base_def)
  then show "\<exists>v. farmemset E p a x n w = Inr v \<and> far_effect E w v \<and>
      client_mem D p v = store_bytes (client_mem D p w) a (replicate (unat n) x)"
    using client_mem_store by blast
next
  fix p a f and n :: u32 and w :: "'h world"
  assume "far_mapped E D p w" and r: "readable (unat n) f"
  then obtain d where d: "get_base_law E D" "D (host w) (fp_seg p) = Some d"
    by (auto simp: far_mapped_def)
  then have "far_base D p w = d_base d + ucast (fp_off p)" by (simp add: far_base_def)
  then show "\<exists>v. long_read E f p a n w = Some (Inr (of_nat (length (pending (unat n) f)),
        f\<lparr>f_pos := f_pos f + length (pending (unat n) f)\<rparr>, v)) \<and> far_effect E w v \<and>
      client_mem D p v = store_bytes (client_mem D p w) a
        (padded (uninit E w) (pending (unat n) f))"
    using long_read_ok [OF d r, of a] client_mem_store [of E w _ D p a] by fastforce
qed (auto intro: far_effect_trans simp: far_mapped_def far_effect_host)

section \<open>Properties\<close>

text \<open>
  C5. When the medium delivers, \<open>_long_read\<close> returns the number of bytes the file had (at most the
  number asked for), moves the file position by as many, and puts exactly these bytes at the far
  address, with one byte of the bounce buffer behind an odd number of them. No assertion fires, the
  bounce buffer is never overrun, and nothing else changes but the local variable that receives the
  segment base.
\<close>

theorem long_read_delivers:
  assumes "get_base_law E D" "D (host w) (fp_seg buf) = Some d" "readable (unat sz) f"
    and "bs = pending (unat sz) f"
  shows "\<exists>v. long_read E f buf offset sz w =
      Some (Inr (of_nat (length bs), f\<lparr>f_pos := f_pos f + length bs\<rparr>, v)) \<and>
    lin v = store_bytes (lin w) (d_base d + ucast (fp_off buf) + offset) (padded (uninit E w) bs) \<and>
    far_effect E w v"
  using long_read_ok [OF assms(1-3), of offset] assms(4) by blast

definition sample_desc :: desc where
  "sample_desc = \<lparr>d_base = 0x400000, d_field = 0xfffff, d_access = 0xc0f2, d_real = False\<rparr>"

definition sample_file :: "bytes \<Rightarrow> cfile" where
  "sample_file bs = \<lparr>f_data = bs, f_pos = 0, f_bad = [], f_fd = 5\<rparr>"

theorem long_read_delivers_witness:
  "\<exists>v. long_read ref_env (sample_file [1, 2, 3]) \<lparr>fp_off = 0, fp_seg = 0x87\<rparr> 0x10 8
      (ref_world [(0x87, sample_desc)]) =
    Some (Inr (3, (sample_file [1, 2, 3])\<lparr>f_pos := 3\<rparr>, v)) \<and>
    lin v = store_bytes (\<lambda>_. 0) 0x400010 [1, 2, 3, 0xCC]"
  using long_read_delivers [of ref_env ref_view "ref_world [(0x87, sample_desc)]"
      "\<lparr>fp_off = 0, fp_seg = 0x87\<rparr>" sample_desc 8 "sample_file [1, 2, 3]" "[1, 2, 3]" "0x10"]
    ref_get_base_law
  by (auto simp: ref_view_def ref_world_def sample_file_def sample_desc_def readable_def pending_def
      padded_def ref_env_def)

text \<open>
  C6. A read error is reported as complete success: when the medium cannot deliver part of the range,
  \<open>_long_read\<close> still returns the full size asked for. The \<open>-1\<close> of \<open>read\<close> is kept in an unsigned
  variable, so every failing pass adds one to the size still wanted and takes one from the count,
  until the size wraps to zero. If the first chunk fails, no byte is stored.
\<close>

theorem long_read_error_reported_as_success:
  assumes "get_base_law E D" "D (host w) (fp_seg buf) = Some d" "\<not> readable (unat sz) f"
  shows "(\<exists>f1 v. long_read E f buf offset sz w = Some (Inr (sz, f1, v))) \<and>
    (\<not> readable (min (unat sz) 4096) f \<longrightarrow>
      (\<exists>v. long_read E f buf offset sz w = Some (Inr (sz, f, v)) \<and> lin v = lin w))"
proof -
  let ?s = "\<lparr>lr_size = sz, lr_done = 0, lr_tmp = uninit E w, lr_file = f, lr_world = w\<rparr>"
  show ?thesis
    using long_read_loop_fault [OF assms(1), of ?s buf d offset]
      long_read_loop_error [OF assms(1), of ?s buf d offset] assms(2,3)
    by (auto simp: long_read_def)
qed

theorem long_read_error_reported_as_success_witness:
  "\<exists>v. long_read ref_env ((sample_file [1, 2, 3])\<lparr>f_bad := [1]\<rparr>) \<lparr>fp_off = 0, fp_seg = 0x87\<rparr> 0x10 3
      (ref_world [(0x87, sample_desc)]) =
    Some (Inr (3, (sample_file [1, 2, 3])\<lparr>f_bad := [1]\<rparr>, v)) \<and> lin v = (\<lambda>_. 0)"
  using long_read_error_reported_as_success [of ref_env ref_view "ref_world [(0x87, sample_desc)]"
      "\<lparr>fp_off = 0, fp_seg = 0x87\<rparr>" sample_desc 3 "(sample_file [1, 2, 3])\<lparr>f_bad := [1]\<rparr>" "0x10"]
    ref_get_base_law
  by (auto simp: ref_view_def ref_world_def sample_file_def readable_def pending_def)

end
