(* ===== verification/Loader.thy ===== *)
theory Loader
  imports FarMem
begin

text \<open>
  What the payload loaders have in common: the plan of a load (pieces of the file to copy, ranges to
  clear), its effect on client memory byte by byte, the step that performs one piece, and the interface
  \<open>struct ldops\<close> of \<open>stub.h\<close> as the locale \<open>ldops\<close> with its contract.
\<close>

section \<open>Load plans\<close>

text \<open>
  \<open>Copy fo a n\<close> reads \<open>n\<close> bytes at offset \<open>fo\<close> of the payload to address \<open>a\<close>; \<open>Zero a n\<close> clears.
\<close>

datatype piece = Copy u32 u32 u32 | Zero u32 u32

text \<open>What a plan makes of a byte of client memory: a known byte, an unspecified one, or no change.\<close>

datatype cell = Byte u8 | Junk | Kept

fun put_piece :: "bytes \<Rightarrow> u32 \<Rightarrow> piece \<Rightarrow> (u32 \<Rightarrow> cell) \<Rightarrow> (u32 \<Rightarrow> cell)" where
  "put_piece data off (Copy fo a n) c = (\<lambda>x. let i = unat (x - a) in
     if i < unat n then Byte (data ! (unat (off + fo) + i))
     else if i = unat n \<and> odd (unat n) then Junk else c x)"
| "put_piece data off (Zero a n) c = (\<lambda>x. if unat (x - a) < unat n then Byte 0 else c x)"

definition put_plan :: "bytes \<Rightarrow> u32 \<Rightarrow> piece list \<Rightarrow> (u32 \<Rightarrow> cell) \<Rightarrow> (u32 \<Rightarrow> cell)" where
  "put_plan data off ps c = fold (put_piece data off) ps c"

definition plan_cells :: "bytes \<Rightarrow> u32 \<Rightarrow> piece list \<Rightarrow> u32 \<Rightarrow> cell" where
  "plan_cells data off ps = put_plan data off ps (\<lambda>_. Kept)"

definition agrees :: "mem \<Rightarrow> (u32 \<Rightarrow> cell) \<Rightarrow> mem \<Rightarrow> bool" where
  "agrees m0 c m \<longleftrightarrow> (\<forall>x. case c x of Byte b \<Rightarrow> m x = b | Junk \<Rightarrow> True | Kept \<Rightarrow> m x = m0 x)"

text \<open>A piece the file can deliver, and one whose bytes run past the end of the file.\<close>

fun deliverable :: "cfile \<Rightarrow> u32 \<Rightarrow> piece \<Rightarrow> bool" where
  "deliverable f off (Copy fo a n) \<longleftrightarrow> unat (off + fo) < 2 ^ 31 \<and>
     unat (off + fo) + unat n \<le> length (f_data f) \<and>
     readable (unat n) (f\<lparr>f_pos := unat (off + fo)\<rparr>)"
| "deliverable f off (Zero a n) \<longleftrightarrow> even (unat n)"

fun truncated :: "cfile \<Rightarrow> u32 \<Rightarrow> piece \<Rightarrow> bool" where
  "truncated f off (Copy fo a n) \<longleftrightarrow> unat (off + fo) < 2 ^ 31 \<and>
     length (f_data f) < unat (off + fo) + unat n \<and> n \<noteq> 0 \<and>
     readable (unat n) (f\<lparr>f_pos := unat (off + fo)\<rparr>)"
| "truncated f off (Zero a n) \<longleftrightarrow> False"

text \<open>The addresses a piece writes, its pad byte included, as distances from its first address.\<close>

fun extent :: "piece \<Rightarrow> nat" where
  "extent (Copy fo a n) = unat n + unat n mod 2"
| "extent (Zero a n) = unat n"

fun target :: "piece \<Rightarrow> u32" where
  "target (Copy fo a n) = a"
| "target (Zero a n) = a"

definition same_file :: "cfile \<Rightarrow> cfile \<Rightarrow> bool" where
  "same_file f g \<longleftrightarrow> f_data g = f_data f \<and> f_bad g = f_bad f \<and> f_fd g = f_fd f"

lemma same_file_pos [simp]: "same_file f (f\<lparr>f_pos := p\<rparr>)"
  by (simp add: same_file_def)

lemma same_file_refl [simp]: "same_file f f"
  by (simp add: same_file_def)

lemma same_file_trans: "same_file f g \<Longrightarrow> same_file g h \<Longrightarrow> same_file f h"
  by (simp add: same_file_def)

lemma same_file_set_pos: "same_file f g \<Longrightarrow> g\<lparr>f_pos := p\<rparr> = f\<lparr>f_pos := p\<rparr>"
  by (cases f; cases g) (simp add: same_file_def)

lemma same_fileI: "f_data g = f_data f \<and> f_bad g = f_bad f \<and> f_fd g = f_fd f \<Longrightarrow> same_file f g"
  by (simp add: same_file_def)

lemma read_exact_same: "read_exact n f = (r, g) \<Longrightarrow> same_file f g"
  by (rule same_fileI) (rule read_exact_data)

lemma read_file_same: "read_file n f = (r, g) \<Longrightarrow> same_file f g"
  using read_file_data [of n f] by (auto simp: same_file_def)

lemma lseek_same: "same_file f (lseek f off wh)"
  by (simp add: same_file_def)

lemma even_word_align: "even (unat ((n :: u32) + (n AND 1)))"
proof -
  have "unat (n + (n AND 1)) = (unat n + unat n mod 2) mod 2 ^ 32"
    by (simp add: unat_word_ariths unat_and_one)
  moreover have "even ((unat n + unat n mod 2) mod 2 ^ 32)"
    by (subst dvd_mod_iff) (simp_all add: mod_2_eq_odd)
  ultimately show ?thesis by (simp only:)
qed

lemma deliverable_same:
  assumes "same_file f g"
  shows "deliverable g off p = deliverable f off p" "truncated g off p = truncated f off p"
proof -
  have "f_data g = f_data f" using assms by (simp add: same_file_def)
  then show "deliverable g off p = deliverable f off p" "truncated g off p = truncated f off p"
    by (cases p; simp only: deliverable.simps truncated.simps same_file_set_pos [OF assms])+
qed

lemma agrees_refl [simp]: "agrees m (\<lambda>_. Kept) m"
  by (simp add: agrees_def)

lemma put_piece_Kept:
  "put_piece data off p c x = Kept \<Longrightarrow> c x = Kept"
  by (cases p) (auto simp: Let_def split: if_splits)

lemma put_piece_outside:
  "\<not> in_region x (target p) (extent p) \<Longrightarrow> put_piece data off p c x = c x"
  by (cases p) (auto simp: in_region_def Let_def odd_iff_mod_2_eq_one)

lemma put_plan_outside:
  "\<forall>p \<in> set ps. \<not> in_region x (target p) (extent p) \<Longrightarrow> put_plan data off ps c x = c x"
  by (induction ps arbitrary: c) (auto simp: put_plan_def put_piece_outside)

text \<open>Storing the bytes of a piece realises its cells.\<close>

lemma agrees_copy:
  assumes "agrees m0 c m" "bs = take (unat n) (drop (unat (off + fo)) data)" "length bs = unat n"
  shows "agrees m0 (put_piece data off (Copy fo a n) c) (store_bytes m a (padded tmp bs))"
  unfolding agrees_def
proof
  fix x
  define i where "i = unat (x - a)"
  have byte: "bs ! i = data ! (unat (off + fo) + i)" if "i < unat n"
    using that assms(2,3) by simp
  consider "i < unat n" | "i = unat n" "odd (unat n)" | "unat n + unat n mod 2 \<le> i"
    by (cases "odd (unat n)"; cases "i < unat n"; cases "i = unat n")
      (simp_all add: odd_iff_mod_2_eq_one even_iff_mod_2_eq_zero)
  then show "case put_piece data off (Copy fo a n) c x of
      Byte b \<Rightarrow> store_bytes m a (padded tmp bs) x = b
    | Junk \<Rightarrow> True | Kept \<Rightarrow> store_bytes m a (padded tmp bs) x = m0 x"
  proof cases
    case 1
    then have "store_bytes m a (padded tmp bs) x = bs ! i"
      using assms(3) by (auto simp: store_bytes_def in_region_def padded_def nth_append simp flip: i_def)
    with 1 byte show ?thesis by (simp add: Let_def flip: i_def)
  next
    case 2
    then show ?thesis by (simp add: Let_def flip: i_def)
  next
    case 3
    then have e1: "store_bytes m a (padded tmp bs) x = m x"
      by (auto simp: store_bytes_def in_region_def length_padded assms(3) simp flip: i_def)
    have e2: "put_piece data off (Copy fo a n) c x = c x"
      using 3 by (auto simp: Let_def odd_iff_mod_2_eq_one simp flip: i_def)
    show ?thesis
      unfolding e1 e2 using assms(1) by (simp add: agrees_def)
  qed
qed

lemma agrees_zero:
  "agrees m0 c m \<Longrightarrow>
    agrees m0 (put_piece data off (Zero a n) c) (store_bytes m a (replicate (unat n) 0))"
  by (auto simp: agrees_def store_bytes_def in_region_def split: cell.splits)

text \<open>
  The bytes a piece promises are in memory; a later piece spares an earlier one when it writes none of
  these bytes (it may overwrite the pad byte behind them).
\<close>

fun core :: "piece \<Rightarrow> nat" where
  "core (Copy fo a n) = unat n"
| "core (Zero a n) = unat n"

fun landed :: "bytes \<Rightarrow> u32 \<Rightarrow> mem \<Rightarrow> piece \<Rightarrow> bool" where
  "landed data off m (Copy fo a n) \<longleftrightarrow>
     load_bytes m a (unat n) = take (unat n) (drop (unat (off + fo)) data)"
| "landed data off m (Zero a n) \<longleftrightarrow> load_bytes m a (unat n) = replicate (unat n) 0"

definition spares :: "piece \<Rightarrow> piece \<Rightarrow> bool" where
  "spares p q \<longleftrightarrow> (\<forall>x. \<not> (in_region x (target p) (core p) \<and> in_region x (target q) (extent q)))"

lemma spares_apart: "apart (target q) (extent q) (target p) (core p) \<Longrightarrow> spares p q"
  using apart_not_in unfolding spares_def by blast

lemma spares_empty: "core p = 0 \<or> extent q = 0 \<Longrightarrow> spares p q"
  by (auto simp: spares_def)

lemma plan_cells_at:
  assumes "sorted_wrt spares ps" "p \<in> set ps" "in_region x (target p) (core p)"
  shows "\<exists>c. plan_cells data off ps x = put_piece data off p c x"
proof -
  obtain xs ys where ps: "ps = xs @ p # ys" using split_list [OF assms(2)] by blast
  then have "\<forall>q \<in> set ys. \<not> in_region x (target q) (extent q)"
    using assms(1,3) by (auto simp: sorted_wrt_append spares_def)
  then have "plan_cells data off ps x = put_piece data off p (put_plan data off xs (\<lambda>_. Kept)) x"
    using put_plan_outside [of ys x data off] unfolding ps plan_cells_def put_plan_def by simp
  then show ?thesis by blast
qed

lemma agrees_landed:
  assumes "agrees m0 (plan_cells (f_data f) off ps) m" "sorted_wrt spares ps" "p \<in> set ps"
    and "deliverable f off p"
  shows "landed (f_data f) off m p"
proof (cases p)
  case (Copy fo a n)
  have "m (a + of_nat i) = f_data f ! (unat (off + fo) + i)" if "i < unat n" for i
  proof -
    have i: "unat (of_nat i :: u32) = i" using that unat_u32_less [of n] by (simp add: unat_of_nat)
    then have "in_region (a + of_nat i) (target p) (core p)" using that Copy by (simp add: in_region_def)
    then obtain c where "plan_cells (f_data f) off ps (a + of_nat i) =
        put_piece (f_data f) off p c (a + of_nat i)"
      using plan_cells_at [OF assms(2,3)] by blast
    then have "plan_cells (f_data f) off ps (a + of_nat i) = Byte (f_data f ! (unat (off + fo) + i))"
      using that i Copy by simp
    then show ?thesis using assms(1) by (auto simp: agrees_def dest!: spec [of _ "a + of_nat i"])
  qed
  moreover have "unat (off + fo) + unat n \<le> length (f_data f)" using assms(4) Copy by simp
  ultimately show ?thesis
    unfolding Copy by (auto simp: load_bytes_def intro!: nth_equalityI)
next
  case (Zero a n)
  have "m (a + of_nat i) = 0" if "i < unat n" for i
  proof -
    have i: "unat (of_nat i :: u32) = i" using that unat_u32_less [of n] by (simp add: unat_of_nat)
    then have "in_region (a + of_nat i) (target p) (core p)" using that Zero by (simp add: in_region_def)
    then obtain c where "plan_cells (f_data f) off ps (a + of_nat i) =
        put_piece (f_data f) off p c (a + of_nat i)"
      using plan_cells_at [OF assms(2,3)] by blast
    then have "plan_cells (f_data f) off ps (a + of_nat i) = Byte 0"
      using that i Zero by simp
    then show ?thesis using assms(1) by (auto simp: agrees_def dest!: spec [of _ "a + of_nat i"])
  qed
  then show ?thesis
    unfolding Zero by (auto simp: load_bytes_def intro!: nth_equalityI)
qed

section \<open>Performing a piece\<close>

text \<open>
  Both loaders read a piece the same way: seek to its place in the payload, read, and give up when
  fewer bytes came than the header promised.
\<close>

definition load_at ::
  "(cfile \<Rightarrow> char_far \<Rightarrow> u32 \<Rightarrow> u32 \<Rightarrow> 'w \<Rightarrow> (stop + (u32 \<times> cfile \<times> 'w)) option) \<Rightarrow>
   cfile \<Rightarrow> char_far \<Rightarrow> u32 \<Rightarrow> u32 \<Rightarrow> u32 \<Rightarrow> 'w \<Rightarrow> (stop + (cfile \<times> 'w)) option" where
  "load_at load f buf pos addr n w =
     map_option (\<lambda>r. bindR r (\<lambda>(got, f1, w1).
         if got \<noteq> n then Inl (Exit_failure Err_reading) else Inr (f1, w1)))
       (load (lseek f pos Seek_set) buf addr n w)"

text \<open>
  Carrying out a plan piece by piece. The loaders do not contain this function: their loops and
  sequences of calls are proved equal to it.
\<close>

fun run_plan ::
  "(char_far \<Rightarrow> u32 \<Rightarrow> u8 \<Rightarrow> u32 \<Rightarrow> 'w \<Rightarrow> stop + 'w) \<Rightarrow>
   (cfile \<Rightarrow> char_far \<Rightarrow> u32 \<Rightarrow> u32 \<Rightarrow> 'w \<Rightarrow> (stop + (u32 \<times> cfile \<times> 'w)) option) \<Rightarrow>
   char_far \<Rightarrow> u32 \<Rightarrow> cfile \<Rightarrow> piece list \<Rightarrow> 'w \<Rightarrow> (stop + (cfile \<times> 'w)) option" where
  "run_plan fill load p off f [] w = Some (Inr (f, w))"
| "run_plan fill load p off f (Copy fo a n # ps) w =
     (case load_at load f p (off + fo) a n w of
        None \<Rightarrow> None
      | Some (Inl e) \<Rightarrow> Some (Inl e)
      | Some (Inr (f1, w1)) \<Rightarrow> run_plan fill load p off f1 ps w1)"
| "run_plan fill load p off f (Zero a n # ps) w =
     (case fill p a 0 n w of
        Inl e \<Rightarrow> Some (Inl e)
      | Inr w1 \<Rightarrow> run_plan fill load p off f ps w1)"

lemma run_plan_total:
  assumes "\<And>g a n v. load g p a n v \<noteq> None"
  shows "run_plan fill load p off f ps w \<noteq> None"
proof (induction ps arbitrary: f w)
  case (Cons x ps)
  have "load_at load f p (off + fo) a n w \<noteq> None" for fo a n
    using assms by (simp add: load_at_def)
  then show ?case
    using Cons by (cases x) (auto split: option.splits sum.splits)
qed simp

context far_memory begin

lemma load_at_ok:
  assumes "mapped p w" "deliverable f off (Copy fo a n)" "same_file f0 f"
    and "agrees m0 c (cmem p w)"
  shows "\<exists>g v. load_at load f p (off + fo) a n w = Some (Inr (g, v)) \<and> same_file f0 g \<and>
    keeps w v \<and> agrees m0 (put_piece (f_data f0) off (Copy fo a n) c) (cmem p v)"
proof -
  let ?f = "f\<lparr>f_pos := unat (off + fo)\<rparr>"
  have seek: "lseek f (off + fo) Seek_set = ?f"
    using assms(2) by (simp add: lseek_set)
  have len: "length (pending (unat n) ?f) = unat n"
    using assms(2) by (auto simp: length_pending min_def)
  obtain v where v: "load ?f p a n w = Some (Inr (of_nat (unat n), ?f\<lparr>f_pos := f_pos ?f + unat n\<rparr>, v))"
    "keeps w v" "cmem p v = store_bytes (cmem p w) a (padded (junk w) (pending (unat n) ?f))"
    using load_law [of p w n ?f a] assms(1,2) unfolding len by auto
  have "agrees m0 (put_piece (f_data f0) off (Copy fo a n) c) (cmem p v)"
    unfolding v(3)
    by (rule agrees_copy [OF assms(4)]) (use len assms(3) in \<open>simp_all add: pending_def same_file_def\<close>)
  moreover have "same_file f0 (?f\<lparr>f_pos := f_pos ?f + unat n\<rparr>)"
    using assms(3) by (simp add: same_file_def)
  ultimately show ?thesis
    using v(1,2) by (simp add: load_at_def seek)
qed

lemma load_at_truncated:
  assumes "mapped p w" "truncated f off (Copy fo a n)"
  shows "load_at load f p (off + fo) a n w = Some (Inl (Exit_failure Err_reading))"
proof -
  let ?f = "f\<lparr>f_pos := unat (off + fo)\<rparr>"
  have seek: "lseek f (off + fo) Seek_set = ?f"
    using assms(2) by (simp add: lseek_set)
  have less: "length (pending (unat n) ?f) < unat n"
    using assms(2) by (auto simp: length_pending word_neq_0_conv word_less_nat_alt)
  then have "unat (of_nat (length (pending (unat n) ?f)) :: u32) < unat n"
    using unat_u32_less [of n] by (simp add: unat_of_nat)
  then have "of_nat (length (pending (unat n) ?f)) \<noteq> n" by auto
  then show ?thesis
    using load_law [of p w n ?f a] assms by (auto simp: load_at_def seek)
qed

lemma fill_ok:
  assumes "mapped p w" "even (unat n)" "agrees m0 c (cmem p w)"
  shows "\<exists>v. fill p a 0 n w = Inr v \<and> keeps w v \<and>
    agrees m0 (put_piece data off (Zero a n) c) (cmem p v)"
  using fill_law [OF assms(1,2), of a 0] agrees_zero [OF assms(3), of data off a n] by auto

lemma run_plan_ok:
  assumes "mapped p w" "\<forall>x \<in> set ps. deliverable f off x" "same_file f0 f"
    and "agrees m0 c (cmem p w)"
  shows "\<exists>g v. run_plan fill load p off f ps w = Some (Inr (g, v)) \<and> same_file f0 g \<and>
    keeps w v \<and> agrees m0 (put_plan (f_data f0) off ps c) (cmem p v)"
  using assms
proof (induction ps arbitrary: f w c)
  case Nil
  then show ?case using keeps_refl by (simp add: put_plan_def)
next
  case (Cons x ps)
  have dl: "deliverable f off x" using Cons.prems(2) by simp
  obtain g v where g: "same_file f0 g" "keeps w v"
    "agrees m0 (put_piece (f_data f0) off x c) (cmem p v)"
    "run_plan fill load p off f (x # ps) w = run_plan fill load p off g ps v"
  proof (cases x)
    case (Copy fo a n)
    then show thesis
      using load_at_ok [where off = off and fo = fo and a = a and n = n, OF Cons.prems(1) _ Cons.prems(3,4)] dl that by fastforce
  next
    case (Zero a n)
    then show thesis
      using fill_ok [where n = n and data = "f_data f0" and off = off and a = a, OF Cons.prems(1) _ Cons.prems(4)] dl that Cons.prems(3)
      by fastforce
  qed
  have same: "same_file f g"
    using g(1) Cons.prems(3) by (simp add: same_file_def)
  have "\<forall>y \<in> set ps. deliverable g off y"
    using Cons.prems(2) by (simp add: deliverable_same [OF same])
  from Cons.IH [OF keeps_mapped [OF g(2) Cons.prems(1)] this g(1,3)] show ?case
    using g(2,4) keeps_trans by (auto simp: put_plan_def)
qed

lemma run_plan_stop:
  assumes "mapped p w" "\<forall>x \<in> set xs. deliverable f off x" "truncated f off x"
  shows "run_plan fill load p off f (xs @ x # ys) w = Some (Inl (Exit_failure Err_reading))"
  using assms
proof (induction xs arbitrary: f w)
  case Nil
  then show ?case using load_at_truncated [of p w f off] by (cases x) auto
next
  case (Cons z xs)
  have dl: "deliverable f off z" using Cons.prems(2) by simp
  obtain g v where g: "same_file f g" "keeps w v"
    "run_plan fill load p off f (z # xs @ x # ys) w = run_plan fill load p off g (xs @ x # ys) v"
  proof (cases z)
    case (Copy fo a n)
    then show thesis
      using load_at_ok [where off = off and fo = fo and a = a and n = n and f = f, OF Cons.prems(1) _ same_file_refl agrees_refl] dl that
      by fastforce
  next
    case (Zero a n)
    then obtain v where "fill p a 0 n w = Inr v" "keeps w v"
      using fill_ok [where n = n and a = a, OF Cons.prems(1) _ agrees_refl] dl by fastforce
    then show thesis using that [of f v] Zero by simp
  qed
  have "\<forall>y \<in> set xs. deliverable g off y" "truncated g off x"
    using Cons.prems(2,3) by (simp_all add: deliverable_same [OF g(1)])
  then show ?case
    using Cons.IH [OF keeps_mapped [OF g(2) Cons.prems(1)]] g(3) by simp
qed

end

section \<open>The loader interface\<close>

text \<open>
  \<open>struct ldops\<close>: the operations \<open>fullstub\<close> calls. A handle \<open>'k\<close> comes from \<open>read_headers\<close>; \<open>'s\<close> is
  the static data of the loader. \<open>plan\<close> is the contract between headers and loading: what
  \<open>read_sections\<close> will do, as a function of the handle and the statics. Loading carries out the plan
  when the file delivers all of it, and stops with a diagnostic when a piece is cut off after pieces that
  were delivered.
\<close>

locale ldops =
  fixes read_headers :: "cfile \<Rightarrow> 's \<Rightarrow> (stop + (diag + 'k)) \<times> cfile \<times> 's"
    and get_va :: "'k \<Rightarrow> u32"
    and get_length :: "'k \<Rightarrow> u32"
    and get_entry :: "'k \<Rightarrow> u32"
    and read_sections :: "'k \<Rightarrow> char_far \<Rightarrow> cfile \<Rightarrow> u32 \<Rightarrow> 's \<Rightarrow> 'w \<Rightarrow>
      (stop + (cfile \<times> 'w)) option"
    and plan :: "'k \<Rightarrow> 's \<Rightarrow> piece list"
    and mapped :: "char_far \<Rightarrow> 'w \<Rightarrow> bool"
    and keeps :: "'w \<Rightarrow> 'w \<Rightarrow> bool"
    and cmem :: "char_far \<Rightarrow> 'w \<Rightarrow> mem"
  assumes headers_keep_file: "read_headers f s = (r, g, t) \<Longrightarrow> same_file f g"
    and sections_run: "mapped p w \<Longrightarrow> \<forall>x \<in> set (plan h s). deliverable f off x \<Longrightarrow>
      \<exists>g v. read_sections h p f off s w = Some (Inr (g, v)) \<and> same_file f g \<and> keeps w v \<and>
        agrees (cmem p w) (plan_cells (f_data f) off (plan h s)) (cmem p v)"
    and sections_stop: "mapped p w \<Longrightarrow> plan h s = xs @ x # ys \<Longrightarrow>
      \<forall>y \<in> set xs. deliverable f off y \<Longrightarrow> truncated f off x \<Longrightarrow>
      read_sections h p f off s w = Some (Inl (Exit_failure Err_reading))"
begin

text \<open>Memory outside of every range of the plan is left alone.\<close>

lemma sections_frame:
  assumes "mapped p w" "\<forall>y \<in> set (plan h s). deliverable f off y"
    and "read_sections h p f off s w = Some (Inr (g, v))"
    and "\<forall>y \<in> set (plan h s). \<not> in_region x (target y) (extent y)"
  shows "cmem p v x = cmem p w x"
proof -
  have "agrees (cmem p w) (plan_cells (f_data f) off (plan h s)) (cmem p v)"
    using sections_run [OF assms(1,2)] assms(3) by auto
  moreover have "plan_cells (f_data f) off (plan h s) x = Kept"
    unfolding plan_cells_def using assms(4) by (rule put_plan_outside)
  ultimately show ?thesis by (auto simp: agrees_def dest!: spec [of _ x])
qed

text \<open>When no piece is damaged by a later one, every piece is in memory at the end.\<close>

lemma sections_land:
  assumes "mapped p w" "\<forall>y \<in> set (plan h s). deliverable f off y" "sorted_wrt spares (plan h s)"
  shows "\<exists>g v. read_sections h p f off s w = Some (Inr (g, v)) \<and> keeps w v \<and>
    (\<forall>y \<in> set (plan h s). landed (f_data f) off (cmem p v) y) \<and>
    (\<forall>x. (\<forall>y \<in> set (plan h s). \<not> in_region x (target y) (extent y)) \<longrightarrow> cmem p v x = cmem p w x)"
proof -
  obtain g v where run: "read_sections h p f off s w = Some (Inr (g, v))" "keeps w v"
    "agrees (cmem p w) (plan_cells (f_data f) off (plan h s)) (cmem p v)"
    using sections_run [OF assms(1,2)] by blast
  have "landed (f_data f) off (cmem p v) y" if "y \<in> set (plan h s)" for y
    using agrees_landed [OF run(3) assms(3) that] assms(2) that by blast
  with run show ?thesis
    using sections_frame [OF assms(1,2) run(1)] by blast
qed

end

end
