(* ===== verification/Coff.thy ===== *)
theory Coff
  imports Loader
begin

text \<open>
  \<open>coff.c\<close>: the COFF loader. The section headers live in the static array \<open>scns\<close>, kept here as the raw
  120 bytes that \<open>read\<close> fills; a handle keeps the length and the entry point.
\<close>

section \<open>Headers\<close>

record coff_header =
  f_magic :: u16
  f_nscns :: u16
  f_timdat :: u32
  f_symptr :: u32
  f_nsyms :: u32
  f_opthdr :: u16
  f_flags :: u16

definition coff_header_members :: "ctype list" where
  "coff_header_members = [U16, U16, U32, U32, U32, U16, U16]"

definition parse_coff_header :: "bytes \<Rightarrow> coff_header" where
  "parse_coff_header bs = \<lparr>f_magic = get16 bs 0, f_nscns = get16 bs 2, f_timdat = get32 bs 4,
     f_symptr = get32 bs 8, f_nsyms = get32 bs 12, f_opthdr = get16 bs 16, f_flags = get16 bs 18\<rparr>"

record opt_header =
  o_magic :: u16
  o_vstamp :: u16
  o_tsize :: u32
  o_dsize :: u32
  o_bsize :: u32
  o_entry :: u32
  o_text_start :: u32
  o_data_start :: u32

definition opt_header_members :: "ctype list" where
  "opt_header_members = [U16, U16, U32, U32, U32, U32, U32, U32]"

definition parse_opt_header :: "bytes \<Rightarrow> opt_header" where
  "parse_opt_header bs = \<lparr>o_magic = get16 bs 0, o_vstamp = get16 bs 2, o_tsize = get32 bs 4,
     o_dsize = get32 bs 8, o_bsize = get32 bs 12, o_entry = get32 bs 16, o_text_start = get32 bs 20,
     o_data_start = get32 bs 24\<rparr>"

record scn_header =
  s_name :: bytes
  s_paddr :: u32
  s_vaddr :: u32
  s_size :: u32
  s_scnptr :: u32
  s_relptr :: u32
  s_lnnoptr :: u32
  s_nreloc :: u16
  s_nlnno :: u16
  s_flags :: u32

definition scn_header_members :: "ctype list" where
  "scn_header_members = [Chars 8, U32, U32, U32, U32, U32, U32, U16, U16, U32]"

definition parse_scn_header :: "bytes \<Rightarrow> scn_header" where
  "parse_scn_header bs = \<lparr>s_name = take 8 bs, s_paddr = get32 bs 8, s_vaddr = get32 bs 12,
     s_size = get32 bs 16, s_scnptr = get32 bs 20, s_relptr = get32 bs 24, s_lnnoptr = get32 bs 28,
     s_nreloc = get16 bs 32, s_nlnno = get16 bs 34, s_flags = get32 bs 36\<rparr>"

text \<open>The array \<open>scns\<close> and its three entries.\<close>

type_synonym scns = bytes

definition SCT_TEXT :: nat where "SCT_TEXT = 0"
definition SCT_DATA :: nat where "SCT_DATA = 1"
definition SCT_BSS :: nat where "SCT_BSS = 2"
definition SCT_MAX :: nat where "SCT_MAX = 3"

definition scn :: "scns \<Rightarrow> nat \<Rightarrow> scn_header" where
  "scn a i = parse_scn_header (take 40 (drop (40 * i) a))"

definition scns_zero :: scns where
  "scns_zero = replicate 120 0"

record coff_h =
  h_length :: u32
  h_entry :: u32

section \<open>Operations\<close>

text \<open>The last \<open>read\<close> fills \<open>scns\<close> with what came, even when it is too little.\<close>

definition read_coff_headers ::
  "'h env \<Rightarrow> cfile \<Rightarrow> scns \<Rightarrow> (stop + (diag + coff_h)) \<times> cfile \<times> scns" where
  "read_coff_headers E f a = (case read_exact 20 f of
      (None, f1) \<Rightarrow> (Inr (Inl Bad_coff_header), f1, a)
    | (Some b1, f1) \<Rightarrow>
        let chdr = parse_coff_header b1 in
        if unat (f_opthdr chdr) < 28 then (Inr (Inl Opt_header_mismatch), f1, a) else
        (case read_exact 28 f1 of
           (None, f2) \<Rightarrow> (Inr (Inl Bad_coff_opt_header), f2, a)
         | (Some b2, f2) \<Rightarrow>
             let ohdr = parse_opt_header b2;
                 f3 = (if 28 < unat (f_opthdr chdr)
                       then lseek f2 (ucast (f_opthdr chdr) - 28) Seek_cur else f2) in
             (case read_file (40 * SCT_MAX) f3 of
                (None, f4) \<Rightarrow> (Inr (Inl No_section_headers), f4, a)
              | (Some b3, f4) \<Rightarrow>
                  let a1 = b3 @ drop (length b3) a in
                  if length b3 \<noteq> 40 * SCT_MAX then (Inr (Inl No_section_headers), f4, a1) else
                  if \<not> malloc_ok E 8 then (Inl Assert_failed, f4, a1) else
                  (Inr (Inr \<lparr>h_length = s_vaddr (scn a1 SCT_BSS) + s_size (scn a1 SCT_BSS),
                     h_entry = o_entry ohdr\<rparr>), f4, a1))))"

definition get_coff_va :: "coff_h \<Rightarrow> u32" where
  "get_coff_va h = 0"

definition get_coff_length :: "coff_h \<Rightarrow> u32" where
  "get_coff_length h = h_length h"

definition get_coff_entry :: "coff_h \<Rightarrow> u32" where
  "get_coff_entry h = h_entry h"

definition read_section ::
  "'h env \<Rightarrow> scns \<Rightarrow> char_far \<Rightarrow> cfile \<Rightarrow> u32 \<Rightarrow> nat \<Rightarrow> 'h world \<Rightarrow>
    (stop + (cfile \<times> 'h world)) option" where
  "read_section E a buf f coffset sc w =
     load_at (long_read E) f buf (coffset + s_scnptr (scn a sc)) (s_vaddr (scn a sc))
       (s_size (scn a sc)) w"

definition read_coff_sections ::
  "'h env \<Rightarrow> coff_h \<Rightarrow> char_far \<Rightarrow> cfile \<Rightarrow> u32 \<Rightarrow> scns \<Rightarrow> 'h world \<Rightarrow>
    (stop + (cfile \<times> 'h world)) option" where
  "read_coff_sections E h ptr f offset a w =
     (case read_section E a ptr f offset SCT_TEXT w of
        None \<Rightarrow> None
      | Some (Inl e) \<Rightarrow> Some (Inl e)
      | Some (Inr (f1, w1)) \<Rightarrow>
          (case read_section E a ptr f1 offset SCT_DATA w1 of
             None \<Rightarrow> None
           | Some (Inl e) \<Rightarrow> Some (Inl e)
           | Some (Inr (f2, w2)) \<Rightarrow>
               let bss = scn a SCT_BSS in
               Some (bindR (farmemset E ptr (s_vaddr bss) 0 (s_size bss + (s_size bss AND 1)) w2)
                 (\<lambda>w3. Inr (f2, w3)))))"

section \<open>The contract of the loader\<close>

definition coff_plan :: "coff_h \<Rightarrow> scns \<Rightarrow> piece list" where
  "coff_plan h a =
     (let t = scn a SCT_TEXT; d = scn a SCT_DATA; b = scn a SCT_BSS in
       [Copy (s_scnptr t) (s_vaddr t) (s_size t), Copy (s_scnptr d) (s_vaddr d) (s_size d),
        Zero (s_vaddr b) (s_size b + (s_size b AND 1))])"

lemma coff_headers_keep_file:
  assumes "read_coff_headers E f a = (r, g, t)"
  shows "same_file f g"
proof -
  obtain r1 f1 where 1: "read_exact 20 f = (r1, f1)" by fastforce
  obtain r2 f2 where 2: "read_exact 28 f1 = (r2, f2)" by fastforce
  obtain r3 f3 where 3: "read_file (40 * SCT_MAX) f2 = (r3, f3)" by fastforce
  obtain r4 f4 where 4: "read_file (40 * SCT_MAX)
      (lseek f2 (ucast (f_opthdr (parse_coff_header (the r1))) - 28) Seek_cur) = (r4, f4)" by fastforce
  have "same_file f f1" "same_file f f2" "same_file f f3" "same_file f f4"
    using read_exact_same [OF 1] read_exact_same [OF 2] read_file_same [OF 3] read_file_same [OF 4]
      lseek_same [of f2] by (meson same_file_trans)+
  moreover have "g = f1 \<or> g = f2 \<or> g = f3 \<or> g = f4"
    using assms 1 2 3 4
    by (auto simp: read_coff_headers_def Let_def split: option.splits if_splits prod.splits)
  ultimately show ?thesis by blast
qed

lemma read_coff_sections_plan:
  "read_coff_sections E h p f off a w =
     run_plan (farmemset E) (long_read E) p off f (coff_plan h a) w"
  by (simp add: read_coff_sections_def read_section_def coff_plan_def Let_def bindR_def
      split: option.splits sum.splits prod.splits)

lemma coff_sections_run:
  assumes "far_mapped E D p w" "\<forall>x \<in> set (coff_plan h a). deliverable f off x"
  shows "\<exists>g v. read_coff_sections E h p f off a w = Some (Inr (g, v)) \<and> same_file f g \<and>
    far_effect E w v \<and>
    agrees (client_mem D p w) (plan_cells (f_data f) off (coff_plan h a)) (client_mem D p v)"
  unfolding read_coff_sections_plan plan_cells_def
  by (rule fm.run_plan_ok [OF assms same_file_refl agrees_refl])

lemma coff_sections_stop:
  assumes "far_mapped E D p w" "coff_plan h a = xs @ x # ys"
    and "\<forall>y \<in> set xs. deliverable f off y" "truncated f off x"
  shows "read_coff_sections E h p f off a w = Some (Inl (Exit_failure Err_reading))"
  unfolding read_coff_sections_plan assms(2) by (rule fm.run_plan_stop [OF assms(1,3,4)])

interpretation coff: ldops "read_coff_headers E" get_coff_va get_coff_length get_coff_entry
  "read_coff_sections E" coff_plan "far_mapped E D" "far_effect E" "client_mem D"
  for E :: "'h env" and D :: "'h view"
  by unfold_locales (rule coff_headers_keep_file coff_sections_run coff_sections_stop; assumption)+

section \<open>Images of the headers\<close>

text \<open>What a linker writes for a header; \<open>read\<close> into the structure recovers it.\<close>

definition coff_header_image :: "coff_header \<Rightarrow> bytes" where
  "coff_header_image h = bytes16 (f_magic h) @ bytes16 (f_nscns h) @ bytes32 (f_timdat h) @
     bytes32 (f_symptr h) @ bytes32 (f_nsyms h) @ bytes16 (f_opthdr h) @ bytes16 (f_flags h)"

definition opt_header_image :: "opt_header \<Rightarrow> bytes" where
  "opt_header_image h = bytes16 (o_magic h) @ bytes16 (o_vstamp h) @ bytes32 (o_tsize h) @
     bytes32 (o_dsize h) @ bytes32 (o_bsize h) @ bytes32 (o_entry h) @ bytes32 (o_text_start h) @
     bytes32 (o_data_start h)"

definition scn_header_image :: "scn_header \<Rightarrow> bytes" where
  "scn_header_image h = s_name h @ bytes32 (s_paddr h) @ bytes32 (s_vaddr h) @ bytes32 (s_size h) @
     bytes32 (s_scnptr h) @ bytes32 (s_relptr h) @ bytes32 (s_lnnoptr h) @ bytes16 (s_nreloc h) @
     bytes16 (s_nlnno h) @ bytes32 (s_flags h)"

lemma length_header_images [simp]:
  "length (coff_header_image c) = 20" "length (opt_header_image o1) = 28"
  "length (s_name s) = 8 \<Longrightarrow> length (scn_header_image s) = 40"
  by (simp_all add: coff_header_image_def opt_header_image_def scn_header_image_def)

lemma header_sizes:
  "struct_size coff_header_members = 20 \<and> struct_size opt_header_members = 28 \<and>
   struct_size scn_header_members = 40"
  by code_simp

lemma parse_coff_header_image: "parse_coff_header (coff_header_image h) = h"
  by (simp add: parse_coff_header_def coff_header_image_def get16_def get32_def)

lemma parse_opt_header_image: "parse_opt_header (opt_header_image h) = h"
  by (simp add: parse_opt_header_def opt_header_image_def get16_def get32_def)

lemma parse_scn_header_image: "length (s_name h) = 8 \<Longrightarrow> parse_scn_header (scn_header_image h) = h"
  by (simp add: parse_scn_header_def scn_header_image_def get16_def get32_def)

definition scns_image :: "scn_header \<Rightarrow> scn_header \<Rightarrow> scn_header \<Rightarrow> scns" where
  "scns_image t d b = scn_header_image t @ scn_header_image d @ scn_header_image b"

definition named :: "scn_header \<Rightarrow> bool" where
  "named s \<longleftrightarrow> length (s_name s) = 8"

lemma length_scns_image: "named t \<Longrightarrow> named d \<Longrightarrow> named b \<Longrightarrow> length (scns_image t d b) = 120"
  by (simp add: scns_image_def named_def)

lemma scn_scns_image:
  assumes "named t" "named d" "named b"
  shows "scn (scns_image t d b) SCT_TEXT = t" "scn (scns_image t d b) SCT_DATA = d"
    "scn (scns_image t d b) SCT_BSS = b"
  using assms by (simp_all add: scn_def scns_image_def named_def SCT_TEXT_def SCT_DATA_def
      SCT_BSS_def parse_scn_header_image)

text \<open>The handle of a well-formed file.\<close>

lemma coff_headers_ok:
  assumes "drop (f_pos f) (f_data f) =
      coff_header_image c @ opt_header_image o1 @ extra @ scns_image t d b @ rest"
    and "f_bad f = []" "unat (f_opthdr c) = 28 + length extra" "named t" "named d" "named b"
    and "f_pos f + 48 + length extra < 2 ^ 31" "malloc_ok E 8" "length a = 120"
  shows "read_coff_headers E f a =
      (Inr (Inr \<lparr>h_length = s_vaddr b + s_size b, h_entry = o_entry o1\<rparr>),
       f\<lparr>f_pos := f_pos f + 168 + length extra\<rparr>, scns_image t d b) \<and>
    scn (scns_image t d b) SCT_TEXT = t \<and> scn (scns_image t d b) SCT_DATA = d \<and>
    scn (scns_image t d b) SCT_BSS = b"
proof -
  let ?f1 = "f\<lparr>f_pos := f_pos f + 20\<rparr>"
  let ?f2 = "f\<lparr>f_pos := f_pos f + 48\<rparr>"
  let ?f3 = "f\<lparr>f_pos := f_pos f + 48 + length extra\<rparr>"
  have r1: "read_exact 20 f = (Some (coff_header_image c), ?f1)"
    and d1: "drop (f_pos f + 20) (f_data f) = opt_header_image o1 @ extra @ scns_image t d b @ rest"
    using read_prefix [of f "coff_header_image c"] assms(1,2) by simp_all
  have r2: "read_exact 28 ?f1 = (Some (opt_header_image o1), ?f2)"
    and d2: "drop (f_pos f + 48) (f_data f) = extra @ scns_image t d b @ rest"
    using read_prefix [of ?f1 "opt_header_image o1"] d1 assms(2) by (simp_all add: add.assoc)
  have "drop (f_pos ?f2 + length extra) (f_data ?f2) = scns_image t d b @ rest"
    using read_prefix(3) [of ?f2 extra] d2 assms(2) by simp
  then have r3: "read_file 120 ?f3 = (Some (scns_image t d b), ?f3\<lparr>f_pos := f_pos ?f3 + 120\<rparr>)"
    using read_prefix(2) [of ?f3 "scns_image t d b" rest] assms(2,4-6)
    by (simp add: length_scns_image)
  have opt: "unat (ucast (f_opthdr c) - 28 :: u32) = length extra"
    using assms(3) unat_ucast_u16 [of "f_opthdr c"] by (simp add: unat_sub_if')
  have seek: "(if 28 < unat (f_opthdr c) then lseek ?f2 (ucast (f_opthdr c) - 28) Seek_cur else ?f2) = ?f3"
  proof (cases "extra = []")
    case False
    then show ?thesis
      using assms(3,7) opt lseek_cur [of ?f2 "ucast (f_opthdr c) - 28"] by simp
  qed (use assms(3) in simp)
  show ?thesis
    using r1 r2 r3 seek assms(3-6,8,9)
    by (simp add: read_coff_headers_def parse_coff_header_image parse_opt_header_image
        SCT_MAX_def length_scns_image scn_scns_image add.commute add.left_commute)
qed

section \<open>Properties\<close>

text \<open>
  C7. On a well-formed COFF file (an optional header of at least 28 bytes, whatever follows its known
  part, then the three section headers), \<open>read_coff_headers\<close> yields a handle with the entry point of the
  optional header and the end of the third section as the length, and \<open>scns\<close> holds the three section
  headers. The headers of the file are recovered exactly as they were written.
\<close>

theorem coff_headers_read:
  assumes "drop (f_pos f) (f_data f) =
      coff_header_image c @ opt_header_image o1 @ extra @ scns_image t d b @ rest"
    and "f_bad f = []" "unat (f_opthdr c) = 28 + length extra" "named t" "named d" "named b"
    and "f_pos f + 48 + length extra < 2 ^ 31" "malloc_ok E 8" "length a = 120"
  shows "read_coff_headers E f a =
      (Inr (Inr \<lparr>h_length = s_vaddr b + s_size b, h_entry = o_entry o1\<rparr>),
       f\<lparr>f_pos := f_pos f + 168 + length extra\<rparr>, scns_image t d b) \<and>
    scn (scns_image t d b) SCT_TEXT = t \<and> scn (scns_image t d b) SCT_DATA = d \<and>
    scn (scns_image t d b) SCT_BSS = b"
  using coff_headers_ok [OF assms] .

definition sample_coff_header :: coff_header where
  "sample_coff_header = \<lparr>f_magic = 0x14c, f_nscns = 3, f_timdat = 0, f_symptr = 0, f_nsyms = 0,
     f_opthdr = 28, f_flags = 0x10f\<rparr>"

definition sample_opt_header :: opt_header where
  "sample_opt_header = \<lparr>o_magic = 0x10b, o_vstamp = 0, o_tsize = 4, o_dsize = 3, o_bsize = 9,
     o_entry = 0x1010, o_text_start = 0x1000, o_data_start = 0x2000\<rparr>"

definition sample_scn :: "u32 \<Rightarrow> u32 \<Rightarrow> u32 \<Rightarrow> scn_header" where
  "sample_scn va sz ptr = \<lparr>s_name = replicate 8 0x2e, s_paddr = va, s_vaddr = va, s_size = sz,
     s_scnptr = ptr, s_relptr = 0, s_lnnoptr = 0, s_nreloc = 0, s_nlnno = 0, s_flags = 0\<rparr>"

definition sample_scns :: scns where
  "sample_scns = scns_image (sample_scn 0x1000 4 168) (sample_scn 0x2000 3 172) (sample_scn 0x3000 9 0)"

definition sample_coff :: bytes where
  "sample_coff = coff_header_image sample_coff_header @ opt_header_image sample_opt_header @
     sample_scns @ [1, 2, 3, 4, 5, 6, 7]"

theorem coff_headers_read_witness:
  "read_coff_headers ref_env (sample_file sample_coff) scns_zero =
      (Inr (Inr \<lparr>h_length = 0x3009, h_entry = 0x1010\<rparr>),
       (sample_file sample_coff)\<lparr>f_pos := 168\<rparr>, sample_scns)"
  using coff_headers_read [of "sample_file sample_coff" sample_coff_header sample_opt_header "[]"
      "sample_scn 0x1000 4 168" "sample_scn 0x2000 3 172" "sample_scn 0x3000 9 0" "[1, 2, 3, 4, 5, 6, 7]"
      ref_env scns_zero]
  by (simp add: sample_file_def sample_coff_def sample_scns_def sample_coff_header_def named_def
      sample_scn_def sample_opt_header_def ref_env_def scns_zero_def)

text \<open>
  C8. Loading places the program: when the file delivers the sections and no section damages an earlier
  one, the text and data bytes of the file stand at their virtual addresses in the client's segment and the
  bss range is zero. Nothing outside of the three ranges is touched, each rounded up to a word: behind a text
  or data section of odd size one more byte is overwritten, with what the read buffer happened to hold, and
  behind a bss section of odd size one more byte is cleared.
\<close>

theorem coff_sections_placed:
  assumes "get_base_law E D" "D (host w) (fp_seg p) = Some ds"
    and "\<forall>x \<in> set (coff_plan h a). deliverable f off x" "sorted_wrt spares (coff_plan h a)"
    and "t = scn a SCT_TEXT" "d = scn a SCT_DATA" "b = scn a SCT_BSS"
  shows "\<exists>g v. read_coff_sections E h p f off a w = Some (Inr (g, v)) \<and> far_effect E w v \<and>
    load_bytes (client_mem D p v) (s_vaddr t) (unat (s_size t)) =
      take (unat (s_size t)) (drop (unat (off + s_scnptr t)) (f_data f)) \<and>
    load_bytes (client_mem D p v) (s_vaddr d) (unat (s_size d)) =
      take (unat (s_size d)) (drop (unat (off + s_scnptr d)) (f_data f)) \<and>
    load_bytes (client_mem D p v) (s_vaddr b) (unat (s_size b + (s_size b AND 1))) =
      replicate (unat (s_size b + (s_size b AND 1))) 0 \<and>
    (\<forall>x. \<not> in_region x (s_vaddr t) (unat (s_size t) + unat (s_size t) mod 2) \<and>
        \<not> in_region x (s_vaddr d) (unat (s_size d) + unat (s_size d) mod 2) \<and>
        \<not> in_region x (s_vaddr b) (unat (s_size b + (s_size b AND 1))) \<longrightarrow>
      client_mem D p v x = client_mem D p w x)"
proof -
  have m: "far_mapped E D p w" using assms(1,2) by (simp add: far_mapped_def)
  show ?thesis
    using coff.sections_land [OF m assms(3,4)] assms(5-7) by (auto simp: coff_plan_def Let_def)
qed

lemma sample_coff_scns:
  "scn sample_scns SCT_TEXT = sample_scn 0x1000 4 168" "scn sample_scns SCT_DATA = sample_scn 0x2000 3 172"
  "scn sample_scns SCT_BSS = sample_scn 0x3000 9 0"
  unfolding sample_scns_def by (simp_all add: scn_scns_image named_def sample_scn_def)

lemma sample_coff_plan:
  "coff_plan h sample_scns = [Copy 168 0x1000 4, Copy 172 0x2000 3, Zero 0x3000 10]"
  by (simp add: coff_plan_def sample_coff_scns) (simp add: sample_scn_def)

theorem coff_sections_placed_witness:
  "\<exists>g v. read_coff_sections ref_env \<lparr>h_length = 0x3009, h_entry = 0x1010\<rparr> \<lparr>fp_off = 0, fp_seg = 0x87\<rparr>
      (sample_file sample_coff) 0 sample_scns (ref_world [(0x87, sample_desc)]) = Some (Inr (g, v)) \<and>
    load_bytes (client_mem ref_view \<lparr>fp_off = 0, fp_seg = 0x87\<rparr> v) 0x1000 4 = [1, 2, 3, 4] \<and>
    load_bytes (client_mem ref_view \<lparr>fp_off = 0, fp_seg = 0x87\<rparr> v) 0x2000 3 = [5, 6, 7]"
proof -
  let ?h = "\<lparr>h_length = 0x3009, h_entry = 0x1010\<rparr>" and ?f = "sample_file sample_coff"
  have len: "length (coff_header_image sample_coff_header @ opt_header_image sample_opt_header @
      sample_scns) = 168"
    by (simp add: sample_scns_def length_scns_image named_def sample_scn_def)
  have data: "drop 168 (f_data ?f) = [1, 2, 3, 4, 5, 6, 7]"
    using len by (simp add: sample_file_def sample_coff_def)
  then have "drop 4 (drop 168 (f_data ?f)) = [5, 6, 7]" by simp
  then have data2: "drop 172 (f_data ?f) = [5, 6, 7]" by (simp only: drop_drop) simp
  have "length (f_data ?f) = 175"
    using len by (simp add: sample_file_def sample_coff_def)
  then have dl: "\<forall>x \<in> set (coff_plan ?h sample_scns). deliverable ?f 0 x"
    unfolding sample_coff_plan by (simp add: readable_def) (simp add: sample_file_def)
  have sp: "sorted_wrt spares (coff_plan ?h sample_scns)"
    unfolding sample_coff_plan by (simp add: spares_apart apart_def)
  show ?thesis
    using coff_sections_placed [OF ref_get_base_law _ dl sp refl refl refl,
        of "ref_world [(0x87, sample_desc)]" "\<lparr>fp_off = 0, fp_seg = 0x87\<rparr>" sample_desc] data data2
    unfolding sample_coff_scns by (fastforce simp: ref_view_def ref_world_def sample_scn_def)
qed

text \<open>
  C9. A COFF file that ends inside its text or data section is refused: loading stops with the read
  diagnostic instead of starting a program with missing bytes.
\<close>

theorem coff_sections_truncated:
  assumes "get_base_law E D" "D (host w) (fp_seg p) = Some ds"
    and "t = scn a SCT_TEXT" "d = scn a SCT_DATA"
    and "truncated f off (Copy (s_scnptr t) (s_vaddr t) (s_size t)) \<or>
      deliverable f off (Copy (s_scnptr t) (s_vaddr t) (s_size t)) \<and>
      truncated f off (Copy (s_scnptr d) (s_vaddr d) (s_size d))"
  shows "read_coff_sections E h p f off a w = Some (Inl (Exit_failure Err_reading))"
proof -
  have m: "far_mapped E D p w" using assms(1,2) by (simp add: far_mapped_def)
  from assms(5) show ?thesis
  proof
    assume "truncated f off (Copy (s_scnptr t) (s_vaddr t) (s_size t))"
    then show ?thesis
      using assms(3,4) by (intro coff.sections_stop [OF m, where xs = "[]"]) (auto simp: coff_plan_def Let_def)
  next
    assume "deliverable f off (Copy (s_scnptr t) (s_vaddr t) (s_size t)) \<and>
      truncated f off (Copy (s_scnptr d) (s_vaddr d) (s_size d))"
    then show ?thesis
      using assms(3,4) by (intro coff.sections_stop [OF m,
            where xs = "[Copy (s_scnptr t) (s_vaddr t) (s_size t)]"]) (auto simp: coff_plan_def Let_def)
  qed
qed

theorem coff_sections_truncated_witness:
  "read_coff_sections ref_env \<lparr>h_length = 0x3009, h_entry = 0x1010\<rparr> \<lparr>fp_off = 0, fp_seg = 0x87\<rparr>
      (sample_file [1, 2, 3]) 0 sample_scns (ref_world [(0x87, sample_desc)]) =
    Some (Inl (Exit_failure Err_reading))"
  by (rule coff_sections_truncated [OF ref_get_base_law _ refl refl])
    (unfold sample_coff_scns, simp_all add: ref_view_def ref_world_def sample_scn_def sample_file_def
      readable_def)

text \<open>
  C10. On a medium without faults, \<open>read_coff_headers\<close> answers by the length of the file alone: which of
  the four diagnostics it gives, or a handle, depends on where the file ends and on \<open>f_opthdr\<close>.
\<close>

theorem coff_headers_branches:
  assumes "f_bad f = []" "f_pos f \<le> n" "n < 2 ^ 31" "n = length (f_data f)" "malloc_ok E 8"
    and "k = unat (f_opthdr (parse_coff_header (pending 20 f)))"
    and "f_pos f + 20 + k < 2 ^ 31"
  shows "\<exists>h. fst (read_coff_headers E f a) =
    (if n < f_pos f + 20 then Inr (Inl Bad_coff_header)
     else if k < 28 then Inr (Inl Opt_header_mismatch)
     else if n < f_pos f + 48 then Inr (Inl Bad_coff_opt_header)
     else if n < f_pos f + 20 + k + 120 then Inr (Inl No_section_headers)
     else Inr (Inr h))"
proof -
  let ?f1 = "f\<lparr>f_pos := f_pos f + 20\<rparr>" and ?f2 = "f\<lparr>f_pos := f_pos f + 48\<rparr>"
  let ?f3 = "f\<lparr>f_pos := f_pos f + 20 + k\<rparr>"
  have rd: "readable i (f\<lparr>f_pos := q\<rparr>)" "readable i f" for i q
    using assms(1) by (simp_all add: readable_def)
  have r1: "read_exact 20 f = (Some (pending 20 f), ?f1)" if "f_pos f + 20 \<le> n"
    using that assms(4) rd by (simp add: read_exact_ok)
  have r2: "read_exact 28 ?f1 = (Some (pending 28 ?f1), ?f2)" if "f_pos f + 48 \<le> n"
    using that assms(4) rd by (simp add: read_exact_ok)
  have short: "fst (read_exact i (f\<lparr>f_pos := q\<rparr>)) = None" if "n < q + i" "0 < i" for i q
    using that assms(4) by (simp add: read_exact_short)
  have opt: "unat (ucast (f_opthdr (parse_coff_header (pending 20 f))) - 28 :: u32) = k - 28"
    if "28 \<le> k"
    using that assms(6) unat_ucast_u16 [of "f_opthdr (parse_coff_header (pending 20 f))"]
    by (simp add: unat_sub_if')
  have seek: "(if 28 < k then lseek ?f2 (ucast (f_opthdr (parse_coff_header (pending 20 f))) - 28) Seek_cur
      else ?f2) = ?f3" if "28 \<le> k"
    using that assms(7) opt [OF that]
      lseek_cur [of ?f2 "ucast (f_opthdr (parse_coff_header (pending 20 f))) - 28"]
    by (auto simp: not_less)
  have r3: "read_file 120 ?f3 = (Some (pending 120 ?f3), ?f3\<lparr>f_pos := f_pos ?f3 + length (pending 120 ?f3)\<rparr>)"
    using rd by (simp add: read_file_def)
  have len3: "length (pending 120 ?f3) = min 120 (n - (f_pos f + 20 + k))"
    using assms(4) by (simp add: length_pending)
  consider "n < f_pos f + 20" | "f_pos f + 20 \<le> n" "k < 28" | "f_pos f + 20 \<le> n" "28 \<le> k" "n < f_pos f + 48"
    | "28 \<le> k" "f_pos f + 48 \<le> n" by linarith
  then show ?thesis
  proof cases
    case 1
    then have "fst (read_exact 20 f) = None" using assms(4) by (simp add: read_exact_short)
    then show ?thesis using 1 by (cases "read_exact 20 f") (simp add: read_coff_headers_def)
  next
    case 2
    then show ?thesis using r1 assms(6) by (simp add: read_coff_headers_def)
  next
    case 3
    have "fst (read_exact 28 ?f1) = None" using short [of "f_pos f + 20" 28] 3 by simp
    then show ?thesis
      using 3 r1 assms(6) by (cases "read_exact 28 ?f1") (simp add: read_coff_headers_def)
  next
    case 4
    have full: "length (pending 120 ?f3) \<noteq> 120 \<longleftrightarrow> n < f_pos f + 20 + k + 120"
      unfolding len3 by (simp add: min_def) linarith
    have "fst (read_coff_headers E f a) = (if length (pending 120 ?f3) \<noteq> 120
        then Inr (Inl No_section_headers) else Inr (Inr
          \<lparr>h_length = s_vaddr (scn (pending 120 ?f3 @ drop (length (pending 120 ?f3)) a) SCT_BSS) +
             s_size (scn (pending 120 ?f3 @ drop (length (pending 120 ?f3)) a) SCT_BSS),
           h_entry = o_entry (parse_opt_header (pending 28 ?f1))\<rparr>))"
      using 4 r1 r2 r3 seek assms(5)
      by (simp add: read_coff_headers_def SCT_MAX_def Let_def flip: assms(6))
    then show ?thesis using 4 unfolding full by simp
  qed
qed

theorem coff_headers_branches_witness:
  "fst (read_coff_headers ref_env (sample_file (coff_header_image sample_coff_header)) scns_zero) =
    Inr (Inl Bad_coff_opt_header)"
proof -
  let ?f = "sample_file (coff_header_image sample_coff_header)"
  have f: "f_data ?f = coff_header_image sample_coff_header" "f_pos ?f = 0" "f_bad ?f = []"
    by (simp_all add: sample_file_def)
  then have "pending 20 ?f = coff_header_image sample_coff_header" by (simp add: pending_def)
  then have k: "28 = unat (f_opthdr (parse_coff_header (pending 20 ?f)))"
    by (simp add: parse_coff_header_image) (simp add: sample_coff_header_def)
  have pre: "f_pos ?f \<le> 20" "(20 :: nat) < 2 ^ 31" "20 = length (f_data ?f)" "malloc_ok ref_env 8"
    "f_pos ?f + 20 + 28 < 2 ^ 31"
    unfolding f by (simp_all add: ref_env_def)
  show ?thesis
    using coff_headers_branches [OF f(3) pre(1-4) k pre(5), of scns_zero] unfolding f(2) by simp
qed

end
