(* ===== verification/Elf.thy ===== *)
theory Elf
  imports Loader
begin

text \<open>
  \<open>elf.c\<close> and the part of \<open>elf.h\<close> it uses: the ELF loader. A handle keeps the entry point, the virtual
  address range spanned by the \<open>PT_LOAD\<close> segments, and the program headers.
\<close>

section \<open>Headers\<close>

record Elf32_Ehdr =
  e_ident :: bytes
  e_type :: u16
  e_machine :: u16
  e_version :: u32
  e_entry :: u32
  e_phoff :: u32
  e_shoff :: u32
  e_flags :: u32
  e_ehsize :: u16
  e_phentsize :: u16
  e_phnum :: u16
  e_shentsize :: u16
  e_shnum :: u16
  e_shstrndx :: u16

definition Elf32_Ehdr_members :: "ctype list" where
  "Elf32_Ehdr_members = [Chars 16, U16, U16, U32, U32, U32, U32, U32, U16, U16, U16, U16, U16, U16]"

definition parse_Ehdr :: "bytes \<Rightarrow> Elf32_Ehdr" where
  "parse_Ehdr bs = \<lparr>e_ident = take 16 bs, e_type = get16 bs 16, e_machine = get16 bs 18,
     e_version = get32 bs 20, e_entry = get32 bs 24, e_phoff = get32 bs 28, e_shoff = get32 bs 32,
     e_flags = get32 bs 36, e_ehsize = get16 bs 40, e_phentsize = get16 bs 42, e_phnum = get16 bs 44,
     e_shentsize = get16 bs 46, e_shnum = get16 bs 48, e_shstrndx = get16 bs 50\<rparr>"

record Elf32_Phdr =
  p_type :: u32
  p_offset :: u32
  p_vaddr :: u32
  p_paddr :: u32
  p_filesz :: u32
  p_memsz :: u32
  p_flags :: u32
  p_align :: u32

definition Elf32_Phdr_members :: "ctype list" where
  "Elf32_Phdr_members = [U32, U32, U32, U32, U32, U32, U32, U32]"

definition parse_Phdr :: "bytes \<Rightarrow> Elf32_Phdr" where
  "parse_Phdr bs = \<lparr>p_type = get32 bs 0, p_offset = get32 bs 4, p_vaddr = get32 bs 8,
     p_paddr = get32 bs 12, p_filesz = get32 bs 16, p_memsz = get32 bs 20, p_flags = get32 bs 24,
     p_align = get32 bs 28\<rparr>"

definition ELFMAG :: bytes where "ELFMAG = [0x7f, 0x45, 0x4c, 0x46]"
definition SELFMAG :: nat where "SELFMAG = 4"
definition EI_CLASS :: nat where "EI_CLASS = 4"
definition ELFCLASS32 :: u8 where "ELFCLASS32 = 1"
definition PT_LOAD :: u32 where "PT_LOAD = 1"

text \<open>The array \<open>phdr\<close> as \<open>read\<close> fills it: \<open>n\<close> headers of 32 bytes.\<close>

definition parse_phdrs :: "bytes \<Rightarrow> nat \<Rightarrow> Elf32_Phdr list" where
  "parse_phdrs bs n = map (\<lambda>i. parse_Phdr (drop (32 * i) bs)) [0..<n]"

record elf_h =
  eh_va :: u32
  eh_length :: u32
  eh_entry :: u32
  eh_phnum :: u32
  eh_phdr :: "Elf32_Phdr list"

section \<open>Operations\<close>

text \<open>
  The loop of \<open>read_elf_headers\<close>, with \<open>beg\<close> and \<open>end\<close>. Both are signed, but every comparison is with an
  unsigned operand of the same width and hence unsigned. \<open>None\<close> is a segment with another alignment.
\<close>

fun scan_phdrs :: "Elf32_Phdr list \<Rightarrow> u32 \<Rightarrow> u32 \<Rightarrow> (u32 \<times> u32) option" where
  "scan_phdrs [] bg en = Some (bg, en)"
| "scan_phdrs (ph # ps) bg en =
     (if p_type ph \<noteq> PT_LOAD then scan_phdrs ps bg en
      else if p_align ph \<noteq> 4096 then None
      else scan_phdrs ps (if p_vaddr ph < bg \<or> bg = 0 then p_vaddr ph else bg)
        (if en < p_vaddr ph + p_memsz ph then p_vaddr ph + p_memsz ph else en))"

definition read_elf_headers ::
  "'h env \<Rightarrow> cfile \<Rightarrow> unit \<Rightarrow> (stop + (diag + elf_h)) \<times> cfile \<times> unit" where
  "read_elf_headers E f s = (case read_exact 52 f of
      (None, f1) \<Rightarrow> (Inr (Inl No_elf_header), f1, s)
    | (Some b1, f1) \<Rightarrow>
        let ehdr = parse_Ehdr b1 in
        if take SELFMAG (e_ident ehdr) \<noteq> ELFMAG then (Inr (Inl Not_an_elf), f1, s) else
        if e_ident ehdr ! EI_CLASS \<noteq> ELFCLASS32 then (Inr (Inl Bad_elf_class), f1, s) else
        if e_ehsize ehdr \<noteq> 52 \<or> e_phentsize ehdr \<noteq> 32 then (Inr (Inl Bad_elf_header), f1, s) else
        let f2 = (if 52 < e_phoff ehdr then lseek f1 (e_phoff ehdr - 52) Seek_cur else f1) in
        if \<not> malloc_ok E (48 + 32 * ucast (e_phnum ehdr)) then (Inl Assert_failed, f2, s) else
        (case read_exact (32 * unat (e_phnum ehdr)) f2 of
           (None, f3) \<Rightarrow> (Inr (Inl No_phdr), f3, s)
         | (Some b2, f3) \<Rightarrow>
             let phdr = parse_phdrs b2 (unat (e_phnum ehdr)) in
             (case scan_phdrs phdr 0 0 of
                None \<Rightarrow> (Inr (Inl Bad_alignment), f3, s)
              | Some (bg, en) \<Rightarrow>
                  (Inr (Inr \<lparr>eh_va = bg, eh_length = en - bg, eh_entry = e_entry ehdr,
                     eh_phnum = ucast (e_phnum ehdr), eh_phdr = phdr\<rparr>), f3, s))))"

definition get_elf_length :: "elf_h \<Rightarrow> u32" where
  "get_elf_length h = eh_length h"

definition get_elf_entry :: "elf_h \<Rightarrow> u32" where
  "get_elf_entry h = eh_entry h"

definition get_elf_va :: "elf_h \<Rightarrow> u32" where
  "get_elf_va h = eh_va h"

text \<open>The loop of \<open>read_elf_sections\<close> over the program headers.\<close>

fun load_segments ::
  "'h env \<Rightarrow> char_far \<Rightarrow> u32 \<Rightarrow> cfile \<Rightarrow> Elf32_Phdr list \<Rightarrow> 'h world \<Rightarrow>
    (stop + (cfile \<times> 'h world)) option" where
  "load_segments E ptr offset f [] w = Some (Inr (f, w))"
| "load_segments E ptr offset f (ph # ps) w =
     (if p_type ph \<noteq> PT_LOAD then load_segments E ptr offset f ps w
      else case load_at (long_read E) f ptr (offset + p_offset ph) (p_vaddr ph) (p_filesz ph) w of
        None \<Rightarrow> None
      | Some (Inl e) \<Rightarrow> Some (Inl e)
      | Some (Inr (f1, w1)) \<Rightarrow>
          (if p_filesz ph < p_memsz ph then
             let len = p_memsz ph - p_filesz ph; len1 = len + (len AND 1) in
             (case farmemset E ptr (p_vaddr ph + p_filesz ph) 0 len1 w1 of
                Inl e \<Rightarrow> Some (Inl e)
              | Inr w2 \<Rightarrow> load_segments E ptr offset f1 ps w2)
           else load_segments E ptr offset f1 ps w1))"

definition read_elf_sections ::
  "'h env \<Rightarrow> elf_h \<Rightarrow> char_far \<Rightarrow> cfile \<Rightarrow> u32 \<Rightarrow> unit \<Rightarrow> 'h world \<Rightarrow>
    (stop + (cfile \<times> 'h world)) option" where
  "read_elf_sections E h ptr f offset s w =
     load_segments E ptr offset f (take (unat (eh_phnum h)) (eh_phdr h)) w"

section \<open>The contract of the loader\<close>

definition loads :: "Elf32_Phdr list \<Rightarrow> Elf32_Phdr list" where
  "loads ps = filter (\<lambda>ph. p_type ph = PT_LOAD) ps"

definition segment_plan :: "Elf32_Phdr \<Rightarrow> piece list" where
  "segment_plan ph = Copy (p_offset ph) (p_vaddr ph) (p_filesz ph) #
     (if p_filesz ph < p_memsz ph
      then [Zero (p_vaddr ph + p_filesz ph)
              (p_memsz ph - p_filesz ph + ((p_memsz ph - p_filesz ph) AND 1))]
      else [])"

definition elf_plan :: "elf_h \<Rightarrow> unit \<Rightarrow> piece list" where
  "elf_plan h s = concat (map segment_plan (loads (take (unat (eh_phnum h)) (eh_phdr h))))"

lemma load_segments_plan:
  "load_segments E p off f ps w =
     run_plan (farmemset E) (long_read E) p off f (concat (map segment_plan (loads ps))) w"
proof (induction ps arbitrary: f w)
  case (Cons ph ps)
  then show ?case
    by (auto simp: loads_def segment_plan_def Let_def split: option.splits sum.splits)
qed (simp add: loads_def)

lemma read_elf_sections_plan:
  "read_elf_sections E h p f off s w =
     run_plan (farmemset E) (long_read E) p off f (elf_plan h s) w"
  by (simp add: read_elf_sections_def elf_plan_def load_segments_plan)

text \<open>The position after the seek, and the checks in the order of the code.\<close>

definition phdr_pos :: "Elf32_Ehdr \<Rightarrow> cfile \<Rightarrow> cfile" where
  "phdr_pos ehdr f1 = (if 52 < e_phoff ehdr then lseek f1 (e_phoff ehdr - 52) Seek_cur else f1)"

lemma read_elf_headers_checks:
  assumes "read_exact 52 f = (Some b1, f1)" "ehdr = parse_Ehdr b1"
    and "read_exact (32 * unat (e_phnum ehdr)) (phdr_pos ehdr f1) = (r2, f3)"
  shows "read_elf_headers E f s =
    (if take SELFMAG (e_ident ehdr) \<noteq> ELFMAG then (Inr (Inl Not_an_elf), f1, s)
     else if e_ident ehdr ! EI_CLASS \<noteq> ELFCLASS32 then (Inr (Inl Bad_elf_class), f1, s)
     else if e_ehsize ehdr \<noteq> 52 \<or> e_phentsize ehdr \<noteq> 32 then (Inr (Inl Bad_elf_header), f1, s)
     else if \<not> malloc_ok E (48 + 32 * ucast (e_phnum ehdr))
       then (Inl Assert_failed, phdr_pos ehdr f1, s)
     else case r2 of None \<Rightarrow> (Inr (Inl No_phdr), f3, s)
      | Some b2 \<Rightarrow> (case scan_phdrs (parse_phdrs b2 (unat (e_phnum ehdr))) 0 0 of
          None \<Rightarrow> (Inr (Inl Bad_alignment), f3, s)
        | Some (bg, en) \<Rightarrow>
            (Inr (Inr \<lparr>eh_va = bg, eh_length = en - bg, eh_entry = e_entry ehdr,
               eh_phnum = ucast (e_phnum ehdr),
               eh_phdr = parse_phdrs b2 (unat (e_phnum ehdr))\<rparr>), f3, s)))"
  using assms(1,3)
  by (simp add: read_elf_headers_def Let_def flip: assms(2) phdr_pos_def split: option.split)

lemma read_elf_headers_short:
  "read_exact 52 f = (None, f1) \<Longrightarrow> read_elf_headers E f s = (Inr (Inl No_elf_header), f1, s)"
  by (simp add: read_elf_headers_def)

lemma elf_headers_keep_file:
  assumes "read_elf_headers E f s = (r, g, t)"
  shows "same_file f g"
proof -
  obtain r1 f1 where 1: "read_exact 52 f = (r1, f1)" by fastforce
  show ?thesis
  proof (cases r1)
    case None
    then show ?thesis
      using assms read_elf_headers_short [OF 1 [unfolded None], of E s] read_exact_same [OF 1] by simp
  next
    case (Some b1)
    let ?eh = "parse_Ehdr b1"
    obtain r3 f3 where 3: "read_exact (32 * unat (e_phnum ?eh)) (phdr_pos ?eh f1) = (r3, f3)"
      by fastforce
    have "same_file f f1" using read_exact_same [OF 1] .
    moreover have "same_file f1 (phdr_pos ?eh f1)" by (simp add: phdr_pos_def lseek_same)
    moreover have "same_file (phdr_pos ?eh f1) f3" using read_exact_same [OF 3] .
    ultimately have "same_file f f1" "same_file f (phdr_pos ?eh f1)" "same_file f f3"
      by (meson same_file_trans)+
    moreover have "g = f1 \<or> g = phdr_pos ?eh f1 \<or> g = f3"
      using assms read_elf_headers_checks [OF 1 [unfolded Some] refl 3, of E s]
      by (auto split: if_splits option.splits)
    ultimately show ?thesis by blast
  qed
qed

interpretation elf: ldops "read_elf_headers E" get_elf_va get_elf_length get_elf_entry
  "read_elf_sections E" elf_plan "far_mapped E D" "far_effect E" "client_mem D"
  for E :: "'h env" and D :: "'h view"
proof unfold_locales
  fix f g :: cfile and s t :: unit and r
  assume "read_elf_headers E f s = (r, g, t)"
  then show "same_file f g" by (rule elf_headers_keep_file)
next
  fix p h s f off and w :: "'h world"
  assume "far_mapped E D p w" "\<forall>x \<in> set (elf_plan h s). deliverable f off x"
  from fm.run_plan_ok [OF this same_file_refl agrees_refl]
  show "\<exists>g v. read_elf_sections E h p f off s w = Some (Inr (g, v)) \<and> same_file f g \<and>
      far_effect E w v \<and>
      agrees (client_mem D p w) (plan_cells (f_data f) off (elf_plan h s)) (client_mem D p v)"
    unfolding read_elf_sections_plan plan_cells_def .
next
  fix p h s xs x ys f off and w :: "'h world"
  assume *: "far_mapped E D p w" "elf_plan h s = xs @ x # ys"
    "\<forall>y \<in> set xs. deliverable f off y" "truncated f off x"
  show "read_elf_sections E h p f off s w = Some (Inl (Exit_failure Err_reading))"
    unfolding read_elf_sections_plan *(2) by (rule fm.run_plan_stop [OF *(1,3,4)])
qed

section \<open>Images of the headers\<close>

definition Ehdr_image :: "Elf32_Ehdr \<Rightarrow> bytes" where
  "Ehdr_image h = e_ident h @ bytes16 (e_type h) @ bytes16 (e_machine h) @ bytes32 (e_version h) @
     bytes32 (e_entry h) @ bytes32 (e_phoff h) @ bytes32 (e_shoff h) @ bytes32 (e_flags h) @
     bytes16 (e_ehsize h) @ bytes16 (e_phentsize h) @ bytes16 (e_phnum h) @
     bytes16 (e_shentsize h) @ bytes16 (e_shnum h) @ bytes16 (e_shstrndx h)"

definition Phdr_image :: "Elf32_Phdr \<Rightarrow> bytes" where
  "Phdr_image h = bytes32 (p_type h) @ bytes32 (p_offset h) @ bytes32 (p_vaddr h) @
     bytes32 (p_paddr h) @ bytes32 (p_filesz h) @ bytes32 (p_memsz h) @ bytes32 (p_flags h) @
     bytes32 (p_align h)"

lemma elf_header_sizes:
  "struct_size Elf32_Ehdr_members = 52 \<and> struct_size Elf32_Phdr_members = 32"
  by code_simp

lemma length_elf_images [simp]:
  "length (e_ident h) = 16 \<Longrightarrow> length (Ehdr_image h) = 52" "length (Phdr_image ph) = 32"
  by (simp_all add: Ehdr_image_def Phdr_image_def)

lemma parse_Ehdr_image: "length (e_ident h) = 16 \<Longrightarrow> parse_Ehdr (Ehdr_image h) = h"
  by (simp add: parse_Ehdr_def Ehdr_image_def get16_def get32_def)

lemma parse_Phdr_image: "parse_Phdr (Phdr_image ph @ rest) = ph"
  by (simp add: parse_Phdr_def Phdr_image_def get16_def get32_def)

lemma length_phdr_images: "length (concat (map Phdr_image ps)) = 32 * length ps"
  by (induction ps) simp_all

lemma parse_phdrs_images: "parse_phdrs (concat (map Phdr_image ps)) (length ps) = ps"
proof (induction ps)
  case (Cons ph ps)
  have "parse_phdrs (concat (map Phdr_image (ph # ps))) (length (ph # ps)) =
      parse_Phdr (Phdr_image ph @ concat (map Phdr_image ps)) #
        map (\<lambda>i. parse_Phdr (drop (32 * Suc i) (Phdr_image ph @ concat (map Phdr_image ps)))) [0..<length ps]"
    by (simp add: parse_phdrs_def upt_conv_Cons map_Suc_upt [symmetric] del: upt_Suc)
  also have "map (\<lambda>i. parse_Phdr (drop (32 * Suc i) (Phdr_image ph @ concat (map Phdr_image ps))))
      [0..<length ps] = parse_phdrs (concat (map Phdr_image ps)) (length ps)"
    by (simp add: parse_phdrs_def)
  finally show ?case by (simp only: Cons.IH parse_Phdr_image)
qed (simp add: parse_phdrs_def)

section \<open>The range spanned by the segments\<close>

definition seg_start :: "Elf32_Phdr \<Rightarrow> nat" where
  "seg_start ph = unat (p_vaddr ph)"

definition seg_end :: "Elf32_Phdr \<Rightarrow> nat" where
  "seg_end ph = unat (p_vaddr ph) + unat (p_memsz ph)"

text \<open>A segment the loader is meant for: page aligned, not at address 0, not wrapping around.\<close>

definition regular :: "Elf32_Phdr \<Rightarrow> bool" where
  "regular ph \<longleftrightarrow> p_align ph = 4096 \<and> p_vaddr ph \<noteq> 0 \<and> seg_end ph < 2 ^ 32"

lemma unat_seg_end: "regular ph \<Longrightarrow> unat (p_vaddr ph + p_memsz ph) = seg_end ph"
  by (simp add: regular_def seg_end_def unat_word_ariths)

lemma loads_Cons: "loads (ph # ps) = (if p_type ph = PT_LOAD then ph # loads ps else loads ps)"
  by (simp add: loads_def)

lemma Min_insert_min:
  "finite A \<Longrightarrow> Min (insert (min a b) A) = Min (insert a (insert (b :: nat) A))"
  by (cases "A = {}") (simp_all add: min.assoc)

lemma Max_insert_max:
  "finite A \<Longrightarrow> Max (insert (max a b) A) = Max (insert a (insert (b :: nat) A))"
  by (cases "A = {}") (simp_all add: max.assoc)

lemma scan_phdrs_started:
  assumes "\<forall>ph \<in> set (loads ps). regular ph" "bg \<noteq> 0"
  shows "\<exists>bg' en'. scan_phdrs ps bg en = Some (bg', en') \<and>
    unat bg' = Min (insert (unat bg) (seg_start ` set (loads ps))) \<and>
    unat en' = Max (insert (unat en) (seg_end ` set (loads ps)))"
  using assms
proof (induction ps arbitrary: bg en)
  case Nil
  then show ?case by (simp add: loads_def)
next
  case (Cons ph ps)
  show ?case
  proof (cases "p_type ph = PT_LOAD")
    case False
    then show ?thesis using Cons by (simp add: loads_Cons)
  next
    case True
    have r: "regular ph" "\<forall>x \<in> set (loads ps). regular x"
      using Cons.prems(1) True by (auto simp: loads_Cons)
    let ?b = "if p_vaddr ph < bg \<or> bg = 0 then p_vaddr ph else bg"
    let ?e = "if en < p_vaddr ph + p_memsz ph then p_vaddr ph + p_memsz ph else en"
    have b: "?b \<noteq> 0" "unat ?b = min (unat bg) (seg_start ph)"
      using r(1) Cons.prems(2) by (auto simp: regular_def seg_start_def word_less_nat_alt min_def)
    have e: "unat ?e = max (unat en) (seg_end ph)"
      using unat_seg_end [OF r(1)] by (auto simp: word_less_nat_alt max_def)
    obtain bg' en' where s: "scan_phdrs ps ?b ?e = Some (bg', en')"
      "unat bg' = Min (insert (unat ?b) (seg_start ` set (loads ps)))"
      "unat en' = Max (insert (unat ?e) (seg_end ` set (loads ps)))"
      using Cons.IH [OF r(2) b(1), of ?e] by blast
    have "unat bg' = Min (insert (unat bg) (seg_start ` set (loads (ph # ps))))"
      unfolding s(2) b(2) using True by (simp add: loads_Cons Min_insert_min)
    moreover have "unat en' = Max (insert (unat en) (seg_end ` set (loads (ph # ps))))"
      unfolding s(3) e using True by (simp add: loads_Cons Max_insert_max)
    ultimately show ?thesis
      using s(1) True r(1) by (simp add: regular_def)
  qed
qed

lemma scan_phdrs_range:
  assumes "\<forall>ph \<in> set (loads ps). regular ph" "loads ps \<noteq> []"
  shows "\<exists>bg en. scan_phdrs ps 0 0 = Some (bg, en) \<and>
    unat bg = Min (seg_start ` set (loads ps)) \<and> unat en = Max (seg_end ` set (loads ps))"
  using assms
proof (induction ps)
  case (Cons ph ps)
  show ?case
  proof (cases "p_type ph = PT_LOAD")
    case False
    then show ?thesis using Cons by (simp add: loads_Cons)
  next
    case True
    have r: "regular ph" "\<forall>x \<in> set (loads ps). regular x"
      using Cons.prems(1) True by (auto simp: loads_Cons)
    let ?e = "if 0 < p_vaddr ph + p_memsz ph then p_vaddr ph + p_memsz ph else 0"
    have e: "unat ?e = seg_end ph"
      using unat_seg_end [OF r(1)] by (auto simp: word_gt_0)
    obtain bg en where s: "scan_phdrs ps (p_vaddr ph) ?e = Some (bg, en)"
      "unat bg = Min (insert (seg_start ph) (seg_start ` set (loads ps)))"
      "unat en = Max (insert (seg_end ph) (seg_end ` set (loads ps)))"
      using scan_phdrs_started [OF r(2), of "p_vaddr ph" ?e] r(1)
      unfolding e by (auto simp: regular_def seg_start_def)
    then show ?thesis
      using True r(1) by (simp add: regular_def loads_Cons)
  qed
qed (simp add: loads_def)

lemma scan_phdrs_loads: "scan_phdrs ps b e = scan_phdrs (loads ps) b e"
  by (induction ps arbitrary: b e) (auto simp: loads_def)

lemma scan_phdrs_append:
  "scan_phdrs (xs @ ys) b e = Some r \<Longrightarrow> \<exists>b1 e1. scan_phdrs ys b1 e1 = Some r"
  by (induction xs arbitrary: b e) (auto split: if_splits)

text \<open>Once the start is not 0 it is the minimum; from 0 it starts again with the next segment.\<close>

lemma scan_phdrs_minimum:
  assumes "scan_phdrs ps b e = Some (b', e')" "b \<noteq> 0" "\<forall>p \<in> set ps. p_type p = PT_LOAD \<and> p_vaddr p \<noteq> 0"
  shows "b' \<in> insert b (p_vaddr ` set ps) \<and> b' \<le> b \<and> (\<forall>p \<in> set ps. b' \<le> p_vaddr p)"
  using assms
proof (induction ps arbitrary: b e)
  case (Cons p ps)
  let ?b = "if p_vaddr p < b \<or> b = 0 then p_vaddr p else b"
  have "b' \<in> insert ?b (p_vaddr ` set ps) \<and> b' \<le> ?b \<and> (\<forall>p \<in> set ps. b' \<le> p_vaddr p)"
    using Cons.prems by (intro Cons.IH [of _ "if e < p_vaddr p + p_memsz p then p_vaddr p + p_memsz p else e"])
      (auto split: if_splits)
  then show ?case using Cons.prems(2) by (auto split: if_splits)
qed simp

lemma scan_phdrs_restarts:
  assumes "scan_phdrs ps 0 e = Some (b', e')" "ps \<noteq> []" "\<forall>p \<in> set ps. p_type p = PT_LOAD"
    and "\<forall>p \<in> set ps. p_vaddr p \<noteq> 0"
  shows "b' \<in> p_vaddr ` set ps \<and> (\<forall>p \<in> set ps. b' \<le> p_vaddr p)"
proof (cases ps)
  case (Cons p qs)
  then obtain e1 where "scan_phdrs qs (p_vaddr p) e1 = Some (b', e')"
    using assms(1,3) by (auto split: if_splits)
  from scan_phdrs_minimum [OF this] show ?thesis using assms(3,4) Cons by auto
qed (use assms(2) in simp)

lemma scan_phdrs_None:
  "scan_phdrs ps bg en = None \<longleftrightarrow> (\<exists>ph \<in> set (loads ps). p_align ph \<noteq> 4096)"
  by (induction ps arbitrary: bg en) (auto simp: loads_def)

lemma length_parse_phdrs [simp]: "length (parse_phdrs bs n) = n"
  by (simp add: parse_phdrs_def)

section \<open>The bytes a load writes\<close>

text \<open>Both pieces of a segment stay between its start and one byte behind its end.\<close>

lemma segment_writes:
  assumes "regular ph" "p_filesz ph \<le> p_memsz ph" "q \<in> set (segment_plan ph)"
    and "in_region x (target q) (extent q)"
  shows "seg_start ph \<le> unat x \<and> unat x \<le> seg_end ph"
proof -
  let ?v = "unat (p_vaddr ph)" and ?f = "unat (p_filesz ph)" and ?m = "unat (p_memsz ph)"
  have sz: "?f \<le> ?m" "?v + ?m < 2 ^ 32"
    using assms(1,2) by (simp_all add: regular_def seg_end_def word_le_nat_alt)
  let ?len = "p_memsz ph - p_filesz ph"
  consider "q = Copy (p_offset ph) (p_vaddr ph) (p_filesz ph)"
    | "q = Zero (p_vaddr ph + p_filesz ph) (?len + (?len AND 1))"
    using assms(3) by (auto simp: segment_plan_def split: if_splits)
  then show ?thesis
  proof cases
    case 1
    then have "in_region x (p_vaddr ph) (?m + 1)"
      using assms(4) sz(1) by (auto elim!: in_region_mono)
    then show ?thesis
      using sz by (simp add: in_region_unat seg_start_def seg_end_def)
  next
    case 2
    have a: "unat (p_vaddr ph + p_filesz ph) = ?v + ?f"
      using sz by (simp add: unat_word_ariths)
    have "unat ?len = ?m - ?f"
      using sz(1) by (simp add: unat_sub_if')
    then have "unat (?len + (?len AND 1)) \<le> ?m - ?f + 1"
      by (simp add: unat_word_ariths unat_and_one)
    then have "in_region x (p_vaddr ph + p_filesz ph) (?m - ?f + 1)"
      using assms(4) 2 by (auto elim!: in_region_mono)
    then show ?thesis
      using sz a by (simp add: in_region_unat seg_start_def seg_end_def)
  qed
qed

text \<open>The samples of the witnesses: two segments, the first with two bytes of bss.\<close>

definition sample_ident :: bytes where
  "sample_ident = [0x7f, 0x45, 0x4c, 0x46, 1, 1, 1, 0, 0, 0, 0, 0, 0, 0, 0, 0]"

definition sample_Ehdr :: Elf32_Ehdr where
  "sample_Ehdr = \<lparr>e_ident = sample_ident, e_type = 2, e_machine = 3, e_version = 1, e_entry = 0x1001,
     e_phoff = 52, e_shoff = 0, e_flags = 0, e_ehsize = 52, e_phentsize = 32, e_phnum = 2,
     e_shentsize = 0, e_shnum = 0, e_shstrndx = 0\<rparr>"

definition sample_Phdr :: "u32 \<Rightarrow> u32 \<Rightarrow> u32 \<Rightarrow> u32 \<Rightarrow> Elf32_Phdr" where
  "sample_Phdr off va fsz msz = \<lparr>p_type = 1, p_offset = off, p_vaddr = va, p_paddr = va,
     p_filesz = fsz, p_memsz = msz, p_flags = 5, p_align = 4096\<rparr>"

definition sample_phdrs :: "Elf32_Phdr list" where
  "sample_phdrs = [sample_Phdr 116 0x1000 3 5, sample_Phdr 119 0x2000 2 2]"

definition sample_elf :: bytes where
  "sample_elf = Ehdr_image sample_Ehdr @ concat (map Phdr_image sample_phdrs) @ [1, 2, 3, 4, 5]"

definition sample_elf_h :: elf_h where
  "sample_elf_h = \<lparr>eh_va = 0x1000, eh_length = 0x1002, eh_entry = 0x1001, eh_phnum = 2,
     eh_phdr = sample_phdrs\<rparr>"

lemma sample_Ehdr_facts:
  "length (e_ident sample_Ehdr) = 16" "take 4 (e_ident sample_Ehdr) = ELFMAG"
  "e_ident sample_Ehdr ! EI_CLASS = ELFCLASS32" "e_ehsize sample_Ehdr = 52"
  "e_phentsize sample_Ehdr = 32" "unat (e_phnum sample_Ehdr) = length sample_phdrs"
  "unat (e_phoff sample_Ehdr) = 52"
  by (simp_all add: sample_Ehdr_def sample_ident_def ELFMAG_def EI_CLASS_def ELFCLASS32_def
      sample_phdrs_def)

lemma sample_loads: "loads sample_phdrs = sample_phdrs"
  by (simp add: loads_def sample_phdrs_def sample_Phdr_def PT_LOAD_def)

lemma sample_regular: "\<forall>ph \<in> set sample_phdrs. regular ph \<and> p_filesz ph \<le> p_memsz ph"
  by (simp add: sample_phdrs_def sample_Phdr_def regular_def seg_end_def)

lemma sample_scan: "scan_phdrs sample_phdrs 0 0 = Some (0x1000, 0x2002)"
  by (simp add: sample_phdrs_def sample_Phdr_def PT_LOAD_def)

lemma sample_elf_plan:
  "elf_plan sample_elf_h s = [Copy 116 0x1000 3, Zero 0x1003 2, Copy 119 0x2000 2]"
proof -
  have "take (unat (eh_phnum sample_elf_h)) (eh_phdr sample_elf_h) = sample_phdrs"
    by (simp add: sample_elf_h_def sample_phdrs_def)
  then show ?thesis
    unfolding elf_plan_def by (simp only: sample_loads)
      (simp add: sample_phdrs_def segment_plan_def sample_Phdr_def)
qed

lemma sample_elf_data:
  "length sample_elf = 121" "drop 116 sample_elf = [1, 2, 3, 4, 5]" "drop 119 sample_elf = [4, 5]"
proof -
  have len: "length (Ehdr_image sample_Ehdr @ concat (map Phdr_image sample_phdrs)) = 116"
    using sample_Ehdr_facts(1) by (simp add: sample_phdrs_def)
  then show "length sample_elf = 121" by (simp add: sample_elf_def)
  have "drop 116 sample_elf = drop 116 (Ehdr_image sample_Ehdr @ concat (map Phdr_image sample_phdrs))
      @ drop (116 - 116) [1, 2, 3, 4, 5]"
    unfolding sample_elf_def by (subst append_assoc [symmetric], subst drop_append) (simp only: len)
  then show *: "drop 116 sample_elf = [1, 2, 3, 4, 5]" using len by simp
  have "drop 119 sample_elf = drop 3 (drop 116 sample_elf)" by (simp only: drop_drop) simp
  then show "drop 119 sample_elf = [4, 5]" unfolding * by simp
qed

lemma sample_elf_deliverable:
  "\<forall>x \<in> set (elf_plan sample_elf_h s). deliverable (sample_file sample_elf) 0 x"
  unfolding sample_elf_plan by (simp add: sample_file_def sample_elf_data readable_def)

lemma sample_elf_spares: "sorted_wrt spares (elf_plan sample_elf_h s)"
  unfolding sample_elf_plan by (simp add: spares_apart apart_def)

lemma sample_Ehdr_read:
  assumes "scan_phdrs phs 0 0 = Some (bg, en)" "length phs = 2"
    and "f = sample_file (Ehdr_image sample_Ehdr @ concat (map Phdr_image phs) @ rest)"
  shows "read_elf_headers ref_env f () = (Inr (Inr \<lparr>eh_va = bg, eh_length = en - bg,
      eh_entry = e_entry sample_Ehdr, eh_phnum = ucast (e_phnum sample_Ehdr), eh_phdr = phs\<rparr>),
      f\<lparr>f_pos := 116\<rparr>, ())"
proof -
  let ?ps = "concat (map Phdr_image phs)"
  have f: "f_pos f = 0" "f_bad f = []" "drop (f_pos f) (f_data f) = Ehdr_image sample_Ehdr @ ?ps @ rest"
    by (simp_all add: assms(3) sample_file_def)
  from read_prefix [OF f(3,2)]
  have 1: "read_exact 52 f = (Some (Ehdr_image sample_Ehdr), f\<lparr>f_pos := 52\<rparr>)"
    and d: "drop 52 (f_data f) = ?ps @ rest"
    using f(1) sample_Ehdr_facts(1) by simp_all
  have pos: "phdr_pos sample_Ehdr (f\<lparr>f_pos := 52\<rparr>) = f\<lparr>f_pos := 52\<rparr>"
    by (simp add: phdr_pos_def sample_Ehdr_def)
  have n: "unat (e_phnum sample_Ehdr) = length phs"
    using sample_Ehdr_facts(6) assms(2) by (simp add: sample_phdrs_def)
  have 2: "read_exact (32 * unat (e_phnum sample_Ehdr)) (f\<lparr>f_pos := 52\<rparr>) =
      (Some ?ps, f\<lparr>f_pos := 116\<rparr>)"
    using read_prefix(1) [of "f\<lparr>f_pos := 52\<rparr>" ?ps] d f(2)
    unfolding n by (simp add: length_phdr_images assms(2))
  have ok: "malloc_ok ref_env n" for n by (simp add: ref_env_def)
  show ?thesis
    using read_elf_headers_checks [OF 1 parse_Ehdr_image [OF sample_Ehdr_facts(1), symmetric],
        of "Some ?ps" _ ref_env "()"] 2 sample_Ehdr_facts(2-5)
    unfolding pos n parse_phdrs_images
    by (simp add: assms(1) SELFMAG_def parse_phdrs_images ok)
qed

lemma sample_elf_read:
  "read_elf_headers ref_env (sample_file sample_elf) () =
    (Inr (Inr sample_elf_h), (sample_file sample_elf)\<lparr>f_pos := 116\<rparr>, ())"
  using sample_Ehdr_read [OF sample_scan _ refl, of "[1, 2, 3, 4, 5]"]
  by (simp add: sample_elf_def sample_elf_h_def sample_phdrs_def) (simp add: sample_Ehdr_def)

text \<open>What a handle keeps of the scan.\<close>

lemma elf_headers_scan:
  assumes "read_elf_headers E f s = (Inr (Inr h), g, t)"
  shows "scan_phdrs (eh_phdr h) 0 0 = Some (eh_va h, eh_va h + eh_length h)"
    "take (unat (eh_phnum h)) (eh_phdr h) = eh_phdr h"
proof -
  obtain r1 f1 where 1: "read_exact 52 f = (r1, f1)" by fastforce
  then obtain b1 where b1: "r1 = Some b1"
    using assms read_elf_headers_short [of f f1 E s] by (cases r1) auto
  let ?eh = "parse_Ehdr b1"
  obtain r2 f3 where 2: "read_exact (32 * unat (e_phnum ?eh)) (phdr_pos ?eh f1) = (r2, f3)" by fastforce
  obtain b2 bg en where "scan_phdrs (parse_phdrs b2 (unat (e_phnum ?eh))) 0 0 = Some (bg, en)"
    "h = \<lparr>eh_va = bg, eh_length = en - bg, eh_entry = e_entry ?eh, eh_phnum = ucast (e_phnum ?eh),
        eh_phdr = parse_phdrs b2 (unat (e_phnum ?eh))\<rparr>"
    using assms read_elf_headers_checks [OF 1 [unfolded b1] refl 2, of E s]
    by (auto split: if_splits option.splits)
  then show "scan_phdrs (eh_phdr h) 0 0 = Some (eh_va h, eh_va h + eh_length h)"
    "take (unat (eh_phnum h)) (eh_phdr h) = eh_phdr h"
    using unat_ucast_u16 [of "e_phnum ?eh"] by simp_all
qed

text \<open>The bytes a plan writes, as distances from the start of the handle's range.\<close>

lemma elf_plan_writes:
  assumes "scan_phdrs (eh_phdr h) 0 0 = Some (eh_va h, eh_va h + eh_length h)"
    and "take (unat (eh_phnum h)) (eh_phdr h) = eh_phdr h"
    and "\<forall>ph \<in> set (loads (eh_phdr h)). regular ph \<and> p_filesz ph \<le> p_memsz ph"
    and "q \<in> set (elf_plan h s)" "in_region x (target q) (extent q)"
  shows "unat (x - eh_va h) \<le> unat (eh_length h)"
proof -
  obtain ph where ph: "ph \<in> set (loads (eh_phdr h))" "q \<in> set (segment_plan ph)"
    using assms(2,4) by (auto simp: elf_plan_def)
  let ?L = "set (loads (eh_phdr h))"
  have ne: "loads (eh_phdr h) \<noteq> []" using ph(1) by auto
  have b: "unat (eh_va h) = Min (seg_start ` ?L)" "unat (eh_va h + eh_length h) = Max (seg_end ` ?L)"
    using scan_phdrs_range [OF _ ne] assms(1,3) by auto
  have "seg_start ph \<le> unat x \<and> unat x \<le> seg_end ph"
    using segment_writes [OF _ _ ph(2) assms(5)] assms(3) ph(1) by blast
  moreover have "Min (seg_start ` ?L) \<le> seg_start ph" "seg_end ph \<le> Max (seg_end ` ?L)"
    using ph(1) by simp_all
  ultimately have le: "unat (eh_va h) \<le> unat x" "unat x \<le> unat (eh_va h + eh_length h)"
    unfolding b by linarith+
  then have "unat (eh_va h + eh_length h) - unat (eh_va h) = unat (eh_length h)"
    using unat_sub_if' [of "eh_va h + eh_length h" "eh_va h"] by simp
  moreover have "unat (x - eh_va h) = unat x - unat (eh_va h)"
    using le(1) by (simp add: unat_sub_if')
  ultimately show ?thesis using le by linarith
qed

text \<open>The handle of a well-formed file.\<close>

lemma elf_headers_ok:
  assumes "drop (f_pos f) (f_data f) = Ehdr_image eh @ gap @ concat (map Phdr_image phs) @ rest"
    and "f_bad f = []" "length (e_ident eh) = 16" "take 4 (e_ident eh) = ELFMAG"
    and "e_ident eh ! EI_CLASS = ELFCLASS32" "e_ehsize eh = 52" "e_phentsize eh = 32"
    and "unat (e_phnum eh) = length phs" "unat (e_phoff eh) = 52 + length gap"
    and "f_pos f + 52 + length gap < 2 ^ 31" "malloc_ok E (48 + 32 * ucast (e_phnum eh))"
    and "\<forall>ph \<in> set (loads phs). regular ph" "loads phs \<noteq> []"
  shows "\<exists>bg en. read_elf_headers E f s =
      (Inr (Inr \<lparr>eh_va = bg, eh_length = en - bg, eh_entry = e_entry eh,
         eh_phnum = ucast (e_phnum eh), eh_phdr = phs\<rparr>),
       f\<lparr>f_pos := f_pos f + 52 + length gap + 32 * length phs\<rparr>, s) \<and>
    unat bg = Min (seg_start ` set (loads phs)) \<and> unat en = Max (seg_end ` set (loads phs)) \<and>
    (\<forall>ph \<in> set (loads phs). unat bg \<le> seg_start ph \<and> seg_end ph \<le> unat en)"
proof -
  let ?f1 = "f\<lparr>f_pos := f_pos f + 52\<rparr>" and ?f2 = "f\<lparr>f_pos := f_pos f + 52 + length gap\<rparr>"
  have r1: "read_exact 52 f = (Some (Ehdr_image eh), ?f1)"
    and d1: "drop (f_pos f + 52) (f_data f) = gap @ concat (map Phdr_image phs) @ rest"
    using read_prefix [of f "Ehdr_image eh"] assms(1-3) by simp_all
  have "drop (f_pos ?f1 + length gap) (f_data ?f1) = concat (map Phdr_image phs) @ rest"
    using read_prefix(3) [of ?f1 gap] d1 assms(2) by simp
  then have r2: "read_exact (32 * length phs) ?f2 =
      (Some (concat (map Phdr_image phs)), ?f2\<lparr>f_pos := f_pos ?f2 + 32 * length phs\<rparr>)"
    using read_prefix(1) [of ?f2 "concat (map Phdr_image phs)" rest] assms(2)
    by (simp add: length_phdr_images)
  have pos: "phdr_pos eh ?f1 = ?f2"
  proof (cases "gap = []")
    case True
    then have "\<not> 52 < e_phoff eh" using assms(9) by (simp add: word_less_nat_alt)
    then show ?thesis using True by (simp add: phdr_pos_def)
  next
    case False
    then have "unat (e_phoff eh - 52) = length gap" "52 < e_phoff eh"
      using assms(9) by (simp_all add: unat_sub_if' word_less_nat_alt)
    then show ?thesis using lseek_cur [of ?f1 "e_phoff eh - 52"] assms(10) by (simp add: phdr_pos_def)
  qed
  obtain bg en where s: "scan_phdrs phs 0 0 = Some (bg, en)"
    "unat bg = Min (seg_start ` set (loads phs))" "unat en = Max (seg_end ` set (loads phs))"
    using scan_phdrs_range [OF assms(12,13)] by blast
  then have "\<forall>ph \<in> set (loads phs). unat bg \<le> seg_start ph \<and> seg_end ph \<le> unat en"
    by simp
  moreover have "read_elf_headers E f s = (Inr (Inr \<lparr>eh_va = bg, eh_length = en - bg,
      eh_entry = e_entry eh, eh_phnum = ucast (e_phnum eh), eh_phdr = phs\<rparr>),
      f\<lparr>f_pos := f_pos f + 52 + length gap + 32 * length phs\<rparr>, s)"
    using read_elf_headers_checks [OF r1 refl, of "Some (concat (map Phdr_image phs))" _ E s]
      r2 pos s(1) assms(4-8,11)
    by (simp add: parse_Ehdr_image assms(3) SELFMAG_def parse_phdrs_images)
  ultimately show ?thesis using s by blast
qed

section \<open>Properties\<close>

text \<open>
  C11. On a well-formed ELF executable (any gap between the header and the program headers),
  \<open>read_elf_headers\<close> recovers the program headers exactly as they were written, with the entry point,
  and the handle's range runs from the lowest segment address to the highest segment end: every
  \<open>PT_LOAD\<close> segment lies inside it.
\<close>

theorem elf_headers_read:
  assumes "drop (f_pos f) (f_data f) = Ehdr_image eh @ gap @ concat (map Phdr_image phs) @ rest"
    and "f_bad f = []" "length (e_ident eh) = 16" "take 4 (e_ident eh) = ELFMAG"
    and "e_ident eh ! EI_CLASS = ELFCLASS32" "e_ehsize eh = 52" "e_phentsize eh = 32"
    and "unat (e_phnum eh) = length phs" "unat (e_phoff eh) = 52 + length gap"
    and "f_pos f + 52 + length gap < 2 ^ 31" "malloc_ok E (48 + 32 * ucast (e_phnum eh))"
    and "\<forall>ph \<in> set (loads phs). regular ph" "loads phs \<noteq> []"
  shows "\<exists>bg en. read_elf_headers E f s =
      (Inr (Inr \<lparr>eh_va = bg, eh_length = en - bg, eh_entry = e_entry eh,
         eh_phnum = ucast (e_phnum eh), eh_phdr = phs\<rparr>),
       f\<lparr>f_pos := f_pos f + 52 + length gap + 32 * length phs\<rparr>, s) \<and>
    unat bg = Min (seg_start ` set (loads phs)) \<and> unat en = Max (seg_end ` set (loads phs)) \<and>
    (\<forall>ph \<in> set (loads phs). unat bg \<le> seg_start ph \<and> seg_end ph \<le> unat en)"
  using elf_headers_ok [OF assms] .

theorem elf_headers_read_witness:
  "read_elf_headers ref_env (sample_file sample_elf) () =
    (Inr (Inr sample_elf_h), (sample_file sample_elf)\<lparr>f_pos := 116\<rparr>, ())"
proof -
  have pre: "drop (f_pos (sample_file sample_elf)) (f_data (sample_file sample_elf)) =
      Ehdr_image sample_Ehdr @ [] @ concat (map Phdr_image sample_phdrs) @ [1, 2, 3, 4, 5]"
    "f_bad (sample_file sample_elf) = []" "f_pos (sample_file sample_elf) = 0"
    by (simp_all add: sample_file_def sample_elf_def)
  have starts: "seg_start ` set (loads sample_phdrs) = {0x1000, 0x2000}"
    "seg_end ` set (loads sample_phdrs) = {0x1005, 0x2002}"
    unfolding sample_loads by (simp_all add: sample_phdrs_def seg_start_def seg_end_def sample_Phdr_def)
  have "unat (e_phoff sample_Ehdr) = 52 + length []" "f_pos (sample_file sample_elf) + 52 + length [] < 2 ^ 31"
    "malloc_ok ref_env (48 + 32 * ucast (e_phnum sample_Ehdr))"
    "\<forall>ph \<in> set (loads sample_phdrs). regular ph" "loads sample_phdrs \<noteq> []"
    using sample_Ehdr_facts(7) sample_regular
    by (simp_all add: sample_loads ref_env_def pre(3)) (simp add: sample_phdrs_def)
  from elf_headers_read [OF pre(1,2) sample_Ehdr_facts(1-6) this, of "()"]
  obtain bg en where r: "read_elf_headers ref_env (sample_file sample_elf) () =
      (Inr (Inr \<lparr>eh_va = bg, eh_length = en - bg, eh_entry = e_entry sample_Ehdr,
         eh_phnum = ucast (e_phnum sample_Ehdr), eh_phdr = sample_phdrs\<rparr>),
       (sample_file sample_elf)\<lparr>f_pos := 0 + 52 + length [] + 32 * length sample_phdrs\<rparr>, ())"
    "unat bg = 0x1000" "unat en = 0x2002"
    unfolding starts pre(3) by auto
  have "bg = 0x1000" "en = 0x2002"
    using r(2,3) by (simp_all add: word_unat_eq_iff)
  moreover have "length sample_phdrs = 2" by (simp add: sample_phdrs_def)
  ultimately show ?thesis using r(1) by (simp add: sample_elf_h_def sample_Ehdr_def)
qed

text \<open>
  C12. Nothing but a 32-bit ELF file gets a handle: if \<open>read_elf_headers\<close> returns one, the file had a
  complete header with the magic number, the class, and the header sizes, as many complete program
  headers as it announced, and every \<open>PT_LOAD\<close> segment was aligned to 4096.
\<close>

theorem elf_headers_sound:
  assumes "read_elf_headers E f s = (Inr (Inr h), g, t)" "ehdr = parse_Ehdr (pending 52 f)"
    and "f2 = phdr_pos ehdr (f\<lparr>f_pos := f_pos f + 52\<rparr>)" "n = unat (e_phnum ehdr)"
  shows "length (pending 52 f) = 52 \<and> take 4 (pending 52 f) = ELFMAG \<and>
    pending 52 f ! EI_CLASS = ELFCLASS32 \<and> e_ehsize ehdr = 52 \<and> e_phentsize ehdr = 32 \<and>
    length (pending (32 * n) f2) = 32 * n \<and> eh_phdr h = parse_phdrs (pending (32 * n) f2) n \<and>
    length (eh_phdr h) = unat (eh_phnum h) \<and> eh_entry h = e_entry ehdr \<and>
    (\<forall>ph \<in> set (loads (eh_phdr h)). p_align ph = 4096)"
proof -
  obtain r1 f1 where 1: "read_exact 52 f = (r1, f1)" by fastforce
  then obtain b1 where b1: "r1 = Some b1"
    using assms(1) read_elf_headers_short [of f f1 E s] by (cases r1) auto
  have rd: "b1 = pending 52 f" "length b1 = 52" "f1 = f\<lparr>f_pos := f_pos f + 52\<rparr>"
    using read_exact_Some 1 b1 by blast+
  obtain r2 f3 where 2: "read_exact (32 * n) f2 = (r2, f3)" by fastforce
  note eq = read_elf_headers_checks [OF 1 [unfolded b1], of ehdr r2 f3 E s]
  have id: "take 4 (e_ident ehdr) = take 4 b1" "e_ident ehdr ! EI_CLASS = b1 ! EI_CLASS"
    unfolding assms(2) rd(1) [symmetric] by (simp_all add: parse_Ehdr_def EI_CLASS_def)
  have facts: "take 4 (e_ident ehdr) = ELFMAG" "e_ident ehdr ! EI_CLASS = ELFCLASS32"
    "e_ehsize ehdr = 52" "e_phentsize ehdr = 32"
    "\<exists>b2 bg en. r2 = Some b2 \<and> scan_phdrs (parse_phdrs b2 n) 0 0 = Some (bg, en) \<and>
      h = \<lparr>eh_va = bg, eh_length = en - bg, eh_entry = e_entry ehdr, eh_phnum = ucast (e_phnum ehdr),
        eh_phdr = parse_phdrs b2 n\<rparr>"
    using assms(1) eq 2 unfolding assms(2-4) rd(1,3)
    by (auto simp: SELFMAG_def split: if_splits option.splits)
  then obtain b2 bg en where h: "r2 = Some b2" "scan_phdrs (parse_phdrs b2 n) 0 0 = Some (bg, en)"
    "h = \<lparr>eh_va = bg, eh_length = en - bg, eh_entry = e_entry ehdr, eh_phnum = ucast (e_phnum ehdr),
        eh_phdr = parse_phdrs b2 n\<rparr>" by blast
  have "b2 = pending (32 * n) f2" "length b2 = 32 * n"
    using read_exact_Some 2 h(1) by blast+
  moreover have "\<forall>ph \<in> set (loads (eh_phdr h)). p_align ph = 4096"
    using h(2,3) scan_phdrs_None [of "parse_phdrs b2 n" 0 0] by auto
  ultimately show ?thesis
    using facts(1-4) h(3) rd id assms(4) unat_ucast_u16 [of "e_phnum ehdr"] by simp
qed

theorem elf_headers_sound_witness:
  "take 4 (pending 52 (sample_file sample_elf)) = ELFMAG \<and> length (eh_phdr sample_elf_h) = 2"
  using elf_headers_sound [OF sample_elf_read refl refl refl] by (simp add: sample_elf_h_def)

text \<open>
  C13. Loading places the program: when the file delivers the segments and none damages an earlier one,
  the file bytes of every \<open>PT_LOAD\<close> segment stand at its virtual address and the rest of its memory size is
  zero. Nothing outside of these ranges is touched, each rounded up to a word: behind an odd number of file
  bytes one more byte is overwritten, with what the read buffer happened to hold (and cleared again when bss
  follows), and behind an odd number of bss bytes one more byte is cleared.
\<close>

theorem elf_segments_placed:
  assumes "get_base_law E D" "D (host w) (fp_seg p) = Some ds"
    and "\<forall>x \<in> set (elf_plan h s). deliverable f off x" "sorted_wrt spares (elf_plan h s)"
  shows "\<exists>g v. read_elf_sections E h p f off s w = Some (Inr (g, v)) \<and> far_effect E w v \<and>
    (\<forall>ph \<in> set (loads (take (unat (eh_phnum h)) (eh_phdr h))).
      load_bytes (client_mem D p v) (p_vaddr ph) (unat (p_filesz ph)) =
        take (unat (p_filesz ph)) (drop (unat (off + p_offset ph)) (f_data f)) \<and>
      (p_filesz ph < p_memsz ph \<longrightarrow>
        (let len = p_memsz ph - p_filesz ph; n = unat (len + (len AND 1)) in
          load_bytes (client_mem D p v) (p_vaddr ph + p_filesz ph) n = replicate n 0))) \<and>
    (\<forall>x. (\<forall>ph \<in> set (loads (take (unat (eh_phnum h)) (eh_phdr h))).
        \<not> in_region x (p_vaddr ph) (unat (p_filesz ph) + unat (p_filesz ph) mod 2) \<and>
        (p_filesz ph < p_memsz ph \<longrightarrow> (let len = p_memsz ph - p_filesz ph in
          \<not> in_region x (p_vaddr ph + p_filesz ph) (unat (len + (len AND 1)))))) \<longrightarrow>
      client_mem D p v x = client_mem D p w x)"
proof -
  let ?L = "loads (take (unat (eh_phnum h)) (eh_phdr h))"
  have m: "far_mapped E D p w" using assms(1,2) by (simp add: far_mapped_def)
  obtain g v where run: "read_elf_sections E h p f off s w = Some (Inr (g, v))" "far_effect E w v"
    "\<forall>y \<in> set (elf_plan h s). landed (f_data f) off (client_mem D p v) y"
    "\<forall>x. (\<forall>y \<in> set (elf_plan h s). \<not> in_region x (target y) (extent y)) \<longrightarrow>
      client_mem D p v x = client_mem D p w x"
    using elf.sections_land [OF m assms(3,4)] by blast
  have "\<forall>ph \<in> set ?L. \<forall>y \<in> set (segment_plan ph). landed (f_data f) off (client_mem D p v) y"
    using run(3) by (auto simp: elf_plan_def)
  then have "\<forall>ph \<in> set ?L.
      load_bytes (client_mem D p v) (p_vaddr ph) (unat (p_filesz ph)) =
        take (unat (p_filesz ph)) (drop (unat (off + p_offset ph)) (f_data f)) \<and>
      (p_filesz ph < p_memsz ph \<longrightarrow>
        (let len = p_memsz ph - p_filesz ph; n = unat (len + (len AND 1)) in
          load_bytes (client_mem D p v) (p_vaddr ph + p_filesz ph) n = replicate n 0))"
    by (simp add: segment_plan_def Let_def)
  moreover have "client_mem D p v x = client_mem D p w x" if x: "\<forall>ph \<in> set ?L.
      \<not> in_region x (p_vaddr ph) (unat (p_filesz ph) + unat (p_filesz ph) mod 2) \<and>
      (p_filesz ph < p_memsz ph \<longrightarrow> (let len = p_memsz ph - p_filesz ph in
        \<not> in_region x (p_vaddr ph + p_filesz ph) (unat (len + (len AND 1)))))" for x
    using run(4) x by (auto simp: elf_plan_def segment_plan_def Let_def split: if_splits)
  ultimately show ?thesis using run(1,2) by blast
qed

theorem elf_segments_placed_witness:
  "\<exists>g v. read_elf_sections ref_env sample_elf_h \<lparr>fp_off = 0, fp_seg = 0x87\<rparr> (sample_file sample_elf) 0 ()
      (ref_world [(0x87, sample_desc)]) = Some (Inr (g, v)) \<and>
    load_bytes (client_mem ref_view \<lparr>fp_off = 0, fp_seg = 0x87\<rparr> v) 0x1000 3 = [1, 2, 3] \<and>
    load_bytes (client_mem ref_view \<lparr>fp_off = 0, fp_seg = 0x87\<rparr> v) 0x1003 2 = [0, 0]"
proof -
  let ?p = "\<lparr>fp_off = 0, fp_seg = 0x87\<rparr>" and ?w = "ref_world [(0x87, sample_desc)]"
  let ?ph = "sample_Phdr 116 0x1000 3 5"
  have d: "ref_view (host ?w) (fp_seg ?p) = Some sample_desc"
    by (simp add: ref_view_def ref_world_def)
  have "take (unat (eh_phnum sample_elf_h)) (eh_phdr sample_elf_h) = sample_phdrs"
    by (simp add: sample_elf_h_def sample_phdrs_def)
  then have L: "?ph \<in> set (loads (take (unat (eh_phnum sample_elf_h)) (eh_phdr sample_elf_h)))"
    by (simp only: sample_loads) (simp add: sample_phdrs_def)
  obtain g v where *: "read_elf_sections ref_env sample_elf_h ?p (sample_file sample_elf) 0 () ?w =
      Some (Inr (g, v))"
    "load_bytes (client_mem ref_view ?p v) (p_vaddr ?ph) (unat (p_filesz ?ph)) =
      take (unat (p_filesz ?ph)) (drop (unat (0 + p_offset ?ph)) (f_data (sample_file sample_elf)))"
    "p_filesz ?ph < p_memsz ?ph \<longrightarrow>
      (let len = p_memsz ?ph - p_filesz ?ph; n = unat (len + (len AND 1)) in
        load_bytes (client_mem ref_view ?p v) (p_vaddr ?ph + p_filesz ?ph) n = replicate n 0)"
    using elf_segments_placed [OF ref_get_base_law d sample_elf_deliverable sample_elf_spares] L
    by blast
  have "load_bytes (client_mem ref_view ?p v) 0x1000 3 = [1, 2, 3]"
    using *(2) by (simp add: sample_Phdr_def sample_file_def sample_elf_data)
  moreover have "load_bytes (client_mem ref_view ?p v) 0x1003 2 = replicate 2 0"
    using *(3) by (simp add: sample_Phdr_def Let_def)
  then have "load_bytes (client_mem ref_view ?p v) 0x1003 2 = [0, 0]"
    by (simp add: numeral_2_eq_2)
  ultimately show ?thesis using *(1) by blast
qed

text \<open>
  C14. Loading stays inside the range the handle announces, but for the one byte behind it: after
  \<open>read_elf_headers\<close> accepted a file whose \<open>PT_LOAD\<close> segments are regular (none at address 0, none wrapping around
  the address space) and no larger in the file than in memory, and whose contents the file delivers, every
  byte that \<open>read_elf_sections\<close> changes lies between \<open>va\<close> and \<open>va + length\<close>, the latter included.
\<close>

theorem elf_writes_bounded:
  assumes "read_elf_headers E f s = (Inr (Inr h), g, t)"
    and "\<forall>ph \<in> set (loads (eh_phdr h)). regular ph \<and> p_filesz ph \<le> p_memsz ph"
    and "get_base_law E D" "D (host w) (fp_seg p) = Some ds"
    and "\<forall>x \<in> set (elf_plan h s). deliverable f1 off x"
    and "read_elf_sections E h p f1 off s w = Some (Inr (f2, v))"
    and "client_mem D p v x \<noteq> client_mem D p w x"
  shows "unat (x - eh_va h) \<le> unat (eh_length h)"
proof -
  have m: "far_mapped E D p w" using assms(3,4) by (simp add: far_mapped_def)
  obtain q where "q \<in> set (elf_plan h s)" "in_region x (target q) (extent q)"
    using elf.sections_frame [OF m assms(5,6), of x] assms(7) by blast
  then show ?thesis
    using elf_plan_writes [OF elf_headers_scan [OF assms(1)] assms(2)] by blast
qed

theorem elf_writes_bounded_witness:
  "\<exists>f2 v. read_elf_sections ref_env sample_elf_h \<lparr>fp_off = 0, fp_seg = 0x87\<rparr> (sample_file sample_elf)
      0 () (ref_world [(0x87, sample_desc)]) = Some (Inr (f2, v)) \<and>
    client_mem ref_view \<lparr>fp_off = 0, fp_seg = 0x87\<rparr> v 0x1000 = 1 \<and>
    unat ((0x1000 :: u32) - eh_va sample_elf_h) \<le> unat (eh_length sample_elf_h)"
proof -
  let ?p = "\<lparr>fp_off = 0, fp_seg = 0x87\<rparr>" and ?w = "ref_world [(0x87, sample_desc)]"
  have d: "ref_view (host ?w) (fp_seg ?p) = Some sample_desc"
    by (simp add: ref_view_def ref_world_def)
  then have m: "far_mapped ref_env ref_view ?p ?w"
    using ref_get_base_law by (simp add: far_mapped_def)
  obtain f2 v where run: "read_elf_sections ref_env sample_elf_h ?p (sample_file sample_elf) 0 () ?w =
      Some (Inr (f2, v))"
    "\<forall>y \<in> set (elf_plan sample_elf_h ()). landed (f_data (sample_file sample_elf)) 0 (client_mem ref_view ?p v) y"
    using elf.sections_land [OF m sample_elf_deliverable sample_elf_spares] by blast
  have "load_bytes (client_mem ref_view ?p v) 0x1000 3 = [1, 2, 3]"
    using run(2) unfolding sample_elf_plan by (simp add: sample_file_def sample_elf_data)
  then have one: "client_mem ref_view ?p v 0x1000 = 1"
    by (simp add: load_bytes_def numeral_3_eq_3 upt_rec)
  then have "client_mem ref_view ?p v 0x1000 \<noteq> client_mem ref_view ?p ?w 0x1000"
    by (simp add: client_mem_def ref_world_def)
  moreover have "\<forall>ph \<in> set (loads (eh_phdr sample_elf_h)). regular ph \<and> p_filesz ph \<le> p_memsz ph"
    using sample_regular by (simp add: sample_elf_h_def sample_loads)
  ultimately show ?thesis
    using elf_writes_bounded [OF sample_elf_read _ ref_get_base_law d sample_elf_deliverable run(1)]
      run(1) one by blast
qed

text \<open>
  C15. That one byte is really written: when the last segment has an odd number of bss bytes, rounding
  the fill up to a word clears the byte at \<open>va + length\<close> as well, which no longer belongs to the program.
\<close>

theorem elf_bss_overrun:
  assumes "get_base_law E D" "D (host w) (fp_seg p) = Some ds"
    and "\<forall>x \<in> set (elf_plan h s). deliverable f off x"
    and "loads (take (unat (eh_phnum h)) (eh_phdr h)) = qs @ [ph]"
    and "p_filesz ph < p_memsz ph" "odd (unat (p_memsz ph - p_filesz ph))"
    and "unat (p_memsz ph - p_filesz ph) + 1 < 2 ^ 32"
    and "eh_va h + eh_length h = p_vaddr ph + p_memsz ph"
  shows "\<exists>g v. read_elf_sections E h p f off s w = Some (Inr (g, v)) \<and>
    client_mem D p v (eh_va h + eh_length h) = 0"
proof -
  let ?len = "p_memsz ph - p_filesz ph"
  let ?a = "p_vaddr ph + p_filesz ph" and ?n = "?len + (?len AND 1)"
  have m: "far_mapped E D p w" using assms(1,2) by (simp add: far_mapped_def)
  obtain g v where run: "read_elf_sections E h p f off s w = Some (Inr (g, v))"
    "agrees (client_mem D p w) (plan_cells (f_data f) off (elf_plan h s)) (client_mem D p v)"
    using elf.sections_run [OF m assms(3)] by blast
  define c where "c = fold (put_piece (f_data f) off)
      (concat (map segment_plan qs) @ [Copy (p_offset ph) (p_vaddr ph) (p_filesz ph)]) (\<lambda>_. Kept)"
  have plan: "plan_cells (f_data f) off (elf_plan h s) = put_piece (f_data f) off (Zero ?a ?n) c"
    using assms(5) by (simp add: plan_cells_def put_plan_def elf_plan_def assms(4) segment_plan_def c_def)
  have "unat ?n = unat ?len + 1"
    using assms(6,7) by (simp add: unat_word_ariths unat_and_one odd_iff_mod_2_eq_one)
  moreover have "p_vaddr ph + p_memsz ph - ?a = ?len" by simp
  ultimately have "plan_cells (f_data f) off (elf_plan h s) (eh_va h + eh_length h) = Byte 0"
    unfolding plan assms(8) by (simp only: put_piece.simps) simp
  then have "client_mem D p v (eh_va h + eh_length h) = 0"
    using run(2) by (auto simp: agrees_def dest!: spec [of _ "eh_va h + eh_length h"])
  then show ?thesis using run(1) by blast
qed

definition odd_elf_h :: elf_h where
  "odd_elf_h = \<lparr>eh_va = 0x1000, eh_length = 0x1000, eh_entry = 0x1000, eh_phnum = 1,
     eh_phdr = [sample_Phdr 0 0x1000 1 0x1000]\<rparr>"

theorem elf_bss_overrun_witness:
  "\<exists>g v. read_elf_sections ref_env odd_elf_h \<lparr>fp_off = 0, fp_seg = 0x87\<rparr> (sample_file [1, 2]) 0 ()
      ((ref_world [(0x87, sample_desc)])\<lparr>lin := \<lambda>_. 0x55\<rparr>) = Some (Inr (g, v)) \<and>
    client_mem ref_view \<lparr>fp_off = 0, fp_seg = 0x87\<rparr> v 0x2000 = 0"
proof -
  let ?p = "\<lparr>fp_off = 0, fp_seg = 0x87\<rparr>"
  let ?w = "(ref_world [(0x87, sample_desc)])\<lparr>lin := \<lambda>_. 0x55\<rparr>"
  let ?ph = "sample_Phdr 0 0x1000 1 0x1000"
  have d: "ref_view (host ?w) (fp_seg ?p) = Some sample_desc"
    by (simp add: ref_view_def ref_world_def)
  have L: "loads (take (unat (eh_phnum odd_elf_h)) (eh_phdr odd_elf_h)) = [] @ [?ph]"
    by (simp add: odd_elf_h_def loads_def sample_Phdr_def PT_LOAD_def)
  then have "elf_plan odd_elf_h () = [Copy 0 0x1000 1, Zero 0x1001 0x1000]"
    by (simp add: elf_plan_def segment_plan_def) (simp add: sample_Phdr_def)
  then have dl: "\<forall>x \<in> set (elf_plan odd_elf_h ()). deliverable (sample_file [1, 2]) 0 x"
    by (simp add: sample_file_def readable_def)
  have "p_filesz ?ph < p_memsz ?ph" "odd (unat (p_memsz ?ph - p_filesz ?ph))"
    "unat (p_memsz ?ph - p_filesz ?ph) + 1 < 2 ^ 32"
    "eh_va odd_elf_h + eh_length odd_elf_h = p_vaddr ?ph + p_memsz ?ph"
    by (simp_all add: sample_Phdr_def odd_elf_h_def)
  from elf_bss_overrun [OF ref_get_base_law d dl L this] show ?thesis
    by (simp add: odd_elf_h_def)
qed

text \<open>
  C16. A segment at address 0 is lost when higher segments follow it: \<open>read_elf_headers\<close> takes \<open>beg = 0\<close> for "no
  segment yet", so that the range it announces starts at the lowest of the segments behind the one at address
  0, whatever stands in front of it, and the segment at address 0 lies below the range.
\<close>

theorem elf_segment_at_zero_lost:
  assumes "read_elf_headers E f s = (Inr (Inr h), g, t)"
    and "loads (eh_phdr h) = xs @ z # ys" "p_vaddr z = 0" "ys \<noteq> []" "\<forall>y \<in> set ys. p_vaddr y \<noteq> 0"
  shows "eh_va h = Min (p_vaddr ` set ys) \<and> p_vaddr z < eh_va h"
proof -
  have "set (loads (eh_phdr h)) \<subseteq> {ph. p_type ph = PT_LOAD}" by (auto simp: loads_def)
  then have all: "p_type z = PT_LOAD" "\<forall>y \<in> set ys. p_type y = PT_LOAD" unfolding assms(2) by auto
  have "scan_phdrs (xs @ z # ys) 0 0 = Some (eh_va h, eh_va h + eh_length h)"
    using elf_headers_scan(1) [OF assms(1)] scan_phdrs_loads [of "eh_phdr h"] by (simp add: assms(2))
  then obtain b e where "scan_phdrs (z # ys) b e = Some (eh_va h, eh_va h + eh_length h)"
    using scan_phdrs_append by blast
  then obtain e' where "scan_phdrs ys 0 e' = Some (eh_va h, eh_va h + eh_length h)"
    using all(1) assms(3) by (auto simp: word_gt_0 split: if_splits)
  note lo = scan_phdrs_restarts [OF this assms(4) all(2) assms(5)]
  have "eh_va h = Min (p_vaddr ` set ys)" using lo by (intro Min_eqI [symmetric]) auto
  moreover have "eh_va h \<noteq> 0" using lo assms(5) by auto
  ultimately show ?thesis using assms(3) by (simp add: word_gt_0)
qed

theorem elf_segment_at_zero_lost_witness:
  "\<exists>h g. read_elf_headers ref_env (sample_file (Ehdr_image sample_Ehdr @ concat (map Phdr_image
      [sample_Phdr 116 0 1 1, sample_Phdr 117 0x1000 1 1]) @ [1, 2])) () = (Inr (Inr h), g, ()) \<and>
    eh_va h = 0x1000"
proof -
  let ?phs = "[sample_Phdr 116 0 1 1, sample_Phdr 117 0x1000 1 1]"
  have "scan_phdrs ?phs 0 0 = Some (0x1000, 0x1001)"
    by (simp add: sample_Phdr_def PT_LOAD_def)
  from sample_Ehdr_read [OF this _ refl, of "[1, 2]"]
  obtain h g where h: "read_elf_headers ref_env (sample_file (Ehdr_image sample_Ehdr @
      concat (map Phdr_image ?phs) @ [1, 2])) () = (Inr (Inr h), g, ())" "eh_phdr h = ?phs"
    by simp
  have "loads (eh_phdr h) = [] @ sample_Phdr 116 0 1 1 # [sample_Phdr 117 0x1000 1 1]"
    "p_vaddr (sample_Phdr 116 0 1 1) = 0" "[sample_Phdr 117 0x1000 1 1] \<noteq> []"
    "\<forall>y \<in> set [sample_Phdr 117 0x1000 1 1]. p_vaddr y \<noteq> 0"
    unfolding h(2) by (simp_all add: loads_def sample_Phdr_def PT_LOAD_def)
  from elf_segment_at_zero_lost [OF h(1) this] show ?thesis
    using h(1) by (auto simp: sample_Phdr_def)
qed

end
