(* ===== verification/LowMem.thy ===== *)
theory LowMem
  imports FarMem
begin

text \<open>
  The real-mode half of \<open>util.c\<close>: the interrupt call \<open>int2f\<close>, the far call \<open>lcall\<close> into the mode switch of
  the DPMI host, the management of the program's low-memory block, and \<open>dpmi_init\<close>, in the variants
  compiled by SmallerC. The interrupt handlers and the mode switch are the environment's \<open>int_call\<close>,
  \<open>far_call\<close> and \<open>dpmi_int\<close>. The register block \<open>r\<close> of \<open>dpmi_init\<close> lives at \<open>local_slot2\<close>. Low memory is
  the part of linear memory that \<open>memmove\<close> reaches by its linear address.
\<close>

section \<open>Assembly\<close>

definition lcall :: "'h env \<Rightarrow> cfun" where
  "lcall E = \<lparr>nargs = 4, returns0 = False, body =
      [Push_s ES, Push_a 8, Push_a 12, Mov_ra EAX 16, Mov_ra EBX 20, Call_far_sp, Pop_r EAX, Pop_r EAX,
       Pushf, Pop_r EAX, Mov_gs (addr_psp_sel E) ES, Pop_s ES]\<rparr>"

definition int2f :: cfun where
  "int2f = \<lparr>nargs = 1, returns0 = False, body =
      [Push_s ES, Mov_ra EBX 8, Mov_rm EDI EBX 0, Mov_rm ESI EBX 4, Mov_rm EDX EBX 20, Mov_rm ECX EBX 24,
       Mov_rm EAX EBX 28, Mov_rm EBX EBX 16, Stc, Intr 0x2f, Push_r EBX, Mov_ra EBX 8, Pop_m EBX 16,
       Pushfw, Popw_m EBX 32, Mov_mr EBX 0 EDI, Mov_mr EBX 4 ESI, Mov_mr EBX 20 EDX,
       Mov_mr EBX 24 ECX, Mov_mr EBX 28 EAX, Mov_ms EBX 34 ES, Mov_ms EBX 36 DS, Mov_ms EBX 38 FS,
       Mov_ms EBX 40 GS, Pop_s ES]\<rparr>"

section \<open>Low memory\<close>

text \<open>Segments and sizes of real-mode blocks are in paragraphs of 16 bytes.\<close>

definition get_low_pool :: "'h env \<Rightarrow> u16" where
  "get_low_pool E = ucast (drop_bit 4 (dpmi_psp E) + 0x10)"

definition shrink_low :: "'h env \<Rightarrow> u16 \<Rightarrow> 'h world \<Rightarrow> stop + 'h world" where
  "shrink_low E para w =
     (if \<not> 0x110000 < stack_ptr E then Inl Assert_failed else
      let (regs, w1) = dpmi_int E 0x21
            (regs_zero\<lparr>r_eax := 0x4a00, r_ebx := 0x10 + ucast para,
               r_es := ucast (drop_bit 4 (dpmi_psp E))\<rparr>) w in
      if r_flags regs AND 1 \<noteq> 0 then Inl (Exit_failure Realloc_failed) else Inr w1)"

definition free_low :: "'h env \<Rightarrow> u16 \<Rightarrow> 'h world \<Rightarrow> stop + 'h world" where
  "free_low E sg w =
     (let (regs, w1) = dpmi_int E 0x21 (regs_zero\<lparr>r_eax := 0x4900, r_es := sg\<rparr>) w in
      if r_flags regs AND 1 \<noteq> 0 then Inl (Exit_failure Free_failed) else Inr w1)"

text \<open>\<open>memmove\<close> between linear addresses: the source is read before anything is written.\<close>

definition memmove_low :: "u32 \<Rightarrow> u32 \<Rightarrow> u32 \<Rightarrow> 'h world \<Rightarrow> 'h world" where
  "memmove_low dst src n w = w\<lparr>lin := store_bytes (lin w) dst (load_bytes (lin w) src (unat n))\<rparr>"

section \<open>Entering the DPMI host\<close>

text \<open>
  The result is the return value and, when it is 0, what is stored behind \<open>psp_sel\<close>.
\<close>

definition dpmi_init ::
  "'h env \<Rightarrow> u16 \<Rightarrow> 'h world \<Rightarrow> stop + (u32 \<times> u16 option \<times> 'h world)" where
  "dpmi_init E para w =
     (let w1 = w\<lparr>own := store_regs (own w) (local_slot2 E)
                   (regs_zero\<lparr>r_eax := 0x1687, r_ebx := 0x1000\<rparr>)\<rparr>;
          (_, w2) = call_c E int2f [local_slot2 E] w1;
          r = load_regs (own w2) (local_slot2 E) in
      if r_flags r AND 1 \<noteq> 0 then Inr (- 1, None, w2) else
      if r_ebx r AND 1 = 0 then Inl (Exit_failure Dpmi32_unavailable) else
      if r_ebx r AND 0x1402 \<noteq> 0x402 \<and> (r_eax r \<noteq> 0 \<or> r_esi r \<noteq> 0)
        then Inl (Exit_failure Invalid_dpmi_server) else
      bindR (shrink_low E (ucast (ucast para + r_esi r)) w2) (\<lambda>w3.
        let newseg = ucast (get_low_pool E) + ucast para :: u32;
            w4 = (if r_esi r \<noteq> 0
                  then memmove_low (push_bit 4 newseg) (push_bit 4 (r_eax r)) (push_bit 4 (r_esi r)) w3
                  else w3);
            (f, w5) = call_c E (lcall E)
              [ucast (r_es r), r_edi r, 1 OR (if r_esi r \<noteq> 0 then 0x1000 else 0), newseg] w4 in
        if f AND 1 \<noteq> 0 then Inl (Exit_failure Dpmi_init_failed) else
        bindR (if r_esi r \<noteq> 0 then free_low E (ucast (r_eax r)) w5 else Inr w5) (\<lambda>w6.
          Inr (0, Some (load16 (own w6) (addr_psp_sel E)), w6))))"

section \<open>Lemmas\<close>

text \<open>What \<open>int2f\<close> does to the world, as one record update after the handler's return.\<close>

definition int2f_entry :: "u32 \<Rightarrow> 'h world \<Rightarrow> 'h world" where
  "int2f_entry p w = (let r = load_regs (own w) p in
     w\<lparr>edi := r_edi r, esi := r_esi r, edx := r_edx r, ecx := r_ecx r, eax := r_eax r, ebx := r_ebx r,
       cf := True\<rparr>)"

lemma regs_offsets [simp]:
  "r_edi (load_regs m p) = load32 m p" "r_esi (load_regs m p) = load32 m (p + 4)"
  "r_ebx (load_regs m p) = load32 m (p + 16)" "r_edx (load_regs m p) = load32 m (p + 20)"
  "r_ecx (load_regs m p) = load32 m (p + 24)" "r_eax (load_regs m p) = load32 m (p + 28)"
  "r_flags (load_regs m p) = load16 m (p + 32)" "r_es (load_regs m p) = load16 m (p + 34)"
  by (simp_all add: load_regs_def)

text \<open>The memory \<open>int2f\<close> leaves, with the registers the handler returned in.\<close>

definition int2f_exit :: "u32 \<Rightarrow> 'h world \<Rightarrow> mem" where
  "int2f_exit p v =
     (let m1 = store16 (store32 (own v) (p + 16) (ebx v)) (p + 32) (lo16 (eflags v));
          m2 = store32 (store32 (store32 m1 p (edi v)) (p + 4) (esi v)) (p + 20) (edx v);
          m3 = store32 (store32 m2 (p + 24) (ecx v)) (p + 28) (eax v)
      in store16 (store16 (store16 (store16 m3 (p + 34) (seg_es v)) (p + 36) (seg_ds v))
           (p + 38) (seg_fs v)) (p + 40) (seg_gs v))"

lemma lo16_ucast_sreg [simp]: "lo16 (ucast (s :: u16)) = s"
  by (rule bit_word_eqI) (auto simp: lo16_def bit_simps)

lemma pair32_sreg [simp]: "lo16 (pair32 (hi16 (ucast (s :: u16))) (lo16 (ucast s))) = s"
  by simp

lemma eflags_set_ebx [simp]: "eflags (w\<lparr>ebx := x\<rparr>) = eflags w" "eflags (w\<lparr>own := m\<rparr>) = eflags w"
  by (simp_all add: eflags_def)

lemma int2f_run:
  assumes "v = int_call E 0x2f (int2f_entry p w)"
  shows "exec E [p] (body int2f) (start w) =
    start (v\<lparr>ebx := p, own := int2f_exit p v, seg_es := seg_es w\<rparr>)"
proof -
  have v: "int_call E 0x2f (w\<lparr>edi := load32 (own w) p, esi := load32 (own w) (p + 4),
      edx := load32 (own w) (p + 20), ecx := load32 (own w) (p + 24), eax := load32 (own w) (p + 28),
      ebx := load32 (own w) (p + 16), cf := True\<rparr>) = v"
    by (simp add: assms int2f_entry_def Let_def)
  show ?thesis
    by (simp add: int2f_def exec_asm store_own32_def store_own16_def v) (simp add: int2f_exit_def Let_def)
qed

lemma load_regs_int2f:
  "load_regs (int2f_exit p v) p = (load_regs (own v) p)\<lparr>r_edi := edi v, r_esi := esi v, r_edx := edx v,
     r_ecx := ecx v, r_eax := eax v, r_ebx := ebx v, r_flags := lo16 (eflags v), r_es := seg_es v,
     r_ds := seg_ds v, r_fs := seg_fs v, r_gs := seg_gs v\<rparr>"
  by (simp add: load_regs_def int2f_exit_def Let_def load32_store_apart load16_store_apart apart_def)

lemma call_int2f:
  assumes "v = int_call E 0x2f (int2f_entry p w)"
  shows "snd (call_c E int2f [p] w) = v\<lparr>ebx := p, own := int2f_exit p v, seg_es := seg_es w\<rparr>"
  by (simp add: call_c_def int2f_run [OF assms] Let_def) (simp add: start_def)

lemma call_lcall:
  assumes "v = far_call E (lo16 sel) off (w\<lparr>eax := ax, ebx := bx\<rparr>)"
  shows "call_c E (lcall E) [sel, off, ax, bx] w =
    (eflags v, v\<lparr>eax := eflags v, own := store16 (own v) (addr_psp_sel E) (seg_es v), seg_es := seg_es w\<rparr>)"
proof -
  have e [simp]: "eflags (u\<lparr>eax := x\<rparr>) = eflags u" for u :: "'a world" and x
    by (simp add: eflags_def)
  show ?thesis
    using assms by (simp add: call_c_def lcall_def exec_asm store_own16_def Let_def)
qed

lemma store_bytes_far:
  "\<not> in_region x p n \<Longrightarrow> k + length bs \<le> n \<Longrightarrow> n \<le> 2 ^ 32 \<Longrightarrow>
    store_bytes m (p + of_nat k) bs x = m x"
  by (rule store_bytes_outside) (blast dest: in_region_sub)

lemma int2f_exit_outside:
  assumes "\<not> in_region x p 50"
  shows "int2f_exit p v x = own v x"
proof -
  have s32: "store32 m (p + of_nat k) y x = m x" if "k + 4 \<le> 50" for m k y
    using store_bytes_far [OF assms, of k "bytes32 y"] that by (simp add: store32_def)
  have s16: "store16 m (p + of_nat k) y x = m x" if "k + 2 \<le> 50" for m k y
    using store_bytes_far [OF assms, of k "bytes16 y"] that by (simp add: store16_def)
  note offs = s32 [of 0] s32 [of 4] s32 [of 16] s32 [of 20] s32 [of 24] s32 [of 28]
    s16 [of 32] s16 [of 34] s16 [of 36] s16 [of 38] s16 [of 40]
  show ?thesis
    unfolding int2f_exit_def Let_def using offs by simp
qed

text \<open>
  The answer of the host to the probe of \<open>dpmi_init\<close> (function 1687h), and the world after \<open>int2f\<close>
  brought it back.
\<close>

definition probe_reply :: "'h env \<Rightarrow> 'h world \<Rightarrow> 'h world" where
  "probe_reply E w = int_call E 0x2f (int2f_entry (local_slot2 E)
     (w\<lparr>own := store_regs (own w) (local_slot2 E) (regs_zero\<lparr>r_eax := 0x1687, r_ebx := 0x1000\<rparr>)\<rparr>))"

lemma probe_eax:
  "eax (int2f_entry p (w\<lparr>own := store_regs m p (regs_zero\<lparr>r_eax := 0x1687, r_ebx := 0x1000\<rparr>)\<rparr>)) = 0x1687"
proof -
  have "r_eax (load_regs (store_regs m p (regs_zero\<lparr>r_eax := 0x1687, r_ebx := 0x1000\<rparr>)) p) = 0x1687"
    by (simp only: load_regs_store_regs) simp
  then show ?thesis by (simp add: int2f_entry_def Let_def)
qed

definition probed :: "'h env \<Rightarrow> 'h world \<Rightarrow> 'h world" where
  "probed E w = (let v = probe_reply E w in
     v\<lparr>ebx := local_slot2 E, own := int2f_exit (local_slot2 E) v, seg_es := seg_es w\<rparr>)"

text \<open>The copy of the host's private pool below the new end of the block, and the mode switch.\<close>

definition pool_seg :: "'h env \<Rightarrow> u16 \<Rightarrow> u32" where
  "pool_seg E para = ucast (get_low_pool E) + ucast para"

definition pool_moved :: "'h env \<Rightarrow> u16 \<Rightarrow> 'h world \<Rightarrow> 'h world \<Rightarrow> 'h world" where
  "pool_moved E para v w = (if esi v \<noteq> 0
     then memmove_low (push_bit 4 (pool_seg E para)) (push_bit 4 (eax v)) (push_bit 4 (esi v)) w else w)"

definition switched :: "'h env \<Rightarrow> u16 \<Rightarrow> 'h world \<Rightarrow> 'h world \<Rightarrow> 'h world" where
  "switched E para v w = far_call E (seg_es v) (edi v)
     (w\<lparr>eax := 1 OR (if esi v \<noteq> 0 then 0x1000 else 0), ebx := pool_seg E para\<rparr>)"

definition switch_done :: "'h env \<Rightarrow> 'h world \<Rightarrow> 'h world \<Rightarrow> 'h world" where
  "switch_done E x w = x\<lparr>eax := eflags x, own := store16 (own x) (addr_psp_sel E) (seg_es x),
     seg_es := seg_es w\<rparr>"

lemma flags_carry: "lo16 (eflags v) AND 1 = (if cf v then 1 else 0)"
proof -
  have "lo16 (eflags v) AND 1 = lo16 (eflags v AND 1)"
    by (rule bit_word_eqI) (auto simp: lo16_def bit_simps)
  then show ?thesis by (simp add: eflags_carry lo16_def)
qed

lemma dpmi_init_eq:
  "dpmi_init E para w = (let v = probe_reply E w in
     if cf v then Inr (- 1, None, probed E w)
     else if ebx v AND 1 = 0 then Inl (Exit_failure Dpmi32_unavailable)
     else if ebx v AND 0x1402 \<noteq> 0x402 \<and> (eax v \<noteq> 0 \<or> esi v \<noteq> 0)
       then Inl (Exit_failure Invalid_dpmi_server)
     else bindR (shrink_low E (ucast (ucast para + esi v)) (probed E w)) (\<lambda>w3.
       let w4 = pool_moved E para v w3; x = switched E para v w4; w5 = switch_done E x w4 in
       if cf x then Inl (Exit_failure Dpmi_init_failed)
       else bindR (if esi v \<noteq> 0 then free_low E (ucast (eax v)) w5 else Inr w5)
         (\<lambda>w6. Inr (0, Some (load16 (own w6) (addr_psp_sel E)), w6))))"
proof -
  let ?p = "local_slot2 E"
  define w1 where "w1 = w\<lparr>own := store_regs (own w) ?p (regs_zero\<lparr>r_eax := 0x1687, r_ebx := 0x1000\<rparr>)\<rparr>"
  define v where "v = int_call E 0x2f (int2f_entry ?p w1)"
  have v: "probe_reply E w = v" by (simp add: probe_reply_def v_def w1_def)
  have w2: "snd (call_c E int2f [?p] w1) = probed E w"
    unfolding call_int2f [OF v_def] by (simp add: probed_def v w1_def Let_def)
  have own: "own (probed E w) = int2f_exit ?p v" by (simp add: probed_def v Let_def)
  have r: "load32 (int2f_exit ?p v) (?p + 16) = ebx v" "load32 (int2f_exit ?p v) (?p + 28) = eax v"
    "load32 (int2f_exit ?p v) (?p + 4) = esi v" "load32 (int2f_exit ?p v) ?p = edi v"
    "load16 (int2f_exit ?p v) (?p + 32) = lo16 (eflags v)" "load16 (int2f_exit ?p v) (?p + 34) = seg_es v"
    using load_regs_int2f [of ?p v] by (simp_all add: load_regs_def)
  have call: "call_c E (lcall E) [ucast (seg_es v), edi v, ax, bx] u =
      (let x = far_call E (seg_es v) (edi v) (u\<lparr>eax := ax, ebx := bx\<rparr>) in (eflags x, switch_done E x u))"
    for ax bx u
    using call_lcall [OF refl, of E "ucast (seg_es v)" "edi v" ax bx u]
    by (simp add: switch_done_def Let_def)
  have carry: "(eflags x AND 1 \<noteq> 0) = cf x" for x :: "'a world"
    by (simp add: eflags_carry)
  have def: "dpmi_init E para w = (let w2 = snd (call_c E int2f [?p] w1); r = load_regs (own w2) ?p in
      if r_flags r AND 1 \<noteq> 0 then Inr (- 1, None, w2) else
      if r_ebx r AND 1 = 0 then Inl (Exit_failure Dpmi32_unavailable) else
      if r_ebx r AND 0x1402 \<noteq> 0x402 \<and> (r_eax r \<noteq> 0 \<or> r_esi r \<noteq> 0)
        then Inl (Exit_failure Invalid_dpmi_server) else
      bindR (shrink_low E (ucast (ucast para + r_esi r)) w2) (\<lambda>w3.
        let newseg = pool_seg E para;
            w4 = (if r_esi r \<noteq> 0
                  then memmove_low (push_bit 4 newseg) (push_bit 4 (r_eax r)) (push_bit 4 (r_esi r)) w3
                  else w3);
            (f, w5) = call_c E (lcall E)
              [ucast (r_es r), r_edi r, 1 OR (if r_esi r \<noteq> 0 then 0x1000 else 0), newseg] w4 in
        if f AND 1 \<noteq> 0 then Inl (Exit_failure Dpmi_init_failed) else
        bindR (if r_esi r \<noteq> 0 then free_low E (ucast (r_eax r)) w5 else Inr w5) (\<lambda>w6.
          Inr (0, Some (load16 (own w6) (addr_psp_sel E)), w6))))"
    by (simp only: dpmi_init_def w1_def pool_seg_def Let_def split_def)
  have flag: "(lo16 (eflags v) AND 1 \<noteq> 0) = cf v" by (simp add: flags_carry)
  show ?thesis
    by (simp only: def w2 own Let_def regs_offsets r call prod.case carry v flag pool_moved_def switched_def)
qed

section \<open>Properties\<close>

text \<open>
  C17. \<open>int2f\<close> is a faithful real-mode interrupt call: the handler of interrupt 2Fh is entered with the
  registers of the block and the carry flag set; afterwards the block holds the registers, flags and
  segment registers the handler returned, its other members are unchanged, the caller's \<open>es\<close> is
  restored, no byte outside of the block is written, and the stack is balanced.
\<close>

theorem int2f_marshals:
  "let v = int_call E 0x2f (int2f_entry p w); u = snd (call_c E int2f [p] w) in
     load_regs (own u) p = (load_regs (own v) p)\<lparr>r_edi := edi v, r_esi := esi v, r_edx := edx v,
       r_ecx := ecx v, r_eax := eax v, r_ebx := ebx v, r_flags := lo16 (eflags v), r_es := seg_es v,
       r_ds := seg_ds v, r_fs := seg_fs v, r_gs := seg_gs v\<rparr> \<and>
     seg_es u = seg_es w \<and> lin u = lin v \<and> host u = host v \<and>
     (\<forall>x. in_region x p 50 \<or> own u x = own v x) \<and>
     clean (exec E [p] (body int2f) (start w)) \<and> uses_args int2f"
proof -
  define v where "v = int_call E 0x2f (int2f_entry p w)"
  have "uses_args int2f" by (simp add: uses_args_def int2f_def)
  then show ?thesis
    using int2f_exit_outside [of _ p v]
    unfolding Let_def v_def [symmetric] call_int2f [OF v_def] int2f_run [OF v_def]
    by (auto simp: load_regs_int2f clean_def start_def)
qed

text \<open>
  C18. What \<open>dpmi_init\<close> amounts to, with the assembly and the register block resolved: no host (carry)
  returns \<open>-1\<close>; a host without 32-bit support, or one that wants private memory without having
  acknowledged the pool request, ends the program; otherwise the block is resized, the pool is moved if
  there is one, the mode switch is entered at the address of the reply with 1 (and 1000h for a pool) in
  \<open>eax\<close> and the new pool segment in \<open>ebx\<close>, a failing switch ends the program, the old pool is freed, and
  the result is the selector the switch returned in \<open>es\<close>, as stored in \<open>_psp_sel\<close>.
\<close>

theorem dpmi_init_behaviour:
  "dpmi_init E para w = (let v = probe_reply E w in
     if cf v then Inr (- 1, None, probed E w)
     else if ebx v AND 1 = 0 then Inl (Exit_failure Dpmi32_unavailable)
     else if ebx v AND 0x1402 \<noteq> 0x402 \<and> (eax v \<noteq> 0 \<or> esi v \<noteq> 0)
       then Inl (Exit_failure Invalid_dpmi_server)
     else bindR (shrink_low E (ucast (ucast para + esi v)) (probed E w)) (\<lambda>w3.
       let w4 = pool_moved E para v w3; x = switched E para v w4; w5 = switch_done E x w4 in
       if cf x then Inl (Exit_failure Dpmi_init_failed)
       else bindR (if esi v \<noteq> 0 then free_low E (ucast (eax v)) w5 else Inr w5)
         (\<lambda>w6. Inr (0, Some (load16 (own w6) (addr_psp_sel E)), w6))))"
  by (rule dpmi_init_eq)

text \<open>
  A successful \<open>dpmi_init\<close> did everything the protocol asks for: the host was 32-bit and either
  needs no private memory or acknowledged the pool; the program's stack is above the memory given back;
  the block was resized before the switch; when there is a pool, its bytes stand at the new pool
  segment when the switch is entered; the switch reported no error.
\<close>

theorem dpmi_init_success:
  assumes "dpmi_init E para w = Inr (0, sel, u)" "v = probe_reply E w"
  shows "\<not> cf v \<and> ebx v AND 1 \<noteq> 0 \<and> (ebx v AND 0x1402 = 0x402 \<or> eax v = 0 \<and> esi v = 0) \<and>
    0x110000 < stack_ptr E \<and>
    (\<exists>w3 w4. shrink_low E (ucast (ucast para + esi v)) (probed E w) = Inr w3 \<and> own w4 = own w3 \<and>
      load_bytes (lin w4) (push_bit 4 (pool_seg E para)) (unat (push_bit 4 (esi v))) =
        load_bytes (lin w3) (if esi v = 0 then push_bit 4 (pool_seg E para) else push_bit 4 (eax v))
          (unat (push_bit 4 (esi v))) \<and>
      \<not> cf (switched E para v w4) \<and>
      (if esi v = 0 then sel = Some (seg_es (switched E para v w4)) \<and> u = switch_done E (switched E para v w4) w4
       else free_low E (ucast (eax v)) (switch_done E (switched E para v w4) w4) = Inr u))"
proof -
  have c: "\<not> cf v" "ebx v AND 1 \<noteq> 0" "ebx v AND 0x1402 = 0x402 \<or> eax v = 0 \<and> esi v = 0"
    using assms(1) unfolding dpmi_init_eq Let_def assms(2) [symmetric] by (auto split: if_splits)
  obtain w3 where w3: "shrink_low E (ucast (ucast para + esi v)) (probed E w) = Inr w3"
    "(let w4 = pool_moved E para v w3; x = switched E para v w4; w5 = switch_done E x w4 in
       if cf x then Inl (Exit_failure Dpmi_init_failed)
       else bindR (if esi v \<noteq> 0 then free_low E (ucast (eax v)) w5 else Inr w5)
         (\<lambda>w6. Inr (0, Some (load16 (own w6) (addr_psp_sel E)), w6))) = Inr (0, sel, u)"
    using assms(1) c unfolding dpmi_init_eq Let_def assms(2) [symmetric]
    by (auto simp: bindR_Inr_iff split: if_splits)
  have stack: "0x110000 < stack_ptr E"
    using w3(1) by (auto simp: shrink_low_def split: if_splits)
  let ?w4 = "pool_moved E para v w3"
  have own: "own ?w4 = own w3" by (simp add: pool_moved_def memmove_low_def)
  have small: "unat (push_bit 4 (esi v)) \<le> 2 ^ 32"
    using unat_u32_less [of "push_bit 4 (esi v)"] by simp
  have pool: "load_bytes (lin ?w4) (push_bit 4 (pool_seg E para)) (unat (push_bit 4 (esi v))) =
      load_bytes (lin w3) (if esi v = 0 then push_bit 4 (pool_seg E para) else push_bit 4 (eax v))
        (unat (push_bit 4 (esi v)))"
    using load_store_bytes [of "load_bytes (lin w3) (push_bit 4 (eax v)) (unat (push_bit 4 (esi v)))"
        "lin w3" "push_bit 4 (pool_seg E para)"] small
    by (simp add: pool_moved_def memmove_low_def)
  have ncf: "\<not> cf (switched E para v ?w4)"
    using w3(2) by (auto simp: Let_def split: if_splits)
  have fin: "if esi v = 0 then sel = Some (seg_es (switched E para v ?w4)) \<and>
      u = switch_done E (switched E para v ?w4) ?w4
     else free_low E (ucast (eax v)) (switch_done E (switched E para v ?w4) ?w4) = Inr u"
    using w3(2) ncf by (auto simp: Let_def bindR_Inr_iff switch_done_def split: if_splits)
  show ?thesis using c stack w3(1) own pool ncf fin by blast
qed

text \<open>A host without private memory that accepts the switch and returns the selector A7h.\<close>

definition init_env :: "unit env" where
  "init_env = quiet_env\<lparr>int_call := (\<lambda>n w. w\<lparr>cf := False, eax := 0, ebx := 0x403, esi := 0, edi := 0x1234,
       seg_es := 0xf000\<rparr>), far_call := (\<lambda>s p w. w\<lparr>cf := False, seg_es := 0xA7\<rparr>)\<rparr>"

lemma init_env_runs:
  "\<exists>u. dpmi_init init_env para w = Inr (0, Some 0xA7, u)"
  by (simp add: dpmi_init_eq Let_def probe_reply_def init_env_def shrink_low_def quiet_env_def regs_zero_def
      pool_moved_def switched_def switch_done_def)

theorem dpmi_init_behaviour_witness:
  "map_sum id (\<lambda>(rc, sel, u). (rc, sel)) (dpmi_init init_env 0x400 quiet_world) = Inr (0, Some 0xA7)"
  by (simp add: dpmi_init_behaviour Let_def probe_reply_def init_env_def shrink_low_def quiet_env_def
      regs_zero_def pool_moved_def switched_def switch_done_def)

theorem dpmi_init_success_witness:
  "\<exists>u. dpmi_init init_env 0x400 quiet_world = Inr (0, Some 0xA7, u) \<and>
    ebx (probe_reply init_env quiet_world) AND 1 \<noteq> 0"
proof -
  obtain u where u: "dpmi_init init_env 0x400 quiet_world = Inr (0, Some 0xA7, u)"
    using init_env_runs by blast
  show ?thesis using dpmi_init_success [OF u refl] u by blast
qed

end
