(* ===== verification/FarGnu.thy ===== *)
theory FarGnu
  imports FarMem
begin

text \<open>
  The GNU C variants of \<open>farmemcpy\<close> and \<open>farmemset\<close> in \<open>util.c\<close>: instead of asking the host for the base of
  the segment they load its selector into \<open>es\<close> and let a repeated string instruction write through it. The
  processor reads the descriptor: a selector without one, or a word outside of the limit, is a fault
  (\<open>Bad_access\<close>). They are compared with the variants of \<open>FarMem\<close>.
\<close>

section \<open>String instructions\<close>

text \<open>
  \<open>rep movsw\<close> and \<open>rep stosw\<close> with \<open>n\<close> words to go, at the destination \<open>di\<close> in the segment \<open>d\<close>; the source is
  a buffer of \<open>cap\<close> bytes, read from its byte \<open>i\<close> on.
\<close>

definition word_inside :: "desc \<Rightarrow> u32 \<Rightarrow> bool" where
  "word_inside d di \<longleftrightarrow> unat di + 1 \<le> unat (d_limit d)"

fun rep_movsw :: "desc \<Rightarrow> (nat \<Rightarrow> u8) \<Rightarrow> nat \<Rightarrow> nat \<Rightarrow> nat \<Rightarrow> u32 \<Rightarrow> mem \<Rightarrow> stop + mem" where
  "rep_movsw d src cap 0 i di m = Inr m"
| "rep_movsw d src cap (Suc n) i di m =
     (if cap < i + 2 \<or> \<not> word_inside d di then Inl Bad_access
      else rep_movsw d src cap n (i + 2) (di + 2) (store_bytes m (d_base d + di) [src i, src (i + 1)]))"

fun rep_stosw :: "desc \<Rightarrow> u8 \<Rightarrow> u8 \<Rightarrow> nat \<Rightarrow> u32 \<Rightarrow> mem \<Rightarrow> stop + mem" where
  "rep_stosw d al ah 0 di m = Inr m"
| "rep_stosw d al ah (Suc n) di m =
     (if \<not> word_inside d di then Inl Bad_access
      else rep_stosw d al ah n (di + 2) (store_bytes m (d_base d + di) [al, ah]))"

section \<open>The routines\<close>

definition gnu_farmemcpy ::
  "'h view \<Rightarrow> char_far \<Rightarrow> u32 \<Rightarrow> (nat \<Rightarrow> u8) \<Rightarrow> nat \<Rightarrow> u32 \<Rightarrow> 'h world \<Rightarrow> stop + 'h world" where
  "gnu_farmemcpy D ptr offset src cap len w =
     (if len AND 1 \<noteq> 0 then Inl Assert_failed else
      case D (host w) (fp_seg ptr) of
        None \<Rightarrow> Inl Bad_access
      | Some d \<Rightarrow> bindR (rep_movsw d src cap (unat (drop_bit 1 len)) 0 (ucast (fp_off ptr) + offset) (lin w))
          (\<lambda>m. Inr (w\<lparr>lin := m, ecx := 0, edi := 0\<rparr>)))"

definition gnu_farmemset ::
  "'h view \<Rightarrow> char_far \<Rightarrow> u32 \<Rightarrow> u8 \<Rightarrow> u32 \<Rightarrow> 'h world \<Rightarrow> stop + 'h world" where
  "gnu_farmemset D ptr offset val sz w =
     (if sz AND 1 \<noteq> 0 then Inl Assert_failed else
      case D (host w) (fp_seg ptr) of
        None \<Rightarrow> Inl Bad_access
      | Some d \<Rightarrow> bindR (rep_stosw d val val (unat (drop_bit 1 sz)) (ucast (fp_off ptr) + offset) (lin w))
          (\<lambda>m. Inr (w\<lparr>lin := m, ecx := 0, edi := 0\<rparr>)))"

section \<open>Lemmas\<close>

text \<open>A run of \<open>k\<close> bytes from \<open>di\<close> lies inside of the limit.\<close>

definition run_inside :: "desc \<Rightarrow> u32 \<Rightarrow> nat \<Rightarrow> bool" where
  "run_inside d di k \<longleftrightarrow> k = 0 \<or> unat di + k \<le> unat (d_limit d) + 1"

lemma run_inside_step:
  assumes "unat di + 2 * Suc n \<le> 2 ^ 32"
  shows "run_inside d di (2 * Suc n) \<longleftrightarrow> word_inside d di \<and> run_inside d (di + 2) (2 * n)"
    "unat (di + 2) + 2 * n \<le> 2 ^ 32"
proof -
  have u: "n = 0 \<or> unat (di + 2) = unat di + 2"
    using assms by (cases n) (simp_all add: unat_word_ariths)
  then show "unat (di + 2) + 2 * n \<le> 2 ^ 32"
    using assms unat_u32_less [of "di + 2"] by auto
  show "run_inside d di (2 * Suc n) \<longleftrightarrow> word_inside d di \<and> run_inside d (di + 2) (2 * n)"
    using u by (auto simp: run_inside_def word_inside_def)
qed

lemma store_words:
  assumes "2 + length ys \<le> 2 ^ 32"
  shows "store_bytes (store_bytes m (b + di) [x, y]) (b + (di + 2)) ys = store_bytes m (b + di) (x # y # ys)"
  using store_bytes_append [of "[x, y]" ys m "b + di"] assms by (simp add: add.assoc)

lemma rep_movsw_run:
  "unat di + 2 * n \<le> 2 ^ 32 \<Longrightarrow> rep_movsw d src cap n i di m =
    (if n = 0 \<or> i + 2 * n \<le> cap \<and> run_inside d di (2 * n)
     then Inr (store_bytes m (d_base d + di) (map src [i..<i + 2 * n])) else Inl Bad_access)"
proof (induction n arbitrary: i di m)
  case (Suc n)
  have "[i..<i + 2 * Suc n] = i # (i + 1) # [i + 2..<i + 2 + 2 * n]"
    by (simp add: upt_conv_Cons del: upt_Suc)
  then have l: "map src [i..<i + 2 * Suc n] = src i # src (i + 1) # map src [i + 2..<i + 2 + 2 * n]"
    by (simp only: list.map)
  have "2 * n + 2 \<le> 2 ^ 32" using Suc.prems by simp
  then have "2 + length (map src [i + 2..<i + 2 + 2 * n]) \<le> 2 ^ 32" by (simp only: length_map length_upt)
  then show ?case
    using Suc.IH [OF run_inside_step(2) [OF Suc.prems]]
    unfolding run_inside_step(1) [OF Suc.prems] l
    by (auto simp: store_words run_inside_def)
qed simp

lemma rep_stosw_run:
  "unat di + 2 * n \<le> 2 ^ 32 \<Longrightarrow> rep_stosw d x x n di m =
    (if run_inside d di (2 * n) then Inr (store_bytes m (d_base d + di) (replicate (2 * n) x)) else Inl Bad_access)"
proof (induction n arbitrary: di m)
  case (Suc n)
  have "2 + length (replicate (2 * n) x) \<le> 2 ^ 32" using Suc.prems by simp
  then show ?case
    using Suc.IH [OF run_inside_step(2) [OF Suc.prems]]
    unfolding run_inside_step(1) [OF Suc.prems]
    by (auto simp: store_words)
qed (simp add: run_inside_def)

lemma even_half: "x AND 1 = 0 \<Longrightarrow> 2 * unat (drop_bit 1 (x :: u32)) = unat x"
  by (simp add: and_one_zero drop_bit_eq_div unat_div)

section \<open>Properties\<close>

text \<open>
  C37. The two variants of \<open>farmemcpy\<close> and of \<open>farmemset\<close> agree: for a range that does not wrap around the
  segment, the string instructions leave linear memory exactly as \<open>memcpy\<close> and \<open>memset\<close> to the base the host
  reports do, with the same assertion for odd sizes, except that they fault where the range leaves
  the limit of the segment, which the other variants do not look at.
\<close>

theorem far_variants_agree:
  assumes "get_base_law E D" "D (host w) (fp_seg p) = Some d"
    and "unat (ucast (fp_off p) + offset) + unat n \<le> 2 ^ 32"
  shows "map_sum id lin (gnu_farmemcpy D p offset src cap n w) =
      (if even (unat n) \<and> \<not> run_inside d (ucast (fp_off p) + offset) (unat n) then Inl Bad_access
       else map_sum id lin (farmemcpy E p offset src cap n w)) \<and>
    map_sum id lin (gnu_farmemset D p offset x n w) =
      (if even (unat n) \<and> \<not> run_inside d (ucast (fp_off p) + offset) (unat n) then Inl Bad_access
       else map_sum id lin (farmemset E p offset x n w))"
proof (cases "n AND 1 = 0")
  case False
  then show ?thesis
    by (simp add: gnu_farmemcpy_def gnu_farmemset_def farmemcpy_def farmemset_def and_one_zero)
next
  case True
  let ?di = "ucast (fp_off p) + offset" and ?k = "unat (drop_bit 1 n)"
  have ev: "even (unat n)" and k: "unat n = 2 * ?k" using True even_half [OF True] by (simp_all add: and_one_zero)
  have le: "unat ?di + 2 * ?k \<le> 2 ^ 32" using assms(3) k by simp
  have k0: "(?k = 0) = (n = 0)" using k by (auto simp: unat_eq_0)
  obtain c where c: "farmemset E p offset x n w = Inr c"
    "lin c = store_bytes (lin w) (d_base d + ?di) (replicate (unat n) x)"
    using farmemset_ok [OF assms(1,2) ev] by (auto simp: add.assoc)
  have cpy: "map_sum id lin (farmemcpy E p offset src cap n w) = (if unat n \<le> cap
      then Inr (store_bytes (lin w) (d_base d + ?di) (map src [0..<unat n])) else Inl Bad_access)"
  proof (cases "unat n \<le> cap")
    case True
    then show ?thesis using farmemcpy_ok [OF assms(1,2) ev True, of offset src] by (auto simp: add.assoc)
  next
    case False
    obtain rc v where "call_c E dpmi_get_segment_base_address [ucast (fp_seg p), local_slot E] w = (rc, v)"
      by fastforce
    then show ?thesis
      using call_get_base [OF assms(1,2)] False \<open>n AND 1 = 0\<close> by (auto simp: farmemcpy_def Let_def)
  qed
  have "map_sum id lin (gnu_farmemcpy D p offset src cap n w) =
      (if run_inside d ?di (unat n) then map_sum id lin (farmemcpy E p offset src cap n w) else Inl Bad_access)"
    using True assms(2) rep_movsw_run [OF le, of d src cap 0 "lin w"] k k0 unfolding cpy
    by (auto simp: gnu_farmemcpy_def run_inside_def)
  moreover have "map_sum id lin (gnu_farmemset D p offset x n w) =
      (if run_inside d ?di (unat n) then map_sum id lin (farmemset E p offset x n w) else Inl Bad_access)"
    using True assms(2) rep_stosw_run [OF le, of d x "lin w"] k c by (simp add: gnu_farmemset_def)
  ultimately show ?thesis using ev by simp
qed

theorem far_variants_agree_witness:
  "map_sum id lin (gnu_farmemset ref_view \<lparr>fp_off = 0, fp_seg = 0x87\<rparr> 0x10 7 4
      (ref_world [(0x87, with_limit 0x12 sample_desc)])) = Inl Bad_access \<and>
    map_sum id lin (gnu_farmemset ref_view \<lparr>fp_off = 0, fp_seg = 0x87\<rparr> 0x10 7 4
      (ref_world [(0x87, with_limit 0x13 sample_desc)])) \<noteq> Inl Bad_access"
proof -
  let ?p = "\<lparr>fp_off = 0, fp_seg = 0x87\<rparr>" and ?w = "\<lambda>l. ref_world [(0x87, with_limit l sample_desc)]"
  have d: "ref_view (host (?w l)) (fp_seg ?p) = Some (with_limit l sample_desc)" for l
    by (simp add: ref_view_def ref_world_def)
  have le: "unat (ucast (fp_off ?p) + (0x10 :: u32)) + unat (4 :: u32) \<le> 2 ^ 32" by simp
  have agree: "map_sum id lin (gnu_farmemset ref_view ?p 0x10 7 4 (?w l)) =
      (if \<not> run_inside (with_limit l sample_desc) 0x10 4 then Inl Bad_access
       else map_sum id lin (farmemset ref_env ?p 0x10 7 4 (?w l)))" for l
    using far_variants_agree [where src = "\<lambda>_. 0" and cap = 0 and x = 7, OF ref_get_base_law d le, of l] by simp
  obtain v where "farmemset ref_env ?p 0x10 7 4 (?w 0x13) = Inr v"
    using farmemset_ok [where sz = 4 and offset = "0x10" and val = 7, OF ref_get_base_law d] by auto
  then show ?thesis
    using agree [of "0x12"] agree [of "0x13"] by (simp add: run_inside_def limit_with_limit)
qed

end
