(* ===== verification/Headers.thy ===== *)
theory Headers
  imports Coff Elf
begin

text \<open>
  The first half of \<open>fullstub\<close> in \<open>stub.c\<close>: the strings it takes from its arguments, and the search for the
  payload along the chain of stub headers. \<open>open\<close> is a parameter: it maps a file name to an open file, if
  there is one. Strings are lists without the terminating NUL. The loop over the headers is one step
  function with a partial function around it; \<open>scan_path\<close> is its step relation.
\<close>

section \<open>Strings and the environment\<close>

definition ascii :: "string \<Rightarrow> bytes" where
  "ascii s = map of_char s"

text \<open>The part after the last backslash.\<close>

definition basename_c :: "bytes \<Rightarrow> bytes" where
  "basename_c name = rev (takeWhile (\<lambda>b. b \<noteq> 0x5c) (rev name))"

text \<open>The value of the first variable \<open>ELFEXEC\<close>, if there is one.\<close>

fun elfexec :: "bytes list \<Rightarrow> bytes option" where
  "elfexec [] = None"
| "elfexec (e # es) = (if take 8 e = ascii ''ELFEXEC='' then Some (drop 8 e) else elfexec es)"

definition env_bytes :: "bytes list \<Rightarrow> bytes list \<Rightarrow> nat" where
  "env_bytes argv envp = 3 + (\<Sum>e\<leftarrow>envp. length e + 1) + length (hd argv) + 1"

section \<open>The chain of headers\<close>

datatype loader = Coff_ops | Elf_ops

text \<open>The variables of the loop over the headers.\<close>

record hdr_scan =
  hs_coffset :: u32
  hs_coffsize :: u32
  hs_noffset :: u32
  hs_nsize :: u32
  hs_noffset2 :: u32
  hs_nsize2 :: u32
  hs_info :: stubinfo
  hs_file :: cfile

definition is_mz :: "bytes \<Rightarrow> bool" where
  "is_mz buf \<longleftrightarrow> buf ! 0 = 0x4d \<and> buf ! 1 = 0x5a \<and> buf ! 8 = 4 \<and> buf ! 9 = 0"

definition is_coff :: "bytes \<Rightarrow> bool" where
  "is_coff buf \<longleftrightarrow> buf ! 0 = 0x4c \<and> buf ! 1 = 1"

definition is_elf :: "bytes \<Rightarrow> bool" where
  "is_elf buf \<longleftrightarrow> buf ! 0 = 0x7f \<and> buf ! 1 = 0x45 \<and> buf ! 2 = 0x4c \<and> buf ! 3 = 0x46"

text \<open>What the branch for a stub header takes out of the 64 bytes.\<close>

definition mz_info :: "bytes \<Rightarrow> stubinfo \<Rightarrow> stubinfo" where
  "mz_info buf i = i\<lparr>payload2_name := (strncpy (payload2_name i) (drop 0x30 buf) 12)[12 := 0],
     stubinfo_ver := stubinfo_ver i OR push_bit 16 (ucast (buf ! 0x3b)),
     si_flags := (si_flags i AND 0xffff0000) OR ucast (get16 buf 0x38)\<rparr>"

definition mz_fields :: "bytes \<Rightarrow> hdr_scan \<Rightarrow> hdr_scan" where
  "mz_fields buf s =
     (let offs = get32 buf 0x3c; csize = get32 buf 0x1c; nsize = get32 buf 0x20;
          noffset = (if csize \<noteq> 0 then offs + csize else hs_noffset s);
          noffset2 = (if nsize \<noteq> 0 then noffset + nsize else hs_noffset2 s)
      in s\<lparr>hs_coffset := offs, hs_coffsize := csize, hs_noffset := noffset, hs_nsize := nsize,
           hs_noffset2 := noffset2, hs_nsize2 := get32 buf 0x24, hs_info := mz_info buf (hs_info s)\<rparr>)"

definition scan_step :: "hdr_scan \<Rightarrow> stop + (loader option \<times> hdr_scan)" where
  "scan_step s = (case read_exact 0x40 (hs_file s) of
      (None, f1) \<Rightarrow> Inl (Exit_failure Fread_error)
    | (Some buf, f1) \<Rightarrow>
        (if is_mz buf then
           let s1 = mz_fields buf s in
           Inr (None, s1\<lparr>hs_file := lseek f1 (hs_coffset s1) Seek_set\<rparr>)
         else if is_coff buf then
           Inr (Some Coff_ops, s\<lparr>hs_file := lseek f1 (hs_coffset s) Seek_set\<rparr>)
         else if is_elf buf then
           Inr (Some Elf_ops, s\<lparr>hs_file := lseek f1 (hs_coffset s) Seek_set\<rparr>)
         else Inl (Exit_failure Not_an_exe)))"

partial_function (option) scan_headers :: "hdr_scan \<Rightarrow> (stop + (loader \<times> hdr_scan)) option" where
  "scan_headers s = (case scan_step s of
      Inl e \<Rightarrow> Some (Inl e)
    | Inr (Some ops, s1) \<Rightarrow> Some (Inr (ops, s1))
    | Inr (None, s1) \<Rightarrow> scan_headers s1)"

text \<open>Everything before the headers are read: the file is opened and its payload found.\<close>

definition scan_start :: "cfile \<Rightarrow> stubinfo \<Rightarrow> hdr_scan" where
  "scan_start f i = \<lparr>hs_coffset = 0, hs_coffsize = 0, hs_noffset = 0, hs_nsize = 0, hs_noffset2 = 0,
     hs_nsize2 = 0, hs_info = i, hs_file = f\<rparr>"

definition find_payload ::
  "(bytes \<Rightarrow> cfile option) \<Rightarrow> bytes list \<Rightarrow> bytes list \<Rightarrow> (stop + (loader \<times> hdr_scan)) option" where
  "find_payload open_file argv envp =
     (if argv = [] then Some (Inl (Exit_failure No_env)) else
      let fname = (case elfexec envp of Some v \<Rightarrow> v | None \<Rightarrow> hd argv);
          i = (if elfexec envp = None then stubinfo_zero
               else stubinfo_zero\<lparr>si_flags := si_flags stubinfo_zero OR SIFLG_ELFEXEC\<rparr>) in
      (case open_file fname of
         None \<Rightarrow> Some (Inl (Exit_failure Cannot_open))
       | Some f \<Rightarrow> (if elfexec envp = None then scan_headers (scan_start f i)
                   else Some (Inr (Elf_ops, scan_start f i)))))"

section \<open>Lemmas on the chain of headers\<close>

text \<open>One pass at a position where the file delivers 64 bytes.\<close>

definition hdr_at :: "hdr_scan \<Rightarrow> bytes" where
  "hdr_at s = take 0x40 (drop (f_pos (hs_file s)) (f_data (hs_file s)))"

lemma read_hdr:
  assumes "f_pos (hs_file s) + 0x40 \<le> length (f_data (hs_file s))" "f_bad (hs_file s) = []"
  shows "read_exact 0x40 (hs_file s) = (Some (hdr_at s), (hs_file s)\<lparr>f_pos := f_pos (hs_file s) + 0x40\<rparr>)"
  using assms by (simp add: read_exact_ok readable_def hdr_at_def pending_def)

lemma scan_step_mz:
  assumes "read_exact 0x40 (hs_file s) = (Some buf, f1)" "is_mz buf"
    and "offs = get32 buf 0x3c" "unat offs < 2 ^ 31"
  shows "scan_step s = Inr (None, (mz_fields buf s)\<lparr>hs_file := f1\<lparr>f_pos := unat offs\<rparr>\<rparr>)"
proof -
  have "hs_coffset (mz_fields buf s) = offs" by (simp add: mz_fields_def Let_def assms(3))
  then show ?thesis
    using assms(1,2,4) by (simp add: scan_step_def Let_def lseek_set)
qed

lemma magic_take [simp]:
  "is_mz (take 0x40 xs) = is_mz xs" "is_coff (take 0x40 xs) = is_coff xs"
  "is_elf (take 0x40 xs) = is_elf xs"
  by (simp_all add: is_mz_def is_coff_def is_elf_def)

lemma scan_step_payload:
  assumes "f_pos (hs_file s) + 0x40 \<le> length (f_data (hs_file s))" "f_bad (hs_file s) = []"
    and "\<not> is_mz (hdr_at s)" "is_coff (hdr_at s) \<or> is_elf (hdr_at s)"
    and "f_pos (hs_file s) = unat (hs_coffset s)" "unat (hs_coffset s) < 2 ^ 31"
  shows "scan_headers s = Some (Inr (if is_coff (hdr_at s) then Coff_ops else Elf_ops, s))"
proof -
  have "s\<lparr>hs_file := (hs_file s)\<lparr>f_pos := unat (hs_coffset s)\<rparr>\<rparr> = s"
    using assms(5) by (cases s; cases "hs_file s") simp
  then show ?thesis
    using assms(3,4,6) by (subst scan_headers.simps)
      (auto simp: scan_step_def read_hdr [OF assms(1,2)] lseek_set)
qed

text \<open>A stub header as the samples use it, with the payload at \<open>off\<close>.\<close>

definition sample_mz :: "u32 \<Rightarrow> u32 \<Rightarrow> u32 \<Rightarrow> bytes" where
  "sample_mz off csz nsz = [0x4d, 0x5a] @ replicate 6 0 @ [4, 0] @ replicate 18 0 @ bytes32 csz @
     bytes32 nsz @ replicate 23 0 @ [8] @ bytes32 off"

lemma sample_mz_facts:
  "length (sample_mz off csz nsz) = 0x40" "is_mz (sample_mz off csz nsz)"
  "get32 (sample_mz off csz nsz) 0x3c = off" "get32 (sample_mz off csz nsz) 0x1c = csz"
  by (simp_all add: sample_mz_def is_mz_def get32_def nth_append drop_replicate)

section \<open>The loop as a step relation\<close>

inductive scan_path :: "hdr_scan \<Rightarrow> hdr_scan \<Rightarrow> bool" for s where
  scan_here: "scan_path s s"
| scan_more: "scan_path s t \<Longrightarrow> scan_step t = Inr (None, u) \<Longrightarrow> scan_path s u"

lemma scan_path_result: "scan_path s t \<Longrightarrow> scan_headers t = scan_headers s"
proof (induction rule: scan_path.induct)
  case (scan_more t u)
  then show ?case by (simp add: scan_headers.simps [of t])
qed simp

lemma scan_path_first: "scan_path t u \<Longrightarrow> scan_step s = Inr (None, t) \<Longrightarrow> scan_path s u"
  by (induction rule: scan_path.induct) (auto intro: scan_path.intros)

text \<open>The loop ends in a state of its path from which no further pass is made.\<close>

lemma scan_headers_path:
  assumes "scan_headers s = Some r"
  shows "\<exists>t. scan_path s t \<and> (scan_step t = map_sum id (\<lambda>(ops, u). (Some ops, u)) r)"
proof (rule scan_headers.raw_induct [where P = "\<lambda>s r. \<exists>t. scan_path s t \<and>
      (scan_step t = map_sum id (\<lambda>(ops, u). (Some ops, u)) r)", OF _ assms])
  fix rec s r
  assume IH: "\<And>s r. rec s = Some r \<Longrightarrow>
      \<exists>t. scan_path s t \<and> (scan_step t = map_sum id (\<lambda>(ops, u). (Some ops, u)) r)"
    and run: "(case scan_step s of Inl e \<Rightarrow> Some (Inl e) | Inr (None, s1) \<Rightarrow> rec s1
      | Inr (Some ops, s1) \<Rightarrow> Some (Inr (ops, s1))) = Some r"
  consider e where "scan_step s = Inl e" | ops u where "scan_step s = Inr (Some ops, u)"
    | u where "scan_step s = Inr (None, u)"
    by (metis option.exhaust sum.exhaust surj_pair)
  then show "\<exists>t. scan_path s t \<and> (scan_step t = map_sum id (\<lambda>(ops, u). (Some ops, u)) r)"
  proof cases
    case 3
    then have "rec u = Some r" using run by simp
    from IH [OF this] show ?thesis using scan_path_first 3 by blast
  qed (use run in \<open>auto intro: scan_here\<close>)
qed

section \<open>The stub info block\<close>

text \<open>What the strings of the block need: their lengths, and a terminator in \<open>payload2_name\<close>.\<close>

definition info_inv :: "stubinfo \<Rightarrow> bool" where
  "info_inv i \<longleftrightarrow> stubinfo_ok i \<and> payload2_name i ! 12 = 0"

lemma info_inv_zero: "info_inv stubinfo_zero" "info_inv (stubinfo_zero\<lparr>si_flags := x\<rparr>)"
  by (simp_all add: info_inv_def stubinfo_ok_def stubinfo_zero_def)

lemma info_inv_mz: "info_inv i \<Longrightarrow> info_inv (mz_info buf i)"
  by (simp add: info_inv_def mz_info_def stubinfo_ok_def)

lemma info_inv_step: "scan_step s = Inr (x, t) \<Longrightarrow> info_inv (hs_info s) \<Longrightarrow> info_inv (hs_info t)"
  by (auto simp: scan_step_def mz_fields_def Let_def info_inv_mz split: option.splits prod.splits if_splits)

lemma info_inv_scan:
  assumes "scan_headers s = Some (Inr (ops, t))" "info_inv (hs_info s)"
  shows "info_inv (hs_info t)"
proof -
  obtain u where u: "scan_path s u" "scan_step u = Inr (Some ops, t)"
    using scan_headers_path [OF assms(1)] by auto
  from u(1) have "info_inv (hs_info u)"
    using assms(2) by (induction rule: scan_path.induct) (auto intro: info_inv_step)
  then show ?thesis using info_inv_step [OF u(2)] by blast
qed

lemma info_inv_found:
  assumes "find_payload open_file argv envp = Some (Inr (ops, s))"
  shows "info_inv (hs_info s)"
proof (cases "elfexec envp")
  case None
  then obtain f where "scan_headers (scan_start f stubinfo_zero) = Some (Inr (ops, s))"
    using assms by (auto simp: find_payload_def split: if_splits option.splits)
  from info_inv_scan [OF this] show ?thesis
    by (simp add: scan_start_def info_inv_zero)
next
  case (Some v)
  then show ?thesis
    using assms
    by (auto simp: find_payload_def Let_def scan_start_def info_inv_zero split: if_splits option.splits)
qed

text \<open>What every state of the loop has in common, and what a pass does to the rest.\<close>

definition scan_inv :: "cfile \<Rightarrow> stubinfo \<Rightarrow> hdr_scan \<Rightarrow> bool" where
  "scan_inv f i t \<longleftrightarrow> same_file f (hs_file t) \<and> info_inv (hs_info t) \<and>
     (unat (hs_coffset t) < 2 ^ 31 \<longrightarrow> f_pos (hs_file t) = unat (hs_coffset t)) \<and>
     lo16 (stubinfo_ver (hs_info t)) = lo16 (stubinfo_ver i) \<and> hi16 (si_flags (hs_info t)) = hi16 (si_flags i) \<and>
     (\<exists>n v g. hs_info t = i\<lparr>payload2_name := n, stubinfo_ver := v, si_flags := g\<rparr>)"

lemma mz_info_halves [simp]:
  "lo16 (stubinfo_ver (mz_info buf i)) = lo16 (stubinfo_ver i)" "hi16 (si_flags (mz_info buf i)) = hi16 (si_flags i)"
proof -
  have m: "(0xffff0000 :: u32) = push_bit 16 (mask 16)" by (simp add: mask_numeral)
  show "lo16 (stubinfo_ver (mz_info buf i)) = lo16 (stubinfo_ver i)"
    by (rule bit_word_eqI) (auto simp: mz_info_def lo16_def bit_simps)
  show "hi16 (si_flags (mz_info buf i)) = hi16 (si_flags i)"
    unfolding mz_info_def m
    by (rule bit_word_eqI) (auto simp: hi16_def bit_simps dest: bit_imp_le_length)
qed

lemma scan_inv_step:
  assumes "scan_inv f i t" "scan_step t = Inr (None, u)"
  shows "scan_inv f i u"
proof -
  obtain buf f1 where rd: "read_exact 0x40 (hs_file t) = (Some buf, f1)"
    and u: "u = (mz_fields buf t)\<lparr>hs_file := lseek f1 (hs_coffset (mz_fields buf t)) Seek_set\<rparr>"
    using assms(2) by (auto simp: scan_step_def Let_def split: option.splits prod.splits if_splits)
  have info: "hs_info u = mz_info buf (hs_info t)" by (simp add: u mz_fields_def Let_def)
  have pos: "unat (hs_coffset u) < 2 ^ 31 \<longrightarrow> f_pos (hs_file u) = unat (hs_coffset u)"
    by (simp add: u lseek_set)
  have "same_file (hs_file t) (hs_file u)"
    using read_exact_data [OF rd] by (simp add: u same_file_def)
  then have same: "same_file f (hs_file u)"
    using assms(1) same_file_trans unfolding scan_inv_def by blast
  obtain n v g where t: "hs_info t = i\<lparr>payload2_name := n, stubinfo_ver := v, si_flags := g\<rparr>"
    using assms(1) unfolding scan_inv_def by blast
  then have "\<exists>n v g. hs_info u = i\<lparr>payload2_name := n, stubinfo_ver := v, si_flags := g\<rparr>"
    by (auto simp: info mz_info_def)
  then show ?thesis
    using assms(1) same pos info_inv_mz unfolding scan_inv_def info by simp
qed

lemma scan_inv_path:
  "scan_path s t \<Longrightarrow> scan_inv f i s \<Longrightarrow> scan_inv f i t"
  by (induction rule: scan_path.induct) (auto intro: scan_inv_step)

section \<open>Chains of headers\<close>

text \<open>
  \<open>n\<close> stub headers follow each other from position \<open>p\<close>, each naming the position of the next; the last
  one names \<open>q\<close>. What the loop collects on the way.
\<close>

definition lfanew :: "bytes \<Rightarrow> nat \<Rightarrow> nat" where
  "lfanew d p = unat (get32 (take 0x40 (drop p d)) 0x3c)"

fun mz_chain :: "bytes \<Rightarrow> nat \<Rightarrow> nat \<Rightarrow> nat \<Rightarrow> bool" where
  "mz_chain d p 0 q \<longleftrightarrow> p = q"
| "mz_chain d p (Suc n) q \<longleftrightarrow>
     p + 0x40 \<le> length d \<and> is_mz (drop p d) \<and> lfanew d p < 2 ^ 31 \<and> mz_chain d (lfanew d p) n q"

fun mz_run :: "bytes \<Rightarrow> nat \<Rightarrow> nat \<Rightarrow> hdr_scan \<Rightarrow> hdr_scan" where
  "mz_run d p 0 s = s"
| "mz_run d p (Suc n) s = mz_run d (lfanew d p) n (mz_fields (take 0x40 (drop p d)) s)"

lemma mz_fields_file [simp]: "mz_fields b (s\<lparr>hs_file := f\<rparr>) = (mz_fields b s)\<lparr>hs_file := f\<rparr>"
  by (simp add: mz_fields_def Let_def)

lemma mz_run_file [simp]: "mz_run d p n (s\<lparr>hs_file := f\<rparr>) = (mz_run d p n s)\<lparr>hs_file := f\<rparr>"
  by (induction n arbitrary: p s) simp_all

lemma mz_run_coffset:
  "mz_chain d p n q \<Longrightarrow> unat (hs_coffset s) = p \<Longrightarrow> unat (hs_coffset (mz_run d p n s)) = q"
  by (induction n arbitrary: p s) (auto simp: mz_fields_def Let_def lfanew_def)

lemma mz_chain_small: "mz_chain d p n q \<Longrightarrow> p < 2 ^ 31 \<Longrightarrow> q < 2 ^ 31"
  by (induction n arbitrary: p) auto

lemma scan_chain:
  assumes "mz_chain d p n q" "hs_file s = f\<lparr>f_pos := p\<rparr>" "f_data f = d" "f_bad f = []"
  shows "scan_headers s = scan_headers ((mz_run d p n s)\<lparr>hs_file := f\<lparr>f_pos := q\<rparr>\<rparr>)"
  using assms(1,2)
proof (induction n arbitrary: p s)
  case 0
  then have "s\<lparr>hs_file := f\<lparr>f_pos := q\<rparr>\<rparr> = s" by (cases s) simp
  then show ?case by simp
next
  case (Suc n)
  let ?b = "take 0x40 (drop p d)"
  let ?t = "(mz_fields ?b s)\<lparr>hs_file := f\<lparr>f_pos := lfanew d p\<rparr>\<rparr>"
  have rd: "read_exact 0x40 (hs_file s) = (Some ?b, f\<lparr>f_pos := p + 0x40\<rparr>)"
    using read_hdr [of s] Suc.prems assms(3,4) by (simp add: hdr_at_def)
  have "scan_step s = Inr (None, ?t)"
    using scan_step_mz [OF rd _ refl] Suc.prems(1) by (simp add: lfanew_def)
  then have "scan_headers s = scan_headers ?t"
    by (subst scan_headers.simps) simp
  also have "\<dots> = scan_headers ((mz_run d (lfanew d p) n ?t)\<lparr>hs_file := f\<lparr>f_pos := q\<rparr>\<rparr>)"
    using Suc.IH [of "lfanew d p" ?t] Suc.prems(1) by simp
  finally show ?case by simp
qed

lemma mz_chain_snoc:
  "mz_chain d p n q \<Longrightarrow> q + 0x40 \<le> length d \<Longrightarrow> is_mz (drop q d) \<Longrightarrow> lfanew d q < 2 ^ 31 \<Longrightarrow>
    mz_chain d p (Suc n) (lfanew d q)"
  by (induction n arbitrary: p) auto

text \<open>
  Every stub header that the search reaches points behind itself. Bytes that look like a header elsewhere in
  the file do not matter.
\<close>

definition ascending :: "cfile \<Rightarrow> bool" where
  "ascending f \<longleftrightarrow> (\<forall>n q. mz_chain (f_data f) (f_pos f) n q \<longrightarrow> q + 0x40 \<le> length (f_data f) \<longrightarrow>
     is_mz (drop q (f_data f)) \<longrightarrow> q < lfanew (f_data f) q \<and> lfanew (f_data f) q < 2 ^ 31)"

lemma scan_ascending:
  assumes "ascending f" "f_data (hs_file s) = f_data f" "mz_chain (f_data f) (f_pos f) n (f_pos (hs_file s))"
  shows "\<exists>r. scan_headers s = Some r"
  using assms(2,3)
proof (induction "length (f_data f) - f_pos (hs_file s)" arbitrary: s n rule: less_induct)
  case less
  let ?d = "f_data f" and ?p = "f_pos (hs_file s)"
  obtain r f1 where rd: "read_exact 0x40 (hs_file s) = (r, f1)" by fastforce
  show ?case
  proof (cases r)
    case None
    then show ?thesis using rd by (subst scan_headers.simps) (simp add: scan_step_def)
  next
    case (Some buf)
    have b: "buf = take 0x40 (drop ?p ?d)" "length buf = 0x40" "f1 = (hs_file s)\<lparr>f_pos := ?p + 0x40\<rparr>"
      using read_exact_Some [OF rd [unfolded Some]] less.prems(1) by (auto simp: pending_def)
    then have len: "?p + 0x40 \<le> length ?d" by simp
    show ?thesis
    proof (cases "is_mz buf")
      case False
      then show ?thesis using rd Some by (subst scan_headers.simps) (simp add: scan_step_def)
    next
      case True
      then have mz: "is_mz (drop ?p ?d)" by (simp add: b(1))
      have o: "?p < lfanew ?d ?p" "lfanew ?d ?p < 2 ^ 31"
        using assms(1) less.prems(2) len mz unfolding ascending_def by blast+
      let ?t = "(mz_fields buf s)\<lparr>hs_file := f1\<lparr>f_pos := lfanew ?d ?p\<rparr>\<rparr>"
      have step: "scan_step s = Inr (None, ?t)"
        using scan_step_mz [OF rd [unfolded Some] True refl] o(2) by (simp add: b(1) lfanew_def)
      have "length ?d - f_pos (hs_file ?t) < length ?d - ?p" using o(1) len by simp
      moreover have "f_data (hs_file ?t) = ?d" using b(3) less.prems(1) by simp
      moreover have "mz_chain ?d (f_pos f) (Suc n) (f_pos (hs_file ?t))"
        using mz_chain_snoc [OF less.prems(2) len mz o(2)] by simp
      ultimately obtain r where "scan_headers ?t = Some r" using less.hyps by blast
      then show ?thesis by (subst scan_headers.simps) (simp add: step)
    qed
  qed
qed

text \<open>Headers that lead back to where they started: the loop never leaves them.\<close>

lemma scan_cycle:
  assumes "mz_chain d q (Suc k) q" "scan_headers s = Some r"
  shows "\<not> (\<exists>b. mz_chain d (f_pos (hs_file s)) (Suc b) q \<and> f_data (hs_file s) = d \<and> f_bad (hs_file s) = [])"
    (is "\<not> ?on s")
proof (rule scan_headers.raw_induct [where P = "\<lambda>s r. \<not> ?on s", OF _ assms(2)])
  fix rec s r
  assume IH: "\<And>s r. rec s = Some r \<Longrightarrow> \<not> ?on s"
    and run: "(case scan_step s of Inl e \<Rightarrow> Some (Inl e) | Inr (None, s1) \<Rightarrow> rec s1
      | Inr (Some ops, s1) \<Rightarrow> Some (Inr (ops, s1))) = Some r"
  show "\<not> ?on s"
  proof
    let ?p = "f_pos (hs_file s)"
    assume "?on s"
    then obtain b where b: "mz_chain d ?p (Suc b) q" "f_data (hs_file s) = d" "f_bad (hs_file s) = []" by blast
    then have p: "?p + 0x40 \<le> length d" "is_mz (take 0x40 (drop ?p d))" "lfanew d ?p < 2 ^ 31"
      "mz_chain d (lfanew d ?p) b q" by simp_all
    have rd: "read_exact 0x40 (hs_file s) = (Some (take 0x40 (drop ?p d)), (hs_file s)\<lparr>f_pos := ?p + 0x40\<rparr>)"
      using read_hdr [of s] p(1) b(2,3) by (simp add: hdr_at_def)
    let ?t = "(mz_fields (take 0x40 (drop ?p d)) s)\<lparr>hs_file := (hs_file s)\<lparr>f_pos := lfanew d ?p\<rparr>\<rparr>"
    have "scan_step s = Inr (None, ?t)"
      using scan_step_mz [OF rd p(2) refl] p(3) by (simp add: lfanew_def)
    then have "rec ?t = Some r" using run by simp
    from IH [OF this] have no: "\<not> mz_chain d (lfanew d ?p) (Suc c) q" for c using b(2,3) by auto
    show False
    proof (cases b)
      case 0
      then have "lfanew d ?p = q" using p(4) by simp
      then show False using no [of k] assms(1) by simp
    next
      case (Suc c)
      then show False using no [of c] p(4) by simp
    qed
  qed
qed

lemma scan_chain_payload:
  assumes "mz_chain (f_data f) 0 n q" "f_pos f = 0" "f_bad f = []"
    and "q + 0x40 \<le> length (f_data f)" "\<not> is_mz (drop q (f_data f))"
    and "is_coff (drop q (f_data f)) \<or> is_elf (drop q (f_data f))"
  shows "scan_headers (scan_start f i) = Some (Inr
      (if is_coff (drop q (f_data f)) then Coff_ops else Elf_ops,
       (mz_run (f_data f) 0 n (scan_start f i))\<lparr>hs_file := f\<lparr>f_pos := q\<rparr>\<rparr>)) \<and>
    unat (hs_coffset (mz_run (f_data f) 0 n (scan_start f i))) = q"
proof -
  let ?s = "scan_start f i"
  let ?t = "(mz_run (f_data f) 0 n ?s)\<lparr>hs_file := f\<lparr>f_pos := q\<rparr>\<rparr>"
  have co: "unat (hs_coffset (mz_run (f_data f) 0 n ?s)) = q"
    using mz_run_coffset [OF assms(1)] by (simp add: scan_start_def)
  have f: "hs_file ?s = f\<lparr>f_pos := 0\<rparr>" using assms(2) by (simp add: scan_start_def)
  have at: "hdr_at ?t = take 0x40 (drop q (f_data f))" by (simp add: hdr_at_def)
  have "scan_headers ?t = Some (Inr (if is_coff (hdr_at ?t) then Coff_ops else Elf_ops, ?t))"
  proof (rule scan_step_payload)
    show "\<not> is_mz (hdr_at ?t)" "is_coff (hdr_at ?t) \<or> is_elf (hdr_at ?t)"
      unfolding at using assms(5,6) by simp_all
  qed (use assms(3,4) co mz_chain_small [OF assms(1)] in simp_all)
  then show ?thesis
    using scan_chain [OF assms(1) f refl assms(3)] co by (simp add: at)
qed

text \<open>The position of the last of \<open>n + 1\<close> headers; the loop's variables are those of this header.\<close>

fun mz_last :: "bytes \<Rightarrow> nat \<Rightarrow> nat \<Rightarrow> nat" where
  "mz_last d p 0 = p"
| "mz_last d p (Suc n) = mz_last d (lfanew d p) n"

lemma mz_run_last:
  "mz_run d p (Suc n) s = mz_fields (take 0x40 (drop (mz_last d p n) d)) (mz_run d p n s)"
proof (induction n arbitrary: p s)
  case (Suc n)
  from Suc [of "lfanew d p"] show ?case by simp
qed simp

lemma mz_chain_last: "mz_chain d p (Suc n) q \<Longrightarrow> lfanew d (mz_last d p n) = q"
  by (induction n arbitrary: p) auto

lemma lo16_flags: "lo16 (si_flags (mz_info buf i)) = get16 buf 0x38"
proof -
  have m: "(0xffff0000 :: u32) = push_bit 16 (mask 16)" by (simp add: mask_numeral)
  show ?thesis
    unfolding mz_info_def m by (rule bit_word_eqI) (auto simp: lo16_def bit_simps)
qed

section \<open>Properties\<close>

text \<open>
  C20. The search follows a chain of stub headers of any length to its end: when the headers name each
  other and the last one names the position \<open>q\<close> of a COFF or ELF header, the loop stops there with that
  format and the file at \<open>q\<close>, and its variables describe the payloads as the last header does: sizes,
  the offset behind the program and the one behind the first payload, and the flags.
\<close>

theorem scan_follows_chain:
  assumes "f_pos f = 0" "f_bad f = []" "mz_chain (f_data f) 0 (Suc n) q"
    and "h = take 0x40 (drop (mz_last (f_data f) 0 n) (f_data f))"
    and "q + 0x40 \<le> length (f_data f)" "\<not> is_mz (drop q (f_data f))"
    and "is_coff (drop q (f_data f)) \<or> is_elf (drop q (f_data f))"
  shows "\<exists>s. scan_headers (scan_start f i) =
      Some (Inr (if is_coff (drop q (f_data f)) then Coff_ops else Elf_ops, s)) \<and>
    hs_file s = f\<lparr>f_pos := q\<rparr> \<and> hs_coffset s = of_nat q \<and>
    hs_coffsize s = get32 h 0x1c \<and> hs_nsize s = get32 h 0x20 \<and> hs_nsize2 s = get32 h 0x24 \<and>
    (get32 h 0x1c = 0 \<or> hs_noffset s = of_nat q + get32 h 0x1c) \<and>
    (get32 h 0x20 = 0 \<or> hs_noffset2 s = hs_noffset s + get32 h 0x20) \<and>
    lo16 (si_flags (hs_info s)) = get16 h 0x38"
proof -
  let ?t = "mz_run (f_data f) 0 n (scan_start f i)"
  let ?s = "mz_run (f_data f) 0 (Suc n) (scan_start f i)"
  have s: "?s = mz_fields h ?t" unfolding assms(4) by (rule mz_run_last)
  have off: "get32 h 0x3c = of_nat q"
    using mz_chain_last [OF assms(3)] assms(4) by (auto simp: lfanew_def)
  have run: "scan_headers (scan_start f i) =
      Some (Inr (if is_coff (drop q (f_data f)) then Coff_ops else Elf_ops, ?s\<lparr>hs_file := f\<lparr>f_pos := q\<rparr>\<rparr>))"
    using scan_chain_payload [OF assms(3,1,2,5-7)] by blast
  show ?thesis
    by (intro exI [of _ "?s\<lparr>hs_file := f\<lparr>f_pos := q\<rparr>\<rparr>"])
      (auto simp only: run s, auto simp: mz_fields_def Let_def off lo16_flags split: if_splits)
qed

text \<open>Two headers in front of the sample program.\<close>

definition sample_chain :: bytes where
  "sample_chain = sample_mz 0x40 0 0 @ sample_mz 0x80 121 0 @ sample_elf"

lemma sample_elf_magic: "\<not> is_mz sample_elf" "\<not> is_coff sample_elf" "is_elf sample_elf"
proof -
  have mag: "take 4 sample_elf = [0x7f, 0x45, 0x4c, 0x46]"
    by (simp add: sample_elf_def Ehdr_image_def sample_Ehdr_def sample_ident_def)
  have nth: "sample_elf ! 0 = 0x7f" "sample_elf ! 1 = 0x45" "sample_elf ! 2 = 0x4c" "sample_elf ! 3 = 0x46"
    using arg_cong [OF mag, of "\<lambda>xs. xs ! 0"] arg_cong [OF mag, of "\<lambda>xs. xs ! 1"]
      arg_cong [OF mag, of "\<lambda>xs. xs ! 2"] arg_cong [OF mag, of "\<lambda>xs. xs ! 3"] by simp_all
  show "\<not> is_mz sample_elf" "\<not> is_coff sample_elf" "is_elf sample_elf"
    by (simp_all add: is_mz_def is_coff_def is_elf_def nth [simplified])
qed

lemma sample_chain_facts:
  "take 0x40 sample_chain = sample_mz 0x40 0 0" "take 0x40 (drop 0x40 sample_chain) = sample_mz 0x80 121 0"
  "drop 0x80 sample_chain = sample_elf" "length sample_chain = 0x80 + length sample_elf"
  by (simp_all add: sample_chain_def sample_mz_facts)

lemma sample_chain_chain: "mz_chain sample_chain 0 (Suc 1) 0x80" "mz_last sample_chain 0 1 = 0x40"
proof -
  have l: "lfanew sample_chain 0 = 0x40" "lfanew sample_chain 0x40 = 0x80"
    by (simp_all add: lfanew_def sample_chain_facts sample_mz_facts)
  have m: "is_mz sample_chain" "is_mz (drop 0x40 sample_chain)"
    using sample_mz_facts(2) magic_take(1) sample_chain_facts(1,2) by metis+
  show "mz_chain sample_chain 0 (Suc 1) 0x80" "mz_last sample_chain 0 1 = 0x40"
    using l m by (simp_all add: sample_chain_facts(4) sample_elf_data)
qed

theorem scan_follows_chain_witness:
  "\<exists>s. scan_headers (scan_start (sample_file sample_chain) stubinfo_zero) = Some (Inr (Elf_ops, s)) \<and>
    hs_coffset s = 0x80 \<and> hs_noffset s = 0x80 + 121"
proof -
  have f: "f_data (sample_file sample_chain) = sample_chain" "f_pos (sample_file sample_chain) = 0"
    "f_bad (sample_file sample_chain) = []" by (simp_all add: sample_file_def)
  have c: "mz_chain (f_data (sample_file sample_chain)) 0 (Suc 1) 0x80"
    using sample_chain_chain(1) by (simp only: f)
  have "sample_mz 0x80 121 0 = take 0x40 (drop (mz_last (f_data (sample_file sample_chain)) 0 1)
      (f_data (sample_file sample_chain)))"
    by (simp only: f sample_chain_chain(2) sample_chain_facts(2))
  from scan_follows_chain [OF f(2,3) c this, of stubinfo_zero] show ?thesis
    by (auto simp: f sample_chain_facts sample_elf_magic sample_elf_data sample_mz_facts)
qed

text \<open>
  The payload is found where the stub's header says: for a file made of a stub header, the rest of
  the stub and a COFF or ELF payload at the header's offset, the loop ends at the payload with the file
  positioned there and with the matching loader; the offsets of the two further payloads are the ends
  of the payloads before them.
\<close>

lemma scan_finds_payload:
  assumes "f_data f = hdr @ stub @ payload" "f_pos f = 0" "f_bad f = []"
    and "length hdr = 0x40" "is_mz hdr" "unat (get32 hdr 0x3c) = 0x40 + length stub"
    and "0x40 + length stub < 2 ^ 31"
    and "0x40 \<le> length payload" "\<not> is_mz payload" "is_coff payload \<or> is_elf payload"
  shows "\<exists>s. scan_headers (scan_start f i) = Some (Inr (if is_coff payload then Coff_ops else Elf_ops, s)) \<and>
    hs_file s = f\<lparr>f_pos := 0x40 + length stub\<rparr> \<and> hs_coffset s = get32 hdr 0x3c \<and>
    hs_coffsize s = get32 hdr 0x1c \<and> hs_nsize s = get32 hdr 0x20 \<and> hs_nsize2 s = get32 hdr 0x24 \<and>
    hs_noffset s = (if get32 hdr 0x1c = 0 then 0 else get32 hdr 0x3c + get32 hdr 0x1c) \<and>
    hs_noffset2 s = (if get32 hdr 0x20 = 0 then 0 else hs_noffset s + get32 hdr 0x20) \<and>
    hs_info s = mz_info hdr i"
proof -
  let ?s0 = "scan_start f i" and ?o = "get32 hdr 0x3c"
  let ?s1 = "(mz_fields hdr ?s0)\<lparr>hs_file := f\<lparr>f_pos := unat ?o\<rparr>\<rparr>"
  have f0: "hs_file ?s0 = f" by (simp add: scan_start_def)
  have "hdr_at ?s0 = hdr" using assms(1,2,4) by (simp add: hdr_at_def f0)
  then have rd: "read_exact 0x40 (hs_file ?s0) = (Some hdr, f\<lparr>f_pos := 0x40\<rparr>)"
    using read_hdr [of ?s0] assms(1-4) by (simp add: f0)
  have "unat ?o < 2 ^ 31" using assms(6,7) by simp
  then have step: "scan_step ?s0 = Inr (None, ?s1)"
    using scan_step_mz [OF rd assms(5) refl] by simp
  have co: "hs_coffset ?s1 = ?o" by (simp add: mz_fields_def Let_def)
  have at: "hdr_at ?s1 = take 0x40 payload"
    using assms(1,4,6) by (simp add: hdr_at_def)
  have "scan_headers ?s1 = Some (Inr (if is_coff (hdr_at ?s1) then Coff_ops else Elf_ops, ?s1))"
  proof (rule scan_step_payload)
    show "\<not> is_mz (hdr_at ?s1)" "is_coff (hdr_at ?s1) \<or> is_elf (hdr_at ?s1)"
      unfolding at using assms(9,10) by simp_all
  qed (use assms co in simp_all)
  then have "scan_headers ?s0 = Some (Inr (if is_coff payload then Coff_ops else Elf_ops, ?s1))"
    by (subst scan_headers.simps) (simp add: step at)
  then show ?thesis
    using assms(6) by (intro exI [of _ ?s1]) (simp add: mz_fields_def Let_def scan_start_def)
qed

lemma scan_finds_payload_sample:
  "\<exists>s. scan_headers (scan_start (sample_file (sample_mz 0x40 121 0 @ sample_elf)) stubinfo_zero) =
      Some (Inr (Elf_ops, s)) \<and> f_pos (hs_file s) = 0x40 \<and> hs_noffset s = 0x40 + 121"
proof -
  have mag: "take 4 sample_elf = [0x7f, 0x45, 0x4c, 0x46]"
    by (simp add: sample_elf_def Ehdr_image_def sample_Ehdr_def sample_ident_def)
  have nth: "sample_elf ! 0 = 0x7f" "sample_elf ! 1 = 0x45" "sample_elf ! 2 = 0x4c" "sample_elf ! 3 = 0x46"
    using arg_cong [OF mag, of "\<lambda>xs. xs ! 0"] arg_cong [OF mag, of "\<lambda>xs. xs ! 1"]
      arg_cong [OF mag, of "\<lambda>xs. xs ! 2"] arg_cong [OF mag, of "\<lambda>xs. xs ! 3"] by simp_all
  have m: "\<not> is_mz sample_elf" "\<not> is_coff sample_elf" "is_coff sample_elf \<or> is_elf sample_elf"
    by (simp_all add: is_mz_def is_coff_def is_elf_def nth [simplified])
  have "f_data (sample_file (sample_mz 0x40 121 0 @ sample_elf)) = sample_mz 0x40 121 0 @ [] @ sample_elf"
    "f_pos (sample_file (sample_mz 0x40 121 0 @ sample_elf)) = 0"
    "f_bad (sample_file (sample_mz 0x40 121 0 @ sample_elf)) = []"
    "unat (get32 (sample_mz 0x40 121 0) 0x3c) = 0x40 + length ([] :: bytes)"
    "0x40 + length ([] :: bytes) < 2 ^ 31" "0x40 \<le> length sample_elf"
    by (simp_all add: sample_file_def sample_mz_facts sample_elf_data)
  from scan_finds_payload [OF this(1-3) sample_mz_facts(1,2) this(4-6) m(1,3), of stubinfo_zero]
  show ?thesis by (auto simp: m(2) sample_mz_facts)
qed

text \<open>
  The name field of the header overlaps its flags: \<open>fullstub\<close> copies twelve bytes from offset 30h, but
  the flags stand at 38h and the stub version at 3Bh. A name of eight characters takes the low flag byte as
  its ninth character.
\<close>

theorem payload_name_takes_flags:
  assumes "length buf = 0x40" "\<forall>k < 8. buf ! (0x30 + k) \<noteq> 0" "ucast (get16 buf 0x38) \<noteq> (0 :: u8)"
    and "stubinfo_ok i"
  shows "payload2_name (mz_info buf i) ! 8 = ucast (get16 buf 0x38) \<and>
    payload2_name (mz_info buf i) ! 8 \<noteq> 0"
proof -
  have flag: "buf ! 0x38 = ucast (get16 buf 0x38)"
    by (rule bit_word_eqI) (use assms(1) in \<open>auto simp: get16_def le16_def bit_simps\<close>)
  let ?xs = "drop 0x30 buf"
  have nz: "?xs ! k \<noteq> 0" if "k \<le> 8" for k
    using that assms(1-3) flag by (cases "k = 8") auto
  have "8 < length (cstr ?xs)"
  proof (rule ccontr)
    assume short: "\<not> ?thesis"
    then have "length (cstr ?xs) < length ?xs" using assms(1) by simp
    from nth_length_takeWhile [OF this [unfolded cstr_def]]
    have "?xs ! length (cstr ?xs) = 0" by (simp add: cstr_def)
    then show False using nz short by simp
  qed
  moreover from this have "cstr ?xs ! 8 = ?xs ! 8" by (simp add: cstr_def takeWhile_nth)
  ultimately have "strncpy (payload2_name i) ?xs 12 ! 8 = buf ! 0x38"
    using assms(1) by (simp add: strncpy_def nth_append)
  then show ?thesis using flag assms(3) by (simp add: mz_info_def)
qed

definition named_mz :: bytes where
  "named_mz = (sample_mz 0x40 0 0)[0x30 := 0x41, 0x31 := 0x42, 0x32 := 0x43, 0x33 := 0x44, 0x34 := 0x45,
     0x35 := 0x46, 0x36 := 0x47, 0x37 := 0x48, 0x38 := 0x80]"

theorem payload_name_takes_flags_witness:
  "payload2_name (mz_info named_mz stubinfo_zero) ! 8 = 0x80"
proof -
  have len: "length named_mz = 0x40" by (simp add: named_mz_def sample_mz_facts)
  have flags: "ucast (get16 named_mz 0x38) = (0x80 :: u8)"
    by (rule bit_word_eqI) (simp add: get16_def le16_def named_mz_def sample_mz_facts bit_simps)
  have "\<forall>k < 8. named_mz ! (0x30 + k) \<noteq> 0"
  proof (intro allI impI)
    fix k :: nat assume "k < 8"
    then consider "k = 0" | "k = 1" | "k = 2" | "k = 3" | "k = 4" | "k = 5" | "k = 6" | "k = 7"
      by linarith
    then show "named_mz ! (0x30 + k) \<noteq> 0"
      by cases (simp_all add: named_mz_def sample_mz_facts)
  qed
  then show ?thesis
    using payload_name_takes_flags [OF len, of stubinfo_zero] flags by simp
qed

text \<open>
  C36. Invariant of the loop over the headers, for every state it passes: the file is the one opened and
  stands at the offset of the expected header (when that is a position a file can have); the stub info
  block is well formed with a terminator in \<open>payload2_name\<close>; of the block only the name, the upper half of
  the version and the lower half of the flags have been touched; and what the loop returns is decided by
  the state alone.
\<close>

theorem scan_invariant:
  assumes "scan_path (scan_start f i) t" "info_inv i" "f_pos f = 0"
  shows "scan_headers t = scan_headers (scan_start f i) \<and> f_data (hs_file t) = f_data f \<and>
    f_fd (hs_file t) = f_fd f \<and> info_inv (hs_info t) \<and>
    (2 ^ 31 \<le> unat (hs_coffset t) \<or> f_pos (hs_file t) = unat (hs_coffset t)) \<and>
    lo16 (stubinfo_ver (hs_info t)) = lo16 (stubinfo_ver i) \<and> hi16 (si_flags (hs_info t)) = hi16 (si_flags i) \<and>
    (\<exists>n v g. hs_info t = i\<lparr>payload2_name := n, stubinfo_ver := v, si_flags := g\<rparr>)"
proof -
  have "\<exists>n v g. i = i\<lparr>payload2_name := n, stubinfo_ver := v, si_flags := g\<rparr>"
    by (intro exI [of _ "payload2_name i"] exI [of _ "stubinfo_ver i"] exI [of _ "si_flags i"]) simp
  then have "scan_inv f i (scan_start f i)"
    using assms(2,3) by (simp add: scan_inv_def scan_start_def)
  from scan_inv_path [OF assms(1) this] show ?thesis
    using scan_path_result [OF assms(1)] unfolding scan_inv_def same_file_def by auto
qed

theorem scan_invariant_witness:
  "\<exists>t. scan_path (scan_start (sample_file (sample_mz 0x40 121 0)) stubinfo_zero) t \<and> hs_coffset t = 0x40 \<and>
    f_pos (hs_file t) = 0x40 \<and> info_inv (hs_info t)"
proof -
  let ?f = "sample_file (sample_mz 0x40 121 0)"
  let ?s = "scan_start ?f stubinfo_zero" and ?b = "sample_mz 0x40 121 0"
  let ?t = "(mz_fields ?b ?s)\<lparr>hs_file := ?f\<lparr>f_pos := 0x40\<rparr>\<rparr>"
  have rd: "read_exact 0x40 (hs_file ?s) = (Some ?b, ?f\<lparr>f_pos := 0x40\<rparr>)"
    using read_hdr [of ?s] by (simp add: scan_start_def sample_file_def sample_mz_facts hdr_at_def)
  have "scan_step ?s = Inr (None, ?t)"
    using scan_step_mz [OF rd sample_mz_facts(2) refl] by (simp add: sample_mz_facts)
  then have path: "scan_path ?s ?t" by (blast intro: scan_path.intros)
  have "f_pos ?f = 0" by (simp add: sample_file_def)
  moreover have "hs_coffset ?t = 0x40" by (simp add: mz_fields_def Let_def sample_mz_facts)
  ultimately show ?thesis
    using scan_invariant [OF path info_inv_zero(1)] path by (intro exI [of _ ?t]) simp
qed

end
