(* ===== verification/Stub.thy ===== *)
theory Stub
  imports Headers LowMem
begin

text \<open>
  The second half of \<open>stub.c\<close>: with the payload found (\<open>Headers\<close>), \<open>fullstub\<close> reads its headers through the
  loader of its format, fills in the stub info block, sets up descriptors and memory for the client
  through the DPMI host, loads the sections, enters the DPMI host's real-mode entry, and jumps to the
  client.

  The static \<open>stubinfo\<close> is kept as a record while it is filled in and is put at its address before the
  jump; only its member \<open>memory_handle\<close>, whose address is passed on, is read back from memory. The locals
  \<open>mem_lin\<close> and \<open>stubinfo_mem\<close> live at \<open>local_slot2\<close> and behind it.
\<close>

section \<open>The loaders behind \<open>struct ldops\<close>\<close>

datatype handle = Coff_handle coff_h | Elf_handle elf_h

definition ld_read_headers ::
  "'h env \<Rightarrow> loader \<Rightarrow> cfile \<Rightarrow> scns \<Rightarrow> (stop + (diag + handle)) \<times> cfile \<times> scns" where
  "ld_read_headers E ops f a = (case ops of
      Coff_ops \<Rightarrow> (let (r, f1, a1) = read_coff_headers E f a in
        (map_sum id (map_sum id Coff_handle) r, f1, a1))
    | Elf_ops \<Rightarrow> (let (r, f1, _) = read_elf_headers E f () in
        (map_sum id (map_sum id Elf_handle) r, f1, a)))"

fun ld_va :: "handle \<Rightarrow> u32" where
  "ld_va (Coff_handle h) = get_coff_va h"
| "ld_va (Elf_handle h) = get_elf_va h"

fun ld_length :: "handle \<Rightarrow> u32" where
  "ld_length (Coff_handle h) = get_coff_length h"
| "ld_length (Elf_handle h) = get_elf_length h"

fun ld_entry :: "handle \<Rightarrow> u32" where
  "ld_entry (Coff_handle h) = get_coff_entry h"
| "ld_entry (Elf_handle h) = get_elf_entry h"

fun ld_read_sections ::
  "'h env \<Rightarrow> handle \<Rightarrow> char_far \<Rightarrow> cfile \<Rightarrow> u32 \<Rightarrow> scns \<Rightarrow> 'h world \<Rightarrow>
    (stop + (cfile \<times> 'h world)) option" where
  "ld_read_sections E (Coff_handle h) p f off a w = read_coff_sections E h p f off a w"
| "ld_read_sections E (Elf_handle h) p f off a w = read_elf_sections E h p f off () w"

text \<open>
  The table of function pointers and its two instances. A handle is a \<open>void *\<close> that every operation casts
  to its own type: \<open>None\<close> stands for a cast to the type of the other loader. The calls through the table are
  those above, because a handle only meets the operations of the table it comes from (\<open>ldops_dispatch\<close>).
\<close>

record 'h ldops_table =
  tab_read_headers :: "'h env \<Rightarrow> cfile \<Rightarrow> scns \<Rightarrow> (stop + (diag + handle)) \<times> cfile \<times> scns"
  tab_get_va :: "handle \<Rightarrow> u32 option"
  tab_get_length :: "handle \<Rightarrow> u32 option"
  tab_get_entry :: "handle \<Rightarrow> u32 option"
  tab_read_sections :: "'h env \<Rightarrow> handle \<Rightarrow> char_far \<Rightarrow> cfile \<Rightarrow> u32 \<Rightarrow> scns \<Rightarrow> 'h world \<Rightarrow>
    (stop + (cfile \<times> 'h world)) option option"

fun as_coff :: "handle \<Rightarrow> coff_h option" where
  "as_coff (Coff_handle h) = Some h"
| "as_coff (Elf_handle h) = None"

fun as_elf :: "handle \<Rightarrow> elf_h option" where
  "as_elf (Coff_handle h) = None"
| "as_elf (Elf_handle h) = Some h"

definition coff_ops :: "'h ldops_table" where
  "coff_ops = \<lparr>tab_read_headers = (\<lambda>E f a. let (r, f1, a1) = read_coff_headers E f a in
      (map_sum id (map_sum id Coff_handle) r, f1, a1)),
    tab_get_va = (\<lambda>h. map_option get_coff_va (as_coff h)),
    tab_get_length = (\<lambda>h. map_option get_coff_length (as_coff h)),
    tab_get_entry = (\<lambda>h. map_option get_coff_entry (as_coff h)),
    tab_read_sections = (\<lambda>E h p f off a w. map_option (\<lambda>c. read_coff_sections E c p f off a w) (as_coff h))\<rparr>"

definition elf_ops :: "'h ldops_table" where
  "elf_ops = \<lparr>tab_read_headers = (\<lambda>E f a. let (r, f1, _) = read_elf_headers E f () in
      (map_sum id (map_sum id Elf_handle) r, f1, a)),
    tab_get_va = (\<lambda>h. map_option get_elf_va (as_elf h)),
    tab_get_length = (\<lambda>h. map_option get_elf_length (as_elf h)),
    tab_get_entry = (\<lambda>h. map_option get_elf_entry (as_elf h)),
    tab_read_sections = (\<lambda>E h p f off a w. map_option (\<lambda>e. read_elf_sections E e p f off () w) (as_elf h))\<rparr>"

definition ops_table :: "loader \<Rightarrow> 'h ldops_table" where
  "ops_table ops = (case ops of Coff_ops \<Rightarrow> coff_ops | Elf_ops \<Rightarrow> elf_ops)"

lemma nested_handle:
  assumes "map_sum id (map_sum id g) r = Inr (Inr h)"
  shows "\<exists>c. h = g c"
proof (cases r)
  case (Inr q)
  then show ?thesis using assms by (cases q) auto
qed (use assms in simp)

lemma ldops_dispatch:
  "tab_read_headers (ops_table ops) E f a = ld_read_headers E ops f a"
  "ld_read_headers E ops f a = (Inr (Inr h), f1, a1) \<Longrightarrow>
     tab_get_va (ops_table ops) h = Some (ld_va h) \<and> tab_get_length (ops_table ops) h = Some (ld_length h) \<and>
     tab_get_entry (ops_table ops) h = Some (ld_entry h) \<and>
     tab_read_sections (ops_table ops) E h p g off b w = Some (ld_read_sections E h p g off b w)"
proof -
  show "tab_read_headers (ops_table ops) E f a = ld_read_headers E ops f a"
    by (cases ops) (simp_all add: ops_table_def coff_ops_def elf_ops_def ld_read_headers_def)
  show "tab_get_va (ops_table ops) h = Some (ld_va h) \<and> tab_get_length (ops_table ops) h = Some (ld_length h) \<and>
     tab_get_entry (ops_table ops) h = Some (ld_entry h) \<and>
     tab_read_sections (ops_table ops) E h p g off b w = Some (ld_read_sections E h p g off b w)"
    if hd: "ld_read_headers E ops f a = (Inr (Inr h), f1, a1)"
  proof (cases ops)
    case Coff_ops
    then obtain c where "h = Coff_handle c"
      using hd by (auto simp: ld_read_headers_def Let_def dest!: nested_handle split: prod.splits)
    then show ?thesis using Coff_ops by (simp add: ops_table_def coff_ops_def)
  next
    case Elf_ops
    then obtain e where "h = Elf_handle e"
      using hd by (auto simp: ld_read_headers_def Let_def dest!: nested_handle split: prod.splits)
    then show ?thesis using Elf_ops by (simp add: ops_table_def elf_ops_def)
  qed
qed

fun ld_plan :: "handle \<Rightarrow> scns \<Rightarrow> piece list" where
  "ld_plan (Coff_handle h) a = coff_plan h a"
| "ld_plan (Elf_handle h) a = elf_plan h ()"

section \<open>Assembly\<close>

definition my_ds :: cfun where
  "my_ds = \<lparr>nargs = 0, returns0 = False, body = [Mov_r16s EAX DS]\<rparr>"

definition jump_to_entry :: "'h env \<Rightarrow> cfun" where
  "jump_to_entry E = \<lparr>nargs = 2, returns0 = False, body =
      [Mov_sa FS 8, Push_s DS, Pop_s ES, Mov_sa DS 12, Jmp_far_es (addr_clnt_entry E)]\<rparr>"

definition alloc_psp :: "'h env \<Rightarrow> 'h world \<Rightarrow> u16 \<times> 'h world" where
  "alloc_psp E w =
     (let (rc, w1) = call_c E dpmi_segment_to_descriptor [drop_bit 4 (dpmi_psp E)] w;
          sel = lo16 rc;
          (_, w2) = call_c E dpmi_set_segment_limit [ucast sel, 0xff] w1 in
      (sel, w2))"

section \<open>Filling in the stub info block\<close>

definition LOADER_VER :: u32 where
  "LOADER_VER = 3"

definition fill_info :: "'h env \<Rightarrow> bytes list \<Rightarrow> bytes list \<Rightarrow> u32 \<Rightarrow> stubinfo \<Rightarrow> stubinfo" where
  "fill_info E argv envp va_size i = i\<lparr>
     magic := strncpy (magic i) (ascii ''dj32ldr (C) stsp'') 16,
     si_size := 0xA4,
     env_size := of_nat (env_bytes argv envp),
     minstack := 0x80000,
     minkeep := 0x4000,
     argv0 := (strncpy (argv0 i) (basename_c (hd argv)) 16)[15 := 0],
     dpmi_server := strncpy (dpmi_server i) (ascii ''CWSDPMI.EXE'') 16,
     initial_size := (if 0x10000 < va_size then va_size else 0x10000),
     ds_segment := get_low_pool E\<rparr>"

text \<open>The members that describe the payloads, and the version, after loading.\<close>

definition payload_info :: "hdr_scan \<Rightarrow> cfile \<Rightarrow> stubinfo \<Rightarrow> stubinfo" where
  "payload_info s f i = i\<lparr>
     self_fd := f_fd f, self_offs := hs_coffset s, self_size := hs_coffsize s,
     payload_offs := hs_noffset s, payload_size := hs_nsize s,
     payload2_offs := hs_noffset2 s, payload2_size := hs_nsize2 s,
     payload2_name := (if payload2_name i ! 0 \<noteq> 0 then strcat (payload2_name i) (ascii ''.dbg'')
                       else payload2_name i),
     stubinfo_ver := stubinfo_ver i OR LOADER_VER\<rparr>"

section \<open>Descriptors and memory of the client\<close>

text \<open>The low-memory descriptors of the client: data, and its code alias.\<close>

definition low_descriptors :: "'h env \<Rightarrow> stubinfo \<Rightarrow> 'h world \<Rightarrow> stubinfo \<times> 'h world" where
  "low_descriptors E i w =
     (let (rc, w1) = call_c E dpmi_segment_to_descriptor [ucast (ds_segment i)] w;
          i1 = i\<lparr>ds_selector := lo16 rc\<rparr>;
          (_, w2) = call_c E dpmi_set_segment_limit [ucast (ds_selector i1), ucast (minkeep i1) - 1] w1;
          (rc3, w3) = call_c E dpmi_create_alias_descriptor [ucast (ds_selector i1)] w2;
          i2 = i1\<lparr>cs_selector := lo16 rc3\<rparr>;
          (_, w4) = call_c E dpmi_set_descriptor_access_rights [ucast (cs_selector i2), 0xfb] w3 in
      (i2, w4))"

text \<open>One flat segment of the client: base, access rights and limit.\<close>

definition flat_segment :: "'h env \<Rightarrow> u16 \<Rightarrow> u32 \<Rightarrow> u32 \<Rightarrow> 'h world \<Rightarrow> 'h world" where
  "flat_segment E sel base access w =
     (let (_, w1) = call_c E dpmi_set_segment_base_address [ucast sel, base] w;
          (_, w2) = call_c E dpmi_set_descriptor_access_rights [ucast sel, access] w1;
          (_, w3) = call_c E dpmi_set_segment_limit [ucast sel, 0xffffffff] w2 in w3)"

text \<open>The alias of the stub's data segment that starts at \<open>stubinfo\<close>.\<close>

definition info_segment :: "'h env \<Rightarrow> 'h world \<Rightarrow> u16 \<times> 'h world" where
  "info_segment E w =
     (let (ax, w1) = call_c E my_ds [] w;
          (rc, w2) = call_c E dpmi_create_alias_descriptor [ucast (lo16 ax)] w1;
          fs = lo16 rc;
          (_, w3) = call_c E dpmi_get_segment_base_address [ucast fs, local_slot2 E + 4] w2;
          stubinfo_mem = load32 (own w3) (local_slot2 E + 4) + addr_stubinfo E;
          (_, w4) = call_c E dpmi_set_segment_base_address [ucast fs, stubinfo_mem] w3;
          (_, w5) = call_c E dpmi_set_segment_limit [ucast fs, 0xA4 - 1] w4 in
      (fs, w5))"

record 'h client =
  cl_cs :: u16
  cl_ds :: u16
  cl_fs :: u16
  cl_lin :: u32
  cl_info :: stubinfo
  cl_world :: "'h world"

definition setup_client ::
  "'h env \<Rightarrow> u32 \<Rightarrow> u32 \<Rightarrow> stubinfo \<Rightarrow> 'h world \<Rightarrow> stop + 'h client" where
  "setup_client E va entry i w =
     (let w0 = w\<lparr>own := store32 (own w) (addr_clnt_entry E) entry\<rparr>;
          (i1, w1) = low_descriptors E i w0;
          (rc2, w2) = call_c E dpmi_allocate_ldt_descriptors [1] w1;
          cs = lo16 rc2;
          w2a = w2\<lparr>own := store16 (own w2) (addr_clnt_entry E + 4) cs\<rparr>;
          (rc3, w3) = call_c E dpmi_allocate_ldt_descriptors [1] w2a;
          ds = lo16 rc3;
          alloc_size = PAGE_ALIGN (initial_size i1);
          (rc4, w4) = call_c E dpmi_allocate_memory
            [alloc_size, local_slot2 E, addr_stubinfo E + 0x18] w3 in
      if rc4 = - 1 then Inl (Exit_failure Alloc_failed) else
      let mem_lin = load32 (own w4) (local_slot2 E);
          base = mem_lin - va;
          i2 = i1\<lparr>memory_handle := load32 (own w4) (addr_stubinfo E + 0x18), mem_base := base\<rparr>;
          w5 = flat_segment E cs base 0xc0fb w4;
          w6 = flat_segment E ds base 0xc0f3 w5;
          (fs, w7) = info_segment E w6 in
      Inr \<lparr>cl_cs = cs, cl_ds = ds, cl_fs = fs, cl_lin = mem_lin, cl_info = i2, cl_world = w7\<rparr>)"

section \<open>The whole loader\<close>

text \<open>
  After loading: the rest of the block, the mode switch or, without a host to enter, the stub's own PSP
  descriptor, and the jump. The result is the machine at the jump, the block and the file, whose position
  the client inherits.
\<close>

record 'h launch =
  la_mach :: "'h mach"
  la_info :: stubinfo
  la_file :: cfile

definition enter_client ::
  "'h env \<Rightarrow> 'h client \<Rightarrow> hdr_scan \<Rightarrow> cfile \<Rightarrow> 'h world \<Rightarrow> stop + 'h launch" where
  "enter_client E c s f w =
     (let i = payload_info s f (cl_info c);
          f1 = lseek f (hs_noffset s) Seek_set;
          para = drop_bit 4 (minkeep i) in
      bindR (dpmi_init E para w) (\<lambda>(rc, sel, w1).
      bindR (if rc \<noteq> 0 then bindR (shrink_low E para w1) (\<lambda>w2. Inr (alloc_psp E w2))
             else Inr (the sel, w1)) (\<lambda>(psp_sel, w3).
        let i1 = i\<lparr>psp_selector := psp_sel\<rparr>;
            w4 = w3\<lparr>own := store_bytes (own w3) (addr_stubinfo E) (stubinfo_image i1)\<rparr> in
        Inr \<lparr>la_mach = exec E [ucast (cl_fs c), ucast (cl_ds c)] (body (jump_to_entry E)) (start w4),
             la_info = i1, la_file = f1\<rparr>)))"

definition load_client ::
  "'h env \<Rightarrow> bytes list \<Rightarrow> bytes list \<Rightarrow> loader \<Rightarrow> hdr_scan \<Rightarrow> 'h world \<Rightarrow>
    (stop + (cfile \<times> 'h client \<times> 'h world)) option" where
  "load_client E argv envp ops s w =
     (let (r, f1, a) = ld_read_headers E ops (hs_file s) scns_zero in
      case r of
        Inl e \<Rightarrow> Some (Inl e)
      | Inr (Inl d) \<Rightarrow> Some (Inl (Exit_failure d))
      | Inr (Inr h) \<Rightarrow>
          let i = fill_info E argv envp (ld_length h) (hs_info s) in
          (case setup_client E (ld_va h) (ld_entry h) i w of
             Inl e \<Rightarrow> Some (Inl e)
           | Inr c \<Rightarrow>
               (case ld_read_sections E h \<lparr>fp_off = 0, fp_seg = cl_ds c\<rparr> f1 (hs_coffset s) a (cl_world c) of
                  None \<Rightarrow> None
                | Some (Inl e) \<Rightarrow> Some (Inl e)
                | Some (Inr (f2, w2)) \<Rightarrow> Some (Inr (f2, c, w2)))))"

definition fullstub ::
  "'h env \<Rightarrow> (bytes \<Rightarrow> cfile option) \<Rightarrow> bytes list \<Rightarrow> bytes list \<Rightarrow> 'h world \<Rightarrow>
    (stop + 'h launch) option" where
  "fullstub E open_file argv envp w =
     (case find_payload open_file argv envp of
        None \<Rightarrow> None
      | Some (Inl e) \<Rightarrow> Some (Inl e)
      | Some (Inr (ops, s)) \<Rightarrow>
          (case load_client E argv envp ops s w of
             None \<Rightarrow> None
           | Some (Inl e) \<Rightarrow> Some (Inl e)
           | Some (Inr (f, c, w1)) \<Rightarrow> Some (enter_client E c s f w1)))"

section \<open>Lemmas on descriptors\<close>

text \<open>
  All descriptors stay as they are but those that function 0002h made for the real-mode segment at \<open>b\<close>, whose
  limit the stub sets.
\<close>

definition keeps_desc :: "u32 \<Rightarrow> (u16 \<Rightarrow> desc option) \<Rightarrow> (u16 \<Rightarrow> desc option) \<Rightarrow> bool" where
  "keeps_desc b m m' \<longleftrightarrow> (\<forall>s d. m s = Some d \<longrightarrow> \<not> (d_real d \<and> d_base d = b) \<longrightarrow> m' s = Some d)"

lemma keeps_desc_refl [simp]: "keeps_desc b m m"
  by (simp add: keeps_desc_def)

lemma keeps_desc_trans: "keeps_desc b m m' \<Longrightarrow> keeps_desc b m' m'' \<Longrightarrow> keeps_desc b m m''"
  by (simp add: keeps_desc_def)

lemma keeps_desc_new:
  "m s = None \<or> (\<exists>d. m s = Some d \<and> d_real d \<and> d_base d = b) \<Longrightarrow> keeps_desc b m (m(s \<mapsto> e))"
  by (auto simp: keeps_desc_def)

lemma keeps_desc_le: "map_le m m' \<Longrightarrow> keeps_desc b m m'"
  by (force simp: keeps_desc_def map_le_def)

lemma map_le_new: "m s = None \<Longrightarrow> map_le m (m(s \<mapsto> e))"
  by (auto simp: map_le_def)

lemma map_le_None: "map_le m m' \<Longrightarrow> m' s = None \<Longrightarrow> m s = None"
  by (cases "m s") (force simp: map_le_def)+

lemma map_le_upd_new: "map_le m m' \<Longrightarrow> m s = None \<Longrightarrow> map_le m (m'(s \<mapsto> e))"
  by (auto simp: map_le_def)

text \<open>
  The two selectors of the low memory block in the stub info: a writable data segment and a 16-bit code
  segment with the same base and limit.
\<close>

definition low_block :: "(u16 \<Rightarrow> desc option) \<Rightarrow> stubinfo \<Rightarrow> bool" where
  "low_block m i \<longleftrightarrow>
     (\<exists>d. m (ds_selector i) = Some d \<and> d_base d = push_bit 4 (ucast (ds_segment i)) \<and>
        d_limit d = ucast (minkeep i) - 1 \<and> writable (d_access d)) \<and>
     (\<exists>d. m (cs_selector i) = Some d \<and> d_base d = push_bit 4 (ucast (ds_segment i)) \<and>
        d_limit d = ucast (minkeep i) - 1 \<and> d_access d = 0xfb)"

lemma low_block_keeps:
  assumes "low_block m i" "keeps_desc b m m'" "push_bit 4 (ucast (ds_segment i)) \<noteq> b"
  shows "low_block m' i"
  using assms unfolding low_block_def keeps_desc_def by metis

lemma low_block_le: "low_block m i \<Longrightarrow> map_le m m' \<Longrightarrow> low_block m' i"
  by (force simp: low_block_def map_le_def)

lemma card_dom_upd: "card (dom (m(s :: u16 \<mapsto> d))) \<le> card (dom m) + 1"
  by (simp add: card_insert_if)

lemma card_dom_upd_same: "m s = Some e \<Longrightarrow> card (dom (m(s :: u16 \<mapsto> d))) = card (dom m)"
  by (simp add: insert_absorb domI)

lemma low_descriptors_ok:
  assumes "dpmi_host E D N" "card (dom (D (host w))) + 1 < N" "minkeep i = 0x4000"
    and "low_descriptors E i w = (j, v)"
  shows "(\<exists>a b. a \<noteq> b \<and> j = i\<lparr>ds_selector := a, cs_selector := b\<rparr>) \<and> own v = own w \<and> lin v = lin w \<and>
    same_segs w v \<and> keeps_desc (push_bit 4 (ucast (ds_segment i))) (D (host w)) (D (host v)) \<and>
    card (dom (D (host v))) \<le> card (dom (D (host w))) + 2 \<and> low_block (D (host v)) j"
proof -
  let ?b = "push_bit 4 (ucast (ds_segment i)) :: u32"
  obtain rc1 w1 where 1: "call_c E dpmi_segment_to_descriptor [ucast (ds_segment i)] w = (rc1, w1)"
    by fastforce
  let ?s = "lo16 rc1"
  obtain d where d: "own w1 = own w" "lin w1 = lin w" "same_segs w w1" "d_real d"
    "D (host w1) ?s = Some d" "d_base d = ?b" "writable (d_access d)"
    "D (host w) ?s = None \<and> D (host w1) = (D (host w))(?s \<mapsto> d) \<or> D (host w1) = D (host w)"
    using call_segment_to_descriptor [OF assms(1) _ 1] assms(2) by fastforce
  have k1: "keeps_desc ?b (D (host w)) (D (host w1))" using d(8) keeps_desc_new by fastforce
  have c1: "card (dom (D (host w1))) \<le> card (dom (D (host w))) + 1"
    using d(8) card_dom_upd by fastforce
  obtain rc2 w2 where 2: "call_c E dpmi_set_segment_limit [ucast ?s, 0x3fff] w1 = (rc2, w2)"
    by fastforce
  let ?d = "with_limit 0x3fff d"
  have dl: "d_base ?d = ?b" "d_limit ?d = 0x3fff" "writable (d_access ?d)" "\<not> bit (d_access ?d) 15"
    using d(6,7) by (simp_all add: limit_with_limit bit_simps)
  have e2: "own w2 = own w1" "lin w2 = lin w1" "same_segs w1 w2"
    "D (host w2) = (D (host w1))(?s \<mapsto> ?d)"
    using call_set_limit [OF assms(1) d(5) _ 2] by simp_all
  have k2: "keeps_desc ?b (D (host w1)) (D (host w2))"
    unfolding e2(4) using d(4-6) by (intro keeps_desc_new) simp
  have c2: "card (dom (D (host w2))) = card (dom (D (host w1)))"
    unfolding e2(4) using d(5) by (rule card_dom_upd_same)
  obtain rc3 w3 where 3: "call_c E dpmi_create_alias_descriptor [ucast ?s] w2 = (rc3, w3)"
    by fastforce
  have s2: "D (host w2) ?s = Some ?d" using e2(4) by simp
  have "card (dom (D (host w2))) < N" using c1 c2 assms(2) by simp
  from call_create_alias [OF assms(1) this s2 3]
  obtain a where e3: "own w3 = own w2" "lin w3 = lin w2" "same_segs w2 w3"
    "D (host w2) (lo16 rc3) = None" "bit a 15 = bit (d_access ?d) 15"
    "D (host w3) = (D (host w2))(lo16 rc3 \<mapsto> ?d\<lparr>d_access := a, d_real := False\<rparr>)"
    by blast
  let ?e = "?d\<lparr>d_real := False, d_access := 0xfb\<rparr>"
  obtain rc4 w4 where 4: "call_c E dpmi_set_descriptor_access_rights [ucast (lo16 rc3), 0xfb] w3 = (rc4, w4)"
    by fastforce
  have s3: "D (host w3) (lo16 rc3) = Some (?d\<lparr>d_access := a, d_real := False\<rparr>)" using e3(6) by simp
  have e4: "own w4 = own w3" "lin w4 = lin w3" "same_segs w3 w4"
    "D (host w4) = (D (host w2))(lo16 rc3 \<mapsto> ?e)"
    using call_set_access [OF assms(1) s3 _ _ 4] unfolding e3(6) fun_upd_upd by simp_all
  have k4: "keeps_desc ?b (D (host w2)) (D (host w4))"
    unfolding e4(4) using e3(4) by (intro keeps_desc_new) simp
  have c4: "card (dom (D (host w4))) \<le> card (dom (D (host w2))) + 1"
    unfolding e4(4) by (rule card_dom_upd)
  have ne: "?s \<noteq> lo16 rc3" using e3(4) s2 by auto
  have res: "(j, v) = (i\<lparr>ds_selector := ?s, cs_selector := lo16 rc3\<rparr>, w4)"
    using assms(4) 1 2 3 4 by (simp add: low_descriptors_def assms(3))
  have "d_limit ?e = 0x3fff" using dl(2,4) by (simp add: d_limit_def)
  then have "low_block (D (host v)) j"
    using res ne s2 dl by (simp add: low_block_def e4(4) assms(3))
  then show ?thesis
    using res ne d(1-3) e2(1-3) e3(1-3) e4(1-3) k1 k2 k4 c1 c2 c4
    by (auto intro: same_segs_trans keeps_desc_trans)
qed

lemma flat_segment_ok:
  assumes "dpmi_host E D N" "D (host w) s = Some d" "\<not> d_real d" "access AND 0x2ff0 = 0xf0"
    and "v = flat_segment E s base access w"
  shows "own v = own w \<and> lin v = lin w \<and> same_segs w v \<and> D (host v) =
    (D (host w))(s \<mapsto> with_limit 0xffffffff (d\<lparr>d_base := base, d_access := ucast access\<rparr>))"
proof -
  obtain rc1 w1 where 1: "call_c E dpmi_set_segment_base_address [ucast s, base] w = (rc1, w1)" by fastforce
  obtain rc2 w2 where 2: "call_c E dpmi_set_descriptor_access_rights [ucast s, access] w1 = (rc2, w2)"
    by fastforce
  obtain rc3 w3 where 3: "call_c E dpmi_set_segment_limit [ucast s, 0xffffffff] w2 = (rc3, w3)"
    by fastforce
  have e1: "own w1 = own w" "lin w1 = lin w" "same_segs w w1"
    "D (host w1) = (D (host w))(s \<mapsto> d\<lparr>d_base := base\<rparr>)"
    using call_set_base [OF assms(1-3) 1] by simp_all
  then have s1: "D (host w1) s = Some (d\<lparr>d_base := base\<rparr>)" "\<not> d_real (d\<lparr>d_base := base\<rparr>)"
    using assms(3) by simp_all
  let ?d = "d\<lparr>d_base := base, d_access := ucast access\<rparr>"
  have e2: "own w2 = own w1" "lin w2 = lin w1" "same_segs w1 w2"
    "D (host w2) = (D (host w1))(s \<mapsto> ?d)"
    using call_set_access [OF assms(1) s1 assms(4) 2] by simp_all
  then have s2: "D (host w2) s = Some ?d" by simp
  have e3: "own w3 = own w2" "lin w3 = lin w2" "same_segs w2 w3"
    "D (host w3) = (D (host w2))(s \<mapsto> with_limit 0xffffffff ?d)"
    using call_set_limit [OF assms(1) s2 _ 3] assms(3) by simp_all
  have "v = w3" using assms(5) 1 2 3 by (simp add: flat_segment_def)
  then show ?thesis
    using e1 e2 e3 by (auto intro: same_segs_trans)
qed

lemma call_my_ds: "call_c E my_ds [] w = (rc, v) \<Longrightarrow>
    lo16 rc = seg_ds w \<and> own v = own w \<and> lin v = lin w \<and> same_segs w v \<and> host v = host w"
  by (auto simp: wrapper_defs my_ds_def same_segs_def)

lemma info_segment_ok:
  assumes "dpmi_host E D N" "card (dom (D (host w))) < N" "D (host w) (seg_ds w) = Some d"
    and "info_segment E w = (fs, v)"
  obtains e where "D (host w) fs = None" "lin v = lin w" "same_segs w v"
    "\<forall>x. \<not> in_region x (local_slot2 E + 4) 4 \<longrightarrow> own v x = own w x"
    "D (host v) = (D (host w))(fs \<mapsto> e)" "d_base e = d_base d + addr_stubinfo E" "d_limit e = 0xa3"
    "writable (d_access e)" "\<not> d_real e"
proof -
  let ?p = "local_slot2 E + 4"
  obtain ax w1 where 1: "call_c E my_ds [] w = (ax, w1)" by fastforce
  have e1: "lo16 ax = seg_ds w" "own w1 = own w" "lin w1 = lin w" "same_segs w w1" "host w1 = host w"
    using call_my_ds [OF 1] by simp_all
  obtain rc w2 where 2: "call_c E dpmi_create_alias_descriptor [ucast (seg_ds w)] w1 = (rc, w2)" by fastforce
  let ?f = "lo16 rc"
  obtain a where e2: "own w2 = own w1" "lin w2 = lin w1" "same_segs w1 w2" "D (host w) ?f = None"
    "writable a" "D (host w2) = (D (host w))(?f \<mapsto> d\<lparr>d_access := a, d_real := False\<rparr>)"
    using call_create_alias [OF assms(1) _ _ 2] assms(2,3) e1(5) by auto
  let ?d = "d\<lparr>d_access := a, d_real := False\<rparr>"
  obtain rc3 w3 where 3: "call_c E dpmi_get_segment_base_address [ucast ?f, ?p] w2 = (rc3, w3)" by fastforce
  have gb: "get_base_law E D" using assms(1) by (simp add: dpmi_host_def)
  have s2: "D (host w2) ?f = Some ?d" using e2(6) by simp
  have e3: "load32 (own w3) ?p = d_base d" "own w3 = store32 (own w2) ?p (d_base d)" "lin w3 = lin w2"
    "host w3 = host w2" "same_segs w2 w3"
    using call_get_base [OF gb s2 3] by simp_all
  let ?b = "d_base d + addr_stubinfo E"
  obtain rc4 w4 where 4: "call_c E dpmi_set_segment_base_address [ucast ?f, ?b] w3 = (rc4, w4)" by fastforce
  have s3: "D (host w3) ?f = Some ?d" "\<not> d_real ?d" using s2 e3(4) by simp_all
  have e4: "own w4 = own w3" "lin w4 = lin w3" "same_segs w3 w4"
    "D (host w4) = (D (host w3))(?f \<mapsto> ?d\<lparr>d_base := ?b\<rparr>)"
    using call_set_base [OF assms(1) s3 4] by simp_all
  obtain rc5 w5 where 5: "call_c E dpmi_set_segment_limit [ucast ?f, 0xa3] w4 = (rc5, w5)" by fastforce
  have s4: "D (host w4) ?f = Some (?d\<lparr>d_base := ?b\<rparr>)" using e4(4) by simp
  let ?e = "with_limit 0xa3 (?d\<lparr>d_base := ?b\<rparr>)"
  have e5: "own w5 = own w4" "lin w5 = lin w4" "same_segs w4 w5"
    "D (host w5) = (D (host w4))(?f \<mapsto> ?e)"
    using call_set_limit [OF assms(1) s4 _ 5] by simp_all
  have res: "fs = ?f" "v = w5"
    using assms(4) 1 2 3 4 5 e1(1) e3(1) by (simp_all add: info_segment_def)
  show ?thesis
  proof (rule that [of ?e])
    show "D (host v) = (D (host w))(fs \<mapsto> ?e)" unfolding res e5(4) e4(4) e3(4) e2(6) by simp
    show "\<forall>x. \<not> in_region x ?p 4 \<longrightarrow> own v x = own w x"
      using e1(2) e2(1) e3(2) e4(1) e5(1) res(2) by (simp add: store32_def store_bytes_outside)
    show "same_segs w v" using e1(4) e2(3) e3(5) e4(3) e5(3) res(2) same_segs_trans by blast
    show "D (host w) fs = None" "lin v = lin w" using e1(3) e2(2,4) e3(3) e4(2) e5(2) res by simp_all
    show "d_base ?e = ?b" "d_limit ?e = 0xa3" "writable (d_access ?e)" "\<not> d_real ?e"
      using e2(5) by (simp_all add: limit_with_limit)
  qed
qed

text \<open>The linker keeps the statics apart from each other and from the stack.\<close>

definition linked :: "'h env \<Rightarrow> bool" where
  "linked E \<longleftrightarrow> apart (local_slot2 E) 4 (addr_stubinfo E + 0x18) 4 \<and>
     apart (addr_clnt_entry E) 6 (local_slot2 E) 8 \<and> apart (addr_clnt_entry E) 6 (addr_stubinfo E) 0xA4"

lemma linked_entry:
  assumes "linked E" "in_region x (addr_clnt_entry E) 6"
  shows "\<not> in_region x (local_slot2 E) 4" "\<not> in_region x (local_slot2 E + 4) 4"
    "\<not> in_region x (addr_stubinfo E + 0x18) 4"
proof -
  have "\<not> in_region x (local_slot2 E) 8" "\<not> in_region x (addr_stubinfo E) 0xA4"
    using assms apart_not_in [OF apart_sym] unfolding linked_def by blast+
  then show "\<not> in_region x (local_slot2 E) 4" "\<not> in_region x (local_slot2 E + 4) 4"
    "\<not> in_region x (addr_stubinfo E + 0x18) 4"
    using in_region_sub [of x "local_slot2 E" 4 4 8] in_region_sub [of x "addr_stubinfo E" 24 4 164]
      in_region_mono [of x "local_slot2 E" 4 8] by auto
qed

definition seg_desc :: "u32 \<Rightarrow> u32 \<Rightarrow> u16 \<Rightarrow> desc \<Rightarrow> bool" where
  "seg_desc base limit access d \<longleftrightarrow> d_base d = base \<and> d_limit d = limit \<and> d_access d = access \<and> \<not> d_real d"

lemma setup_client_ok:
  assumes host: "dpmi_host E D N" "card (dom (D (host w))) + 4 < N"
    and ds: "D (host w) (seg_ds w) = Some dd" "\<not> d_real dd"
    and lk: "linked E" and mk: "minkeep i = 0x4000"
    and run: "setup_client E va entry i w = Inr c"
  shows "distinct [ds_selector (cl_info c), cs_selector (cl_info c), cl_cs c, cl_ds c, cl_fs c] \<and>
    low_block (D (host (cl_world c))) (cl_info c) \<and> D (host (cl_world c)) (seg_ds w) = Some dd \<and>
    (\<exists>d. D (host (cl_world c)) (cl_cs c) = Some d \<and> seg_desc (cl_lin c - va) 0xffffffff 0xc0fb d) \<and>
    (\<exists>d. D (host (cl_world c)) (cl_ds c) = Some d \<and> seg_desc (cl_lin c - va) 0xffffffff 0xc0f3 d) \<and>
    (\<exists>d. D (host (cl_world c)) (cl_fs c) = Some d \<and>
       d_base d = d_base dd + addr_stubinfo E \<and> d_limit d = 0xa3 \<and> writable (d_access d) \<and> \<not> d_real d) \<and>
    card (dom (D (host (cl_world c)))) \<le> card (dom (D (host w))) + 5 \<and>
    unat (cl_lin c) + unat (PAGE_ALIGN (initial_size i)) \<le> 2 ^ 32 \<and>
    (\<forall>x. \<not> in_region x (cl_lin c) (unat (PAGE_ALIGN (initial_size i))) \<longrightarrow> lin (cl_world c) x = lin w x) \<and>
    load32 (own (cl_world c)) (addr_clnt_entry E) = entry \<and>
    load16 (own (cl_world c)) (addr_clnt_entry E + 4) = cl_cs c \<and>
    same_segs w (cl_world c) \<and> initial_size (cl_info c) = initial_size i \<and> mem_base (cl_info c) = cl_lin c - va"
proof -
  let ?ce = "addr_clnt_entry E" and ?p = "local_slot2 E" and ?q = "addr_stubinfo E + 0x18"
  define w0 where "w0 = w\<lparr>own := store32 (own w) ?ce entry\<rparr>"
  obtain i1 w1 where 1: "low_descriptors E i w0 = (i1, w1)" by fastforce
  have e1: "initial_size i1 = initial_size i" "own w1 = own w0" "lin w1 = lin w" "same_segs w w1"
    "keeps_desc (push_bit 4 (ucast (ds_segment i))) (D (host w)) (D (host w1))"
    "card (dom (D (host w1))) \<le> card (dom (D (host w))) + 2" "low_block (D (host w1)) i1"
    "ds_selector i1 \<noteq> cs_selector i1"
    using low_descriptors_ok [OF host(1) _ mk 1] host(2) by (auto simp: w0_def same_segs_def)
  then have low: "D (host w1) (ds_selector i1) \<noteq> None" "D (host w1) (cs_selector i1) \<noteq> None"
    by (auto simp: low_block_def)
  obtain rc2 w2 where 2: "call_c E dpmi_allocate_ldt_descriptors [1] w1 = (rc2, w2)" by fastforce
  let ?cs = "lo16 rc2"
  obtain d2 where e2: "own w2 = own w1" "lin w2 = lin w1" "same_segs w1 w2" "D (host w1) ?cs = None"
    "D (host w2) = (D (host w1))(?cs \<mapsto> d2)" "\<not> d_real d2"
    using call_allocate_ldt [OF host(1) _ 2] e1(6) host(2) by auto
  have c2: "card (dom (D (host w2))) \<le> card (dom (D (host w))) + 3"
    using card_dom_upd [of "D (host w1)" ?cs d2] e1(6) unfolding e2(5) by simp
  define w2a where "w2a = w2\<lparr>own := store16 (own w2) (?ce + 4) ?cs\<rparr>"
  obtain rc3 w3 where 3: "call_c E dpmi_allocate_ldt_descriptors [1] w2a = (rc3, w3)" by fastforce
  let ?ds = "lo16 rc3"
  have h2a: "host w2a = host w2" "lin w2a = lin w2" "same_segs w2 w2a" "own w2a = store16 (own w2) (?ce + 4) ?cs"
    by (simp_all add: w2a_def same_segs_def)
  obtain d3 where e3: "own w3 = own w2a" "lin w3 = lin w2" "same_segs w2a w3" "D (host w2) ?ds = None"
    "D (host w3) = (D (host w2))(?ds \<mapsto> d3)" "\<not> d_real d3"
    using call_allocate_ldt [OF host(1) _ 3] c2 host(2) h2a by auto
  have c3: "card (dom (D (host w3))) \<le> card (dom (D (host w))) + 4"
    using card_dom_upd [of "D (host w2)" ?ds d3] c2 unfolding e3(5) by simp
  define n where "n = PAGE_ALIGN (initial_size i)"
  obtain rc4 w4 where 4: "call_c E dpmi_allocate_memory [n, ?p, ?q] w3 = (rc4, w4)" by fastforce
  have ne: "rc4 \<noteq> - 1"
    using run 1 2 3 4 e1(1) by (auto simp: setup_client_def w0_def w2a_def n_def split: if_splits)
  let ?l = "load32 (own w4) ?p"
  have ap: "apart ?p 4 ?q 4" using lk by (simp add: linked_def)
  have e4: "unat ?l + unat n \<le> 2 ^ 32" "\<forall>x. \<not> in_region x ?l (unat n) \<longrightarrow> lin w4 x = lin w3 x"
    "\<forall>x. \<not> in_region x ?p 4 \<longrightarrow> \<not> in_region x ?q 4 \<longrightarrow> own w4 x = own w3 x"
    "D (host w4) = D (host w3)" "same_segs w3 w4"
    using call_allocate_memory [OF host(1) ap 4 ne] by simp_all
  have csds: "?cs \<noteq> ?ds" using e2(5) e3(4) by auto
  define w5 where "w5 = flat_segment E ?cs (?l - va) 0xc0fb w4"
  have s4: "D (host w4) ?cs = Some d2" "D (host w4) ?ds = Some d3"
    using csds by (simp_all add: e4(4) e3(5) e2(5))
  have e5: "own w5 = own w4" "lin w5 = lin w4" "same_segs w4 w5"
    "D (host w5) = (D (host w4))(?cs \<mapsto> with_limit 0xffffffff (d2\<lparr>d_base := ?l - va, d_access := 0xc0fb\<rparr>))"
    using flat_segment_ok [OF host(1) s4(1) e2(6) _ w5_def] by simp_all
  define w6 where "w6 = flat_segment E ?ds (?l - va) 0xc0f3 w5"
  have s5: "D (host w5) ?ds = Some d3" using s4(2) csds by (simp add: e5(4))
  have e6: "own w6 = own w5" "lin w6 = lin w5" "same_segs w5 w6"
    "D (host w6) = (D (host w5))(?ds \<mapsto> with_limit 0xffffffff (d3\<lparr>d_base := ?l - va, d_access := 0xc0f3\<rparr>))"
    using flat_segment_ok [OF host(1) s5 e3(6) _ w6_def] by simp_all
  have seg6: "same_segs w w6"
    using e1(4) e2(3) h2a(3) e3(3) e4(5) e5(3) e6(3) same_segs_trans by blast
  then have dsreg: "seg_ds w6 = seg_ds w" by (simp add: same_segs_def)
  have my1: "D (host w1) (seg_ds w) = Some dd" using e1(5) ds by (simp add: keeps_desc_def)
  then have my: "seg_ds w \<noteq> ?cs" "seg_ds w \<noteq> ?ds"
    using e2(4,5) e3(4) by (auto split: if_splits)
  then have s6: "D (host w6) (seg_ds w6) = Some dd"
    using my1 dsreg by (simp add: e6(4) e5(4) e4(4) e3(5) e2(5))
  have "dom (D (host w6)) = dom (D (host w3))"
    using csds by (auto simp: e6(4) e5(4) e4(4) e3(5) e2(5))
  then have d6: "card (dom (D (host w6))) \<le> card (dom (D (host w))) + 4" using c3 by simp
  then have c6: "card (dom (D (host w6))) < N" using host(2) by simp
  obtain fs w7 where 7: "info_segment E w6 = (fs, w7)" by fastforce
  obtain ef where e7: "D (host w6) fs = None" "lin w7 = lin w6" "same_segs w6 w7"
    "\<forall>x. \<not> in_region x (?p + 4) 4 \<longrightarrow> own w7 x = own w6 x"
    "D (host w7) = (D (host w6))(fs \<mapsto> ef)" "d_base ef = d_base dd + addr_stubinfo E" "d_limit ef = 0xa3"
    "writable (d_access ef)" "\<not> d_real ef"
    using info_segment_ok [OF host(1) c6 s6 7] .
  have my7: "D (host w7) (seg_ds w) = Some dd" using s6 e7(1) dsreg by (auto simp: e7(5))
  have d7: "card (dom (D (host w7))) \<le> card (dom (D (host w))) + 5"
    unfolding e7(5) by (rule order_trans [OF card_dom_upd]) (use d6 in simp)
  have fsne: "fs \<noteq> ?cs" "fs \<noteq> ?ds" using e7(1) csds by (auto simp: e6(4) e5(4))
  have le2: "map_le (D (host w1)) (D (host w2))" unfolding e2(5) using e2(4) by (rule map_le_new)
  have cs1: "D (host w1) ?ds = None" using map_le_None [OF le2 e3(4)] .
  have le6: "map_le (D (host w1)) (D (host w6))"
    unfolding e6(4) e5(4) e4(4) e3(5) e2(5) by (intro map_le_upd_new map_le_refl e2(4) cs1)
  have fs1: "D (host w1) fs = None" using map_le_None [OF le6 e7(1)] .
  have "map_le (D (host w1)) (D (host w7))" unfolding e7(5) using le6 fs1 by (rule map_le_upd_new)
  then have blk: "low_block (D (host w7)) i1" using low_block_le e1(7) by blast
  have flat: "seg_desc (?l - va) 0xffffffff 0xc0fb (with_limit 0xffffffff (d2\<lparr>d_base := ?l - va, d_access := 0xc0fb\<rparr>))"
    "seg_desc (?l - va) 0xffffffff 0xc0f3 (with_limit 0xffffffff (d3\<lparr>d_base := ?l - va, d_access := 0xc0f3\<rparr>))"
    using e2(6) e3(6) by (simp_all add: seg_desc_def limit_with_limit)
  have dist: "distinct [ds_selector i1, cs_selector i1, ?cs, ?ds, fs]"
    using e1(8) low e2(4) cs1 fs1 csds fsne by auto
  have c: "cl_cs c = ?cs" "cl_ds c = ?ds" "cl_fs c = fs" "cl_lin c = ?l" "cl_world c = w7"
    "initial_size (cl_info c) = initial_size i" "mem_base (cl_info c) = ?l - va"
    "ds_selector (cl_info c) = ds_selector i1" "cs_selector (cl_info c) = cs_selector i1"
    "low_block m (cl_info c) = low_block m i1" for m
    using run 1 2 3 4 7 e1(1) ne
    by (auto simp: setup_client_def w0_def w2a_def n_def w5_def w6_def Let_def low_block_def)
  have "own w7 x = own w2a x" if "in_region x ?ce 6" for x
    using linked_entry [OF lk that] e7(4) e6(1) e5(1) e4(3) e3(1) by simp
  then have keep: "load_bytes (own w7) (?ce + of_nat k) j = load_bytes (own w2a) (?ce + of_nat k) j"
    if "k + j \<le> 6" for k j
    using that by (intro load_bytes_cong) (auto dest: in_region_sub [where m = 6])
  have o2a: "own w2a = store16 (store32 (own w) ?ce entry) (?ce + 4) ?cs"
    using h2a(4) e2(1) e1(2) by (simp add: w0_def)
  have "load32 (own w7) ?ce = load32 (own w2a) ?ce"
    using keep [of 0 4] by (simp add: load32_def)
  then have l32: "load32 (own w7) ?ce = entry"
    unfolding o2a by (simp add: load32_store_apart apart_def)
  have "load16 (own w7) (?ce + 4) = load16 (own w2a) (?ce + 4)"
    using keep [of 4 2] by (simp add: load16_def)
  then have "load16 (own w7) (?ce + 4) = ?cs"
    unfolding o2a by simp
  moreover have "same_segs w w7" using seg6 e7(3) same_segs_trans by blast
  moreover have "lin w7 x = lin w x" if "\<not> in_region x ?l (unat n)" for x
    using that e7(2) e6(2) e5(2) e4(2) e3(2) e2(2) e1(3) by simp
  ultimately show ?thesis
    using csds fsne e4(1) my l32 d7 flat dist blk my7 e7(6-9)
    unfolding c by (simp add: n_def e7(5) e6(4) e5(4))
qed

section \<open>The loaders as one\<close>

interpretation ld: ldops "ld_read_headers E ops" ld_va ld_length ld_entry "ld_read_sections E" ld_plan
  "far_mapped E D" "far_effect E" "client_mem D"
  for E :: "'h env" and D :: "'h view" and ops
proof unfold_locales
  fix f g :: cfile and s t :: scns and r
  assume "ld_read_headers E ops f s = (r, g, t)"
  then show "same_file f g"
    using coff_headers_keep_file [of E f s] elf_headers_keep_file [of E f "()"]
    by (auto simp: ld_read_headers_def split: loader.splits prod.splits)
next
  fix p h s f off and w :: "'h world"
  assume "far_mapped E D p w" "\<forall>x \<in> set (ld_plan h s). deliverable f off x"
  then show "\<exists>g v. ld_read_sections E h p f off s w = Some (Inr (g, v)) \<and> same_file f g \<and>
      far_effect E w v \<and>
      agrees (client_mem D p w) (plan_cells (f_data f) off (ld_plan h s)) (client_mem D p v)"
    using coff.sections_run elf.sections_run by (cases h) fastforce+
next
  fix p h s xs x ys f off and w :: "'h world"
  assume "far_mapped E D p w" "ld_plan h s = xs @ x # ys"
    "\<forall>y \<in> set xs. deliverable f off y" "truncated f off x"
  then show "ld_read_sections E h p f off s w = Some (Inl (Exit_failure Err_reading))"
    using coff.sections_stop elf.sections_stop by (cases h) fastforce+
qed

lemma ld_read_sections_total: "ld_read_sections E h p f off s w \<noteq> None"
  by (cases h) (simp_all only: ld_read_sections.simps read_coff_sections_plan read_elf_sections_plan
      run_plan_total [OF long_read_total] not_False_eq_True)

text \<open>The client's memory in linear terms.\<close>

lemma client_mem_flat:
  assumes "D (host w) ds = Some d" "d_base d = base"
  shows "client_mem D \<lparr>fp_off = 0, fp_seg = ds\<rparr> w = (\<lambda>a. lin w (base + a))"
  using assms by (simp add: client_mem_def far_base_def)

section \<open>The stub info block\<close>

lemma info_inv_fill: "info_inv i \<Longrightarrow> info_inv (fill_info E argv envp n i)"
  by (simp add: info_inv_def fill_info_def stubinfo_ok_def)

lemma setup_info:
  assumes "setup_client E va entry i w = Inr c"
  shows "\<exists>a b h m. cl_info c = i\<lparr>ds_selector := a, cs_selector := b, memory_handle := h, mem_base := m\<rparr>"
proof -
  have low: "\<exists>a b. fst (low_descriptors E i v) = i\<lparr>ds_selector := a, cs_selector := b\<rparr>" for v
    by (auto simp: low_descriptors_def Let_def split: prod.splits)
  define l where "l = low_descriptors E i (w\<lparr>own := store32 (own w) (addr_clnt_entry E) entry\<rparr>)"
  have "\<exists>h m. cl_info c = (fst l)\<lparr>memory_handle := h, mem_base := m\<rparr>"
    using assms unfolding setup_client_def l_def [symmetric] Let_def
    by (cases l) (auto split: prod.splits if_splits, intro exI, rule refl)
  then show ?thesis using low unfolding l_def by metis
qed

lemma length_cstr_NUL: "k < length xs \<Longrightarrow> xs ! k = 0 \<Longrightarrow> length (cstr xs) \<le> k"
proof (rule ccontr)
  assume *: "k < length xs" "xs ! k = 0" "\<not> length (cstr xs) \<le> k"
  then have "k < length (cstr xs)" by simp
  then have "cstr xs ! k \<in> set (cstr xs)" "cstr xs ! k = xs ! k"
    by (rule nth_mem) (use \<open>k < length (cstr xs)\<close> in \<open>simp add: cstr_def takeWhile_nth\<close>)
  then show False using *(2) cstr_no_NUL [of xs] by simp
qed

lemma payload_info_ok:
  assumes "info_inv i"
  shows "stubinfo_ok (payload_info s f i)"
proof -
  have "length (payload2_name i) = 20" "payload2_name i ! 12 = 0"
    using assms by (simp_all add: info_inv_def stubinfo_ok_def)
  then have "length (cstr (payload2_name i)) \<le> 12" using length_cstr_NUL by simp
  moreover have "cstr (ascii ''.dbg'') = ascii ''.dbg''" "length (ascii ''.dbg'') = 4"
    by (simp_all add: cstr_def ascii_def)
  ultimately have "length (strcat (payload2_name i) (ascii ''.dbg'')) = 20"
    using length_strcat [of "payload2_name i" "ascii ''.dbg''"] \<open>length (payload2_name i) = 20\<close> by simp
  then show ?thesis
    using assms by (simp add: payload_info_def info_inv_def stubinfo_ok_def)
qed

section \<open>The block of the client\<close>

lemma PAGE_ALIGN_word: "PAGE_ALIGN a = push_bit 12 (drop_bit 12 (a + 4095))"
proof -
  have "PAGE_MASK = NOT (mask 12)" by (simp add: PAGE_MASK_def PAGE_SIZE_def mask_eq_exp_minus_1)
  moreover have "x AND NOT (mask 12) = push_bit 12 (drop_bit 12 x)" for x :: u32
    by (rule bit_word_eqI) (auto simp: bit_simps not_less)
  moreover have "a + PAGE_SIZE - 1 = a + 4095" by (simp add: PAGE_SIZE_def)
  ultimately show ?thesis unfolding PAGE_ALIGN_def by (simp only:)
qed

lemma unat_PAGE_ALIGN:
  "unat (PAGE_ALIGN a) = (if unat a \<le> 2 ^ 32 - 4096 then (unat a + 4095) div 4096 * 4096 else 0)"
proof -
  have u: "unat (push_bit 12 (drop_bit 12 x)) = unat x div 4096 * 4096" for x :: u32
  proof -
    have "unat x div 4096 * 4096 < 2 ^ 32"
      using div_times_less_eq_dividend [of "unat x" 4096] unat_u32_less [of x] by linarith
    then show ?thesis
      by (simp add: push_bit_eq_mult drop_bit_eq_div unat_word_ariths unat_div)
  qed
  show ?thesis
  proof (cases "unat a \<le> 2 ^ 32 - 4096")
    case True
    then have "unat (a + 4095) = unat a + 4095" by (simp add: unat_word_ariths)
    then show ?thesis using True by (simp add: PAGE_ALIGN_word u)
  next
    case False
    then have "unat (a + 4095) = unat a + 4095 - 2 ^ 32"
      using unat_u32_less [of a] by (simp add: unat_word_ariths mod_if)
    then have "unat (a + 4095) < 4096" using unat_u32_less [of a] by simp
    then show ?thesis using False by (simp add: PAGE_ALIGN_word u)
  qed
qed

lemma PAGE_ALIGN_ge:
  assumes "unat a \<le> 2 ^ 32 - 4096"
  shows "unat a \<le> unat (PAGE_ALIGN a)"
proof -
  have "(unat a + 4095) div 4096 * 4096 + (unat a + 4095) mod 4096 = unat a + 4095"
    "(unat a + 4095) mod 4096 < 4096" by simp_all
  then have "unat a \<le> (unat a + 4095) div 4096 * 4096" by linarith
  then show ?thesis unfolding unat_PAGE_ALIGN using assms by (simp only: if_True)
qed

lemma setup_client_stops: "setup_client E va entry i w = Inl e \<Longrightarrow> e = Exit_failure Alloc_failed"
  by (auto simp: setup_client_def Let_def split: prod.splits if_splits)

lemma fill_info_facts [simp]:
  "minkeep (fill_info E argv envp n i) = 0x4000"
  "initial_size (fill_info E argv envp n i) = (if 0x10000 < n then n else 0x10000)"
  by (simp_all add: fill_info_def)

lemma load_client_ok:
  assumes host: "dpmi_host E D N" "card (dom (D (host w))) + 4 < N"
    and ds: "D (host w) (seg_ds w) = Some dd" "\<not> d_real dd" and lk: "linked E"
    and hd: "ld_read_headers E ops (hs_file s) scns_zero = (Inr (Inr h), f1, a)"
    and dl: "\<forall>y \<in> set (ld_plan h a). deliverable (hs_file s) (hs_coffset s) y"
    and set: "setup_client E (ld_va h) (ld_entry h) (fill_info E argv envp (ld_length h) (hs_info s)) w = Inr c"
  shows "\<exists>f v. load_client E argv envp ops s w = Some (Inr (f, c, v)) \<and> same_file (hs_file s) f \<and>
    far_effect E (cl_world c) v \<and>
    ld_read_sections E h \<lparr>fp_off = 0, fp_seg = cl_ds c\<rparr> f1 (hs_coffset s) a (cl_world c) = Some (Inr (f, v)) \<and>
    far_mapped E D \<lparr>fp_off = 0, fp_seg = cl_ds c\<rparr> (cl_world c) \<and>
    (\<forall>u. host u = host (cl_world c) \<longrightarrow> client_mem D \<lparr>fp_off = 0, fp_seg = cl_ds c\<rparr> u =
      (\<lambda>x. lin u (cl_lin c - ld_va h + x)))"
proof -
  let ?p = "\<lparr>fp_off = 0, fp_seg = cl_ds c\<rparr>"
  have same: "same_file (hs_file s) f1" using ld.headers_keep_file [OF hd] .
  obtain d where d: "D (host (cl_world c)) (cl_ds c) = Some d" "d_base d = cl_lin c - ld_va h"
    using setup_client_ok [OF host ds lk _ set] by (auto simp: seg_desc_def)
  have m: "far_mapped E D ?p (cl_world c)"
    using host(1) d(1) by (simp add: far_mapped_def dpmi_host_def)
  have "\<forall>y \<in> set (ld_plan h a). deliverable f1 (hs_coffset s) y"
    using dl by (simp add: deliverable_same [OF same])
  from ld.sections_run [OF m this] obtain f v where
    run: "ld_read_sections E h ?p f1 (hs_coffset s) a (cl_world c) = Some (Inr (f, v))"
    "same_file f1 f" "far_effect E (cl_world c) v" by blast
  have "load_client E argv envp ops s w = Some (Inr (f, c, v))"
    by (simp add: load_client_def hd set run(1) Let_def)
  moreover have "client_mem D ?p u = (\<lambda>x. lin u (cl_lin c - ld_va h + x))"
    if "host u = host (cl_world c)" for u
    using that d client_mem_flat [of D u "cl_ds c" d "cl_lin c - ld_va h"] by simp
  moreover have "same_file (hs_file s) f" using same_file_trans [OF same run(2)] .
  ultimately show ?thesis using run(1,3) m by blast
qed

text \<open>With memory granted, every piece of the program lands at its place under the announced base.\<close>

lemma load_client_lands:
  assumes host: "dpmi_host E D N" "card (dom (D (host w))) + 4 < N"
    and ds: "D (host w) (seg_ds w) = Some dd" "\<not> d_real dd" and lk: "linked E"
    and hd: "ld_read_headers E ops (hs_file s) scns_zero = (Inr (Inr h), f1, a)"
    and dl: "\<forall>y \<in> set (ld_plan h a). deliverable (hs_file s) (hs_coffset s) y"
    and sp: "sorted_wrt spares (ld_plan h a)"
    and set: "setup_client E (ld_va h) (ld_entry h) (fill_info E argv envp (ld_length h) (hs_info s)) w = Inr c"
  obtains f v where "load_client E argv envp ops s w = Some (Inr (f, c, v))" "same_file (hs_file s) f"
    "far_effect E (cl_world c) v"
    "\<forall>y \<in> set (ld_plan h a). landed (f_data (hs_file s)) (hs_coffset s)
      (\<lambda>x. lin v (cl_lin c - ld_va h + x)) y"
proof -
  let ?p = "\<lparr>fp_off = 0, fp_seg = cl_ds c\<rparr>"
  obtain f v where run: "load_client E argv envp ops s w = Some (Inr (f, c, v))"
    "far_effect E (cl_world c) v"
    "ld_read_sections E h ?p f1 (hs_coffset s) a (cl_world c) = Some (Inr (f, v))"
    "far_mapped E D ?p (cl_world c)"
    "client_mem D ?p v = (\<lambda>x. lin v (cl_lin c - ld_va h + x))" "same_file (hs_file s) f"
    using load_client_ok [OF host ds lk hd dl set] far_effect_host by blast
  have same: "same_file (hs_file s) f1" using ld.headers_keep_file [OF hd] .
  then have d: "\<forall>y \<in> set (ld_plan h a). deliverable f1 (hs_coffset s) y" "f_data f1 = f_data (hs_file s)"
    using dl by (simp_all add: deliverable_same [OF same] same_file_def)
  have "\<forall>y \<in> set (ld_plan h a). landed (f_data f1) (hs_coffset s) (client_mem D ?p v) y"
    using ld.sections_land [OF run(4) d(1) sp] run(3) by auto
  then show ?thesis using that run(1,2,5,6) d(2) by simp
qed

section \<open>The jump\<close>

lemma jump_run:
  "exec E [fs, ds] (body (jump_to_entry E)) (start w) =
    \<lparr>stk = [], faulty = False,
     leave_to = Some (load16 (own w) (addr_clnt_entry E + 4), load32 (own w) (addr_clnt_entry E)),
     wld = w\<lparr>seg_fs := lo16 fs, seg_es := seg_ds w, seg_ds := lo16 ds\<rparr>\<rparr>"
  by (simp add: jump_to_entry_def exec_asm)

lemma load_client_total: "load_client E argv envp ops s w \<noteq> None"
  by (auto simp: load_client_def Let_def ld_read_sections_total
      split: prod.splits sum.splits option.splits)

lemma fullstub_total:
  assumes "\<forall>f. open_file (hd argv) = Some f \<longrightarrow> ascending f"
  shows "\<exists>r. fullstub E open_file argv envp w = Some r"
proof -
  have "\<exists>r. scan_headers (scan_start f i) = Some r" if "ascending f" for f i
    using scan_ascending [OF that, of "scan_start f i" 0] by (simp add: scan_start_def)
  then have "find_payload open_file argv envp \<noteq> None"
    using assms by (fastforce simp: find_payload_def Let_def split: option.splits)
  then show ?thesis
    by (auto simp: fullstub_def load_client_total split: option.splits sum.splits)
qed

text \<open>What \<open>enter_client\<close> makes of the block.\<close>

lemma enter_client_info:
  assumes "enter_client E c s f w = Inr l"
  shows "\<exists>p. la_info l = (payload_info s f (cl_info c))\<lparr>psp_selector := p\<rparr> \<and>
    own (wld (la_mach l)) = store_bytes (own (wld (la_mach l))) (addr_stubinfo E) (stubinfo_image (la_info l)) \<and>
    seg_fs (wld (la_mach l)) = cl_fs c \<and> seg_ds (wld (la_mach l)) = cl_ds c \<and>
    la_file l = lseek f (hs_noffset s) Seek_set"
proof -
  have idem: "store_bytes (store_bytes m a bs) a bs = store_bytes m a bs" for m a bs
    by (auto simp: store_bytes_def fun_eq_iff)
  show ?thesis
    using assms by (auto simp: enter_client_def Let_def bindR_Inr_iff jump_run idem)
qed

section \<open>Properties\<close>

text \<open>
  C22. The search for the payload need not end: when the chain of stub headers from the start of the file
  reaches a header from which one or more headers lead back to it, they are read again and again and
  \<open>fullstub\<close> never returns. In particular it hangs on an ordinary DOS program with a four-paragraph header and
  a zero at offset 3Ch, a header that points to itself and has no payload.
\<close>

theorem fullstub_hangs_on_cycle:
  assumes "argv \<noteq> []" "elfexec envp = None" "open_file (hd argv) = Some f" "f_pos f = 0" "f_bad f = []"
    and "mz_chain (f_data f) 0 n q" "mz_chain (f_data f) q (Suc k) q"
  shows "fullstub E open_file argv envp w = None"
proof -
  have "scan_headers (scan_start f i) = None" for i
  proof (rule ccontr)
    let ?t = "(mz_run (f_data f) 0 n (scan_start f i))\<lparr>hs_file := f\<lparr>f_pos := q\<rparr>\<rparr>"
    have "hs_file (scan_start f i) = f\<lparr>f_pos := 0\<rparr>" using assms(4) by (simp add: scan_start_def)
    from scan_chain [OF assms(6) this refl assms(5)]
    have eq: "scan_headers (scan_start f i) = scan_headers ?t" .
    assume "\<not> ?thesis"
    then obtain r where "scan_headers ?t = Some r" using eq by auto
    from scan_cycle [OF assms(7) this] show False using assms(5,7) by auto
  qed
  then show ?thesis
    using assms(1-3) by (simp add: fullstub_def find_payload_def)
qed

text \<open>Three headers, of which the second and the third name each other.\<close>

definition sample_cycle :: bytes where
  "sample_cycle = sample_mz 0x40 0 0 @ sample_mz 0x80 0 0 @ sample_mz 0x40 0 0"

lemma sample_cycle_chains: "mz_chain sample_cycle 0 1 0x40" "mz_chain sample_cycle 0x40 (Suc 1) 0x40"
proof -
  have b: "take 0x40 sample_cycle = sample_mz 0x40 0 0" "take 0x40 (drop 0x40 sample_cycle) = sample_mz 0x80 0 0"
    "take 0x40 (drop 0x80 sample_cycle) = sample_mz 0x40 0 0" "length sample_cycle = 0xC0"
    by (simp_all add: sample_cycle_def sample_mz_facts)
  then have "lfanew sample_cycle 0 = 0x40" "lfanew sample_cycle 0x40 = 0x80" "lfanew sample_cycle 0x80 = 0x40"
    by (simp_all add: lfanew_def sample_mz_facts)
  moreover have "is_mz sample_cycle" "is_mz (drop 0x40 sample_cycle)" "is_mz (drop 0x80 sample_cycle)"
    using sample_mz_facts(2) magic_take(1) b by metis+
  ultimately show "mz_chain sample_cycle 0 1 0x40" "mz_chain sample_cycle 0x40 (Suc 1) 0x40"
    by (simp_all add: b(4))
qed

theorem fullstub_hangs_on_cycle_witness:
  "fullstub quiet_env (\<lambda>_. Some (sample_file sample_cycle)) [[0x41]] [] quiet_world = None"
  by (rule fullstub_hangs_on_cycle [where f = "sample_file sample_cycle" and n = 1 and q = "0x40" and k = 1])
    (use sample_cycle_chains in \<open>simp_all add: sample_file_def\<close>)


lemma ref_alloc_runs:
  "unat n \<le> 0x10000000 \<Longrightarrow> fst (call_c ref_env dpmi_allocate_memory [n, p, q] w) \<noteq> - 1"
  by (simp add: wrapper_defs dpmi_allocate_memory_def ref_env_def ref_int_def)

lemma ref_setup_runs:
  assumes "initial_size i = 0x10000"
  shows "\<exists>c. setup_client ref_env va entry i w = Inr c"
proof -
  have "initial_size (fst (low_descriptors ref_env i v)) = 0x10000" for v
    using assms by (auto simp: low_descriptors_def Let_def split: prod.splits)
  moreover have "unat (PAGE_ALIGN 0x10000) \<le> 0x10000000"
    by (simp add: unat_PAGE_ALIGN)
  ultimately show ?thesis
    using ref_alloc_runs by (simp add: setup_client_def Let_def split_def)
qed

lemma ref_linked: "linked ref_env"
  by (simp add: linked_def ref_env_def apart_def)

definition sample_ds :: desc where
  "sample_ds = \<lparr>d_base = 0x100000, d_field = 0xfffff, d_access = 0xc0f3, d_real = False\<rparr>"

lemma sample_stub_world:
  "card (dom (ref_view (host (ref_world [(0x17, sample_ds)])))) + 4 < 8192"
  "ref_view (host (ref_world [(0x17, sample_ds)])) (seg_ds (ref_world [(0x17, sample_ds)])) = Some sample_ds"
  "\<not> d_real sample_ds"
  by (simp_all add: ref_view_def ref_world_def sample_ds_def)


text \<open>
  The program is loaded: if the payload's headers were accepted and the file delivers its pieces,
  \<open>fullstub\<close> either reports that there is no memory, or every piece of the payload stands in linear memory
  at its virtual address relative to the base \<open>mem_lin - va\<close> of the client's segments, whichever of the
  two formats it has.
\<close>

theorem client_loaded:
  assumes "dpmi_host E D N" "card (dom (D (host w))) + 4 < N"
    and "D (host w) (seg_ds w) = Some dd" "\<not> d_real dd" "linked E"
    and "ld_read_headers E ops (hs_file s) scns_zero = (Inr (Inr h), f1, a)"
    and "\<forall>y \<in> set (ld_plan h a). deliverable (hs_file s) (hs_coffset s) y"
    and "sorted_wrt spares (ld_plan h a)"
  shows "load_client E argv envp ops s w = Some (Inl (Exit_failure Alloc_failed)) \<or>
    (\<exists>f c v. load_client E argv envp ops s w = Some (Inr (f, c, v)) \<and>
      (\<exists>d. D (host v) (cl_ds c) = Some d \<and> seg_desc (cl_lin c - ld_va h) 0xffffffff 0xc0f3 d) \<and>
      (\<forall>y \<in> set (ld_plan h a). landed (f_data (hs_file s)) (hs_coffset s)
        (\<lambda>x. lin v (cl_lin c - ld_va h + x)) y))"
proof (cases "setup_client E (ld_va h) (ld_entry h) (fill_info E argv envp (ld_length h) (hs_info s)) w")
  case (Inl e)
  then show ?thesis
    using assms(6) setup_client_stops [OF Inl] by (simp add: load_client_def Let_def)
next
  case (Inr c)
  obtain f v where run: "load_client E argv envp ops s w = Some (Inr (f, c, v))"
    "far_effect E (cl_world c) v"
    "\<forall>y \<in> set (ld_plan h a). landed (f_data (hs_file s)) (hs_coffset s)
      (\<lambda>x. lin v (cl_lin c - ld_va h + x)) y"
    using load_client_lands [OF assms(1-8) Inr] .
  have "\<exists>d. D (host v) (cl_ds c) = Some d \<and> seg_desc (cl_lin c - ld_va h) 0xffffffff 0xc0f3 d"
    using setup_client_ok [OF assms(1-5) _ Inr] far_effect_host [OF run(2)] by simp
  then show ?thesis using run(1,3) by blast
qed

lemma sample_ld_read:
  "ld_read_headers ref_env Elf_ops (sample_file sample_elf) scns_zero =
    (Inr (Inr (Elf_handle sample_elf_h)), (sample_file sample_elf)\<lparr>f_pos := 116\<rparr>, scns_zero)"
  by (simp add: ld_read_headers_def sample_elf_read)

definition sample_scan :: hdr_scan where
  "sample_scan = scan_start (sample_file sample_elf) (stubinfo_zero\<lparr>si_flags := SIFLG_ELFEXEC\<rparr>)"

lemma sample_scan_facts:
  "ld_read_headers ref_env Elf_ops (hs_file sample_scan) scns_zero =
    (Inr (Inr (Elf_handle sample_elf_h)), (sample_file sample_elf)\<lparr>f_pos := 116\<rparr>, scns_zero)"
  "\<forall>y \<in> set (ld_plan (Elf_handle sample_elf_h) scns_zero).
     deliverable (hs_file sample_scan) (hs_coffset sample_scan) y"
  "sorted_wrt spares (ld_plan (Elf_handle sample_elf_h) scns_zero)"
  using sample_ld_read sample_elf_deliverable sample_elf_spares
  by (simp_all add: sample_scan_def scan_start_def)

lemma sample_setup:
  "\<exists>c. setup_client ref_env (ld_va (Elf_handle sample_elf_h)) (ld_entry (Elf_handle sample_elf_h))
    (fill_info ref_env argv envp (ld_length (Elf_handle sample_elf_h)) i) w = Inr c"
  by (rule ref_setup_runs) (simp add: get_elf_length_def sample_elf_h_def)

lemma sample_load:
  "\<exists>f c v. load_client ref_env argv envp Elf_ops sample_scan (ref_world [(0x17, sample_ds)]) = Some (Inr (f, c, v))"
  using sample_setup load_client_ok [OF ref_host_laws sample_stub_world ref_linked sample_scan_facts(1,2)]
  by metis

theorem client_loaded_witness:
  "\<exists>f c v. load_client ref_env [[0x41]] [] Elf_ops sample_scan (ref_world [(0x17, sample_ds)]) =
      Some (Inr (f, c, v)) \<and>
    load_bytes (\<lambda>x. lin v (cl_lin c - 0x1000 + x)) 0x1000 3 = [1, 2, 3]"
proof -
  obtain f c v where run: "load_client ref_env [[0x41]] [] Elf_ops sample_scan
      (ref_world [(0x17, sample_ds)]) = Some (Inr (f, c, v))"
    using sample_load by blast
  have "\<forall>y \<in> set (ld_plan (Elf_handle sample_elf_h) scns_zero).
      landed (f_data (hs_file sample_scan)) (hs_coffset sample_scan)
        (\<lambda>x. lin v (cl_lin c - ld_va (Elf_handle sample_elf_h) + x)) y"
    using client_loaded [OF ref_host_laws sample_stub_world ref_linked sample_scan_facts, of "[[0x41]]" "[]"]
    unfolding run by simp
  then have "load_bytes (\<lambda>x. lin v (cl_lin c - 0x1000 + x)) 0x1000 3 = [1, 2, 3]"
    by (simp add: sample_elf_plan get_elf_va_def sample_elf_h_def [THEN arg_cong, of eh_va, simplified]
        sample_scan_def scan_start_def sample_file_def sample_elf_data)
  then show ?thesis using run by blast
qed



text \<open>
  \<open>jump_to_entry\<close> enters the client: control goes to the selector and offset in \<open>clnt_entry\<close>, with \<open>fs\<close>
  and \<open>ds\<close> from the arguments and \<open>es\<close> the stub's own data segment; nothing else changes and the stack is
  balanced.
\<close>

theorem jump_enters_client:
  "let m = exec E [fs, ds] (body (jump_to_entry E)) (start w) in
     leave_to m = Some (load16 (own w) (addr_clnt_entry E + 4), load32 (own w) (addr_clnt_entry E)) \<and>
     wld m = w\<lparr>seg_fs := lo16 fs, seg_es := seg_ds w, seg_ds := lo16 ds\<rparr> \<and> stk m = [] \<and>
     \<not> faulty m \<and> uses_args (jump_to_entry E)"
proof -
  have "uses_args (jump_to_entry E)" by (simp add: uses_args_def jump_to_entry_def)
  then show ?thesis unfolding Let_def jump_run by simp
qed

text \<open>
  C27. The client receives a well-formed stub info block: whenever \<open>fullstub\<close> reaches the jump, the block's
  image stands at its address, every string in it has kept its length, with a terminator in \<open>argv0\<close> (the
  suffix \<open>.dbg\<close> never overruns \<open>payload2_name\<close>), and the sizes the client depends on are set. The jump
  loads the selectors of the client's segments, and the file is positioned at the first payload behind
  the program. This holds for every host and every file.
\<close>

theorem stub_info_delivered:
  assumes "fullstub E open_file argv envp w = Some (Inr l)"
  shows "load_bytes (own (wld (la_mach l))) (addr_stubinfo E) STUBINFO_END = stubinfo_image (la_info l) \<and>
    stubinfo_ok (la_info l) \<and> argv0 (la_info l) ! 15 = 0 \<and>
    si_size (la_info l) = of_nat STUBINFO_END \<and> minkeep (la_info l) = 0x4000 \<and>
    minstack (la_info l) = 0x80000 \<and> 0x10000 \<le> initial_size (la_info l) \<and>
    (\<exists>ops s f c v. find_payload open_file argv envp = Some (Inr (ops, s)) \<and>
      load_client E argv envp ops s w = Some (Inr (f, c, v)) \<and>
      seg_fs (wld (la_mach l)) = cl_fs c \<and> seg_ds (wld (la_mach l)) = cl_ds c \<and>
      mem_base (la_info l) = mem_base (cl_info c) \<and> self_fd (la_info l) = f_fd f \<and>
      payload_offs (la_info l) = hs_noffset s \<and> la_file l = lseek f (hs_noffset s) Seek_set)"
proof -
  obtain ops s f c w1 where find: "find_payload open_file argv envp = Some (Inr (ops, s))"
    and load: "load_client E argv envp ops s w = Some (Inr (f, c, w1))"
    and enter: "enter_client E c s f w1 = Inr l"
    using assms by (auto simp: fullstub_def split: option.splits sum.splits)
  obtain va entry n where set: "setup_client E va entry (fill_info E argv envp n (hs_info s)) w = Inr c"
    using load by (auto simp: load_client_def Let_def split: prod.splits sum.splits option.splits)
  let ?i = "fill_info E argv envp n (hs_info s)"
  obtain a b hh m where i: "cl_info c =
      ?i\<lparr>ds_selector := a, cs_selector := b, memory_handle := hh, mem_base := m\<rparr>"
    using setup_info [OF set] by blast
  obtain p where e: "la_info l = (payload_info s f (cl_info c))\<lparr>psp_selector := p\<rparr>"
    "own (wld (la_mach l)) = store_bytes (own (wld (la_mach l))) (addr_stubinfo E) (stubinfo_image (la_info l))"
    "seg_fs (wld (la_mach l)) = cl_fs c" "seg_ds (wld (la_mach l)) = cl_ds c"
    "la_file l = lseek f (hs_noffset s) Seek_set"
    using enter_client_info [OF enter] by blast
  have "info_inv ?i" using info_inv_fill [OF info_inv_found [OF find]] .
  then have inv: "info_inv (cl_info c)" by (simp add: i info_inv_def stubinfo_ok_def)
  have ok: "stubinfo_ok (la_info l)"
    using payload_info_ok [OF inv, of s f] by (simp add: e(1) stubinfo_ok_def)
  then have len: "length (stubinfo_image (la_info l)) = STUBINFO_END"
    by (simp add: length_stubinfo_image STUBINFO_END_def)
  have img: "load_bytes (own (wld (la_mach l))) (addr_stubinfo E) STUBINFO_END = stubinfo_image (la_info l)"
  proof (subst e(2))
    show "load_bytes (store_bytes (own (wld (la_mach l))) (addr_stubinfo E) (stubinfo_image (la_info l)))
        (addr_stubinfo E) STUBINFO_END = stubinfo_image (la_info l)"
      using load_store_bytes [of "stubinfo_image (la_info l)"] unfolding len by (simp add: STUBINFO_END_def)
  qed
  have "stubinfo_ok (hs_info s)" using info_inv_found [OF find] by (simp add: info_inv_def)
  then have f: "argv0 (la_info l) ! 15 = 0 \<and> si_size (la_info l) = of_nat STUBINFO_END \<and>
      minkeep (la_info l) = 0x4000 \<and> minstack (la_info l) = 0x80000 \<and> 0x10000 \<le> initial_size (la_info l) \<and>
      payload_offs (la_info l) = hs_noffset s \<and> self_fd (la_info l) = f_fd f \<and>
      mem_base (la_info l) = mem_base (cl_info c)"
    by (simp add: e(1) payload_info_def i fill_info_def STUBINFO_END_def stubinfo_ok_def less_imp_le)
  have "\<exists>ops s f c v. find_payload open_file argv envp = Some (Inr (ops, s)) \<and>
      load_client E argv envp ops s w = Some (Inr (f, c, v)) \<and>
      seg_fs (wld (la_mach l)) = cl_fs c \<and> seg_ds (wld (la_mach l)) = cl_ds c \<and>
      mem_base (la_info l) = mem_base (cl_info c) \<and> self_fd (la_info l) = f_fd f \<and>
      payload_offs (la_info l) = hs_noffset s \<and> la_file l = lseek f (hs_noffset s) Seek_set"
    using find load e(3-5) f by blast
  then show ?thesis using ok img f by simp
qed

lemma ref_init:
  assumes "unat para \<le> 0x1000"
  shows "\<exists>sel u. dpmi_init ref_env para w = Inr (0, sel, u)"
proof -
  let ?v = "probe_reply ref_env w"
  have v: "\<not> cf ?v" "eax ?v = 0x2000" "ebx ?v = 0x403" "esi ?v = 0x10"
    using probe_eax [where p = "local_slot2 ref_env" and w = w and m = "own w"]
    by (simp_all add: probe_reply_def ref_env_def ref_int_def Let_def)
  have x: "(0x403 :: u32) AND 1 \<noteq> 0" "(0x403 :: u32) AND 0x1402 = 0x402" "(0x10 :: u32) \<noteq> 0" by simp_all
  have "unat (lo16 (0x10 + ucast (ucast (ucast para + 0x10 :: u32) :: u16))) \<le> 0x1020"
  proof -
    have "unat (ucast para + 0x10 :: u32) = unat para + 0x10"
      using assms by (simp add: unat_word_ariths unat_ucast_u16)
    then have "unat (ucast (ucast para + 0x10 :: u32) :: u16) = unat para + 0x10"
      using assms by (simp add: unat_ucast_less)
    then have "unat (0x10 + ucast (ucast (ucast para + 0x10 :: u32) :: u16) :: u32) = unat para + 0x20"
      using assms by (simp add: unat_word_ariths unat_ucast_u16)
    then show ?thesis using assms by (simp add: lo16_def unat_ucast_less)
  qed
  then obtain w3 where w3: "shrink_low ref_env (ucast (ucast para + 0x10 :: u32)) (probed ref_env w) = Inr w3"
    by (auto simp: shrink_low_def ref_env_def)
  define w4 where "w4 = pool_moved ref_env para ?v w3"
  have ncf: "\<not> cf (switched ref_env para ?v w4)" by (simp add: switched_def ref_env_def ref_switch_def Let_def)
  obtain t where "free_low ref_env (ucast (eax ?v)) (switch_done ref_env (switched ref_env para ?v w4) w4) = Inr t"
    by (simp add: free_low_def ref_env_def regs_zero_def)
  then have "dpmi_init ref_env para w = Inr (0, Some (load16 (own t) (addr_psp_sel ref_env)), t)"
    unfolding dpmi_init_eq Let_def w4_def using v(1) ncf [unfolded w4_def] by (simp add: v(3,4) x w3)
  then show ?thesis by blast
qed

lemma ref_enter_client: "\<exists>l. enter_client ref_env c s f w = Inr l"
proof -
  let ?p = "drop_bit 4 (minkeep (payload_info s f (cl_info c)))"
  have "unat (minkeep (payload_info s f (cl_info c))) < 2 ^ 16"
    using unsigned_less [of "minkeep (payload_info s f (cl_info c))"] by simp
  then have "unat ?p \<le> 0x1000" by (simp add: drop_bit_eq_div unat_div)
  then obtain sel u where "dpmi_init ref_env ?p w = Inr (0, sel, u)" using ref_init by blast
  then show ?thesis by (simp add: enter_client_def Let_def)
qed

theorem stub_info_delivered_witness:
  "\<exists>l. fullstub ref_env (\<lambda>_. Some (sample_file sample_elf)) [[0x41]] [ascii ''ELFEXEC=x'']
      (ref_world [(0x17, sample_ds)]) = Some (Inr l) \<and> stubinfo_ok (la_info l)"
proof -
  have "elfexec [ascii ''ELFEXEC=x''] = Some (ascii ''x'')" by (simp add: ascii_def)
  then have find: "find_payload (\<lambda>_. Some (sample_file sample_elf)) [[0x41]] [ascii ''ELFEXEC=x''] =
      Some (Inr (Elf_ops, sample_scan))"
    by (simp add: find_payload_def sample_scan_def stubinfo_zero_def)
  obtain f c v where "load_client ref_env [[0x41]] [ascii ''ELFEXEC=x''] Elf_ops sample_scan
      (ref_world [(0x17, sample_ds)]) = Some (Inr (f, c, v))"
    using sample_load by blast
  moreover obtain l where "enter_client ref_env c sample_scan f v = Inr l"
    using ref_enter_client by blast
  ultimately have "fullstub ref_env (\<lambda>_. Some (sample_file sample_elf)) [[0x41]] [ascii ''ELFEXEC=x'']
      (ref_world [(0x17, sample_ds)]) = Some (Inr l)"
    by (simp add: fullstub_def find)
  then show ?thesis using stub_info_delivered by blast
qed

text \<open>
  C28. \<open>fullstub\<close> always ends, in the jump or in a diagnostic, when every stub header that the search reaches
  in the file it opens points behind itself (\<open>ascending\<close>). Nothing is assumed of the host, and the medium may
  fail anywhere.
\<close>

theorem fullstub_terminates:
  assumes "\<forall>f. open_file (hd argv) = Some f \<longrightarrow> ascending f"
  shows "\<exists>r. fullstub E open_file argv envp w = Some r"
  by (rule fullstub_total [where open_file = open_file and argv = argv, OF assms])

lemma sample_chain_ascending: "ascending (sample_file sample_chain)"
proof -
  have s: "f_data (sample_file sample_chain) = sample_chain" "f_pos (sample_file sample_chain) = 0"
    by (simp_all add: sample_file_def)
  have l: "lfanew sample_chain 0 = 0x40" "lfanew sample_chain 0x40 = 0x80"
    by (simp_all add: lfanew_def sample_chain_facts sample_mz_facts)
  have q: "q = 0 \<or> q = 0x40 \<or> q = 0x80" if "mz_chain sample_chain p n q" "p = 0 \<or> p = 0x40 \<or> p = 0x80" for p n q
    using that
  proof (induction n arbitrary: p)
    case (Suc n)
    have "p \<noteq> 0x80" using Suc.prems(1) sample_chain_facts(3) sample_elf_magic(1) by auto
    then show ?case using Suc.IH [of "lfanew sample_chain p"] Suc.prems l by auto
  qed simp
  show ?thesis
    unfolding ascending_def s
  proof (intro allI impI)
    fix n q
    assume h: "mz_chain sample_chain 0 n q" "is_mz (drop q sample_chain)"
    then have "q = 0 \<or> q = 0x40" using q [OF h(1)] sample_chain_facts(3) sample_elf_magic(1) by auto
    then show "q < lfanew sample_chain q \<and> lfanew sample_chain q < 2 ^ 31" using l by auto
  qed
qed

text \<open>Two stub headers are followed to the program behind them.\<close>

theorem fullstub_terminates_witness:
  "\<exists>r. fullstub quiet_env (\<lambda>_. Some (sample_file sample_chain)) [[0x41]] [] quiet_world = Some r"
  by (rule fullstub_terminates) (simp add: sample_chain_ascending)

text \<open>
  C29. The block that is requested from the host for a program of \<open>n\<close> bytes has exactly \<open>N\<close> bytes, the smallest
  number of whole pages that holds the program and at least 64 KB; but when that does not fit 32 bits the
  request is for 0 bytes. For the host this is all that counts: when it refuses requests of \<open>N\<close> bytes the
  loader ends with the diagnostic, when it grants them the loader goes on, whatever it does with others. So
  a program of almost 4 GB is loaded without memory of its own on a host that grants empty blocks.
\<close>

theorem block_request:
  assumes "k = max (unat n) 0x10000" "N = (if k \<le> 2 ^ 32 - 4096 then (k + 4095) div 4096 * 4096 else 0)"
  shows "((\<forall>u. eax u = 0x501 \<and> unat (pair32 (lo16 (ebx u)) (lo16 (ecx u))) = N \<longrightarrow> cf (int_call E 0x31 u)) \<longrightarrow>
      setup_client E va entry (fill_info E argv envp n i) w = Inl (Exit_failure Alloc_failed)) \<and>
    ((\<forall>u. eax u = 0x501 \<and> unat (pair32 (lo16 (ebx u)) (lo16 (ecx u))) = N \<longrightarrow>
        \<not> cf (int_call E 0x31 u) \<and> eax (int_call E 0x31 u) \<noteq> - 1) \<longrightarrow>
      (\<exists>c. setup_client E va entry (fill_info E argv envp n i) w = Inr c))"
proof -
  let ?i = "fill_info E argv envp n i"
  let ?m = "PAGE_ALIGN (initial_size ?i)"
  have "unat (initial_size ?i) = k" by (simp add: assms(1) max_def word_less_nat_alt)
  then have size: "unat ?m = N" by (simp add: unat_PAGE_ALIGN assms(2))
  have low: "initial_size (fst (low_descriptors E ?i v)) = initial_size ?i" for v
    by (auto simp: low_descriptors_def Let_def split: prod.splits)
  let ?u = "\<lambda>v. v\<lparr>eax := 0x501, ebx := ucast (hi16 ?m), ecx := ucast (lo16 ?m)\<rparr>"
  have "unat (pair32 (lo16 (ebx (?u v))) (lo16 (ecx (?u v)))) = N" for v :: "'a world" using size by simp
  moreover have "cf (int_call E 0x31 (?u v)) \<Longrightarrow> fst (call_c E dpmi_allocate_memory [?m, p, q] v) = - 1"
    "\<not> cf (int_call E 0x31 (?u v)) \<Longrightarrow> eax (int_call E 0x31 (?u v)) \<noteq> - 1 \<Longrightarrow>
      fst (call_c E dpmi_allocate_memory [?m, p, q] v) \<noteq> - 1" for v p q
    by (simp_all add: wrapper_defs dpmi_allocate_memory_def)
  ultimately show ?thesis
    using low by (simp add: setup_client_def Let_def split_def)
qed

text \<open>
  A host that grants requests of 19 pages, 77824 bytes, and no others, one that refuses these only, and a
  program of 73738 bytes.
\<close>

definition picky_env :: "bool \<Rightarrow> ref_host env" where
  "picky_env grants = ref_env\<lparr>int_call := (\<lambda>k u.
     if eax u = 0x501 \<and> (unat (pair32 (lo16 (ebx u)) (lo16 (ecx u))) = 77824) \<noteq> grants then u\<lparr>cf := True\<rparr>
     else ref_int k u)\<rparr>"

theorem block_request_witness:
  "(\<exists>c. setup_client (picky_env True) 0 0 (fill_info (picky_env True) [] [] 73738 stubinfo_zero) (ref_world []) = Inr c) \<and>
    setup_client (picky_env False) 0 0 (fill_info (picky_env False) [] [] 73738 stubinfo_zero) (ref_world []) =
      Inl (Exit_failure Alloc_failed)"
proof -
  have N: "(77824 :: nat) = (if (73738 :: nat) \<le> 2 ^ 32 - 4096 then (73738 + 4095) div 4096 * 4096 else 0)" by simp
  have k: "73738 = max (unat (73738 :: u32)) 0x10000" by simp
  note r = block_request [OF k N]
  have "\<forall>u. eax u = 0x501 \<and> unat (pair32 (lo16 (ebx u)) (lo16 (ecx u))) = 77824 \<longrightarrow>
      \<not> cf (int_call (picky_env True) 0x31 u) \<and> eax (int_call (picky_env True) 0x31 u) \<noteq> - 1"
    by (simp add: picky_env_def ref_int_def)
  moreover have "\<forall>u. eax u = 0x501 \<and> unat (pair32 (lo16 (ebx u)) (lo16 (ecx u))) = 77824 \<longrightarrow>
      cf (int_call (picky_env False) 0x31 u)"
    by (simp add: picky_env_def)
  ultimately show ?thesis using r by blast
qed

end
