(* ===== verification/Payload.thy ===== *)
theory Payload
  imports Stub
begin

text \<open>
  The two executable formats under one abstract view: a program is an entry point and a list of segments,
  each with its place in the file, its address and its two sizes. A COFF file and an ELF file are two
  representations of it; what the loaders do with either is described in terms of the segments.
\<close>

section \<open>Programs\<close>

record segment =
  sg_offset :: u32
  sg_vaddr :: u32
  sg_filesz :: u32
  sg_memsz :: u32

definition phdr_segment :: "Elf32_Phdr \<Rightarrow> segment" where
  "phdr_segment ph = \<lparr>sg_offset = p_offset ph, sg_vaddr = p_vaddr ph, sg_filesz = p_filesz ph,
     sg_memsz = p_memsz ph\<rparr>"

definition scn_segment :: "scn_header \<Rightarrow> segment" where
  "scn_segment s = \<lparr>sg_offset = s_scnptr s, sg_vaddr = s_vaddr s, sg_filesz = s_size s, sg_memsz = s_size s\<rparr>"

definition bss_segment :: "scn_header \<Rightarrow> segment" where
  "bss_segment s = \<lparr>sg_offset = 0, sg_vaddr = s_vaddr s, sg_filesz = 0, sg_memsz = s_size s\<rparr>"

text \<open>The headers of an executable; for COFF, those of its text, data and bss sections.\<close>

datatype payload =
    Coff_payload coff_header opt_header scn_header scn_header scn_header
  | Elf_payload Elf32_Ehdr "Elf32_Phdr list"

fun payload_ops :: "payload \<Rightarrow> loader" where
  "payload_ops (Coff_payload c o1 t d b) = Coff_ops"
| "payload_ops (Elf_payload eh phs) = Elf_ops"

fun payload_entry :: "payload \<Rightarrow> u32" where
  "payload_entry (Coff_payload c o1 t d b) = o_entry o1"
| "payload_entry (Elf_payload eh phs) = e_entry eh"

fun payload_segments :: "payload \<Rightarrow> segment list" where
  "payload_segments (Coff_payload c o1 t d b) = [scn_segment t, scn_segment d, bss_segment b]"
| "payload_segments (Elf_payload eh phs) = map phdr_segment (loads phs)"

text \<open>The address range that is mapped to the block: from 0 for COFF, from the lowest segment for ELF.\<close>

fun payload_range :: "payload \<Rightarrow> u32 \<times> u32" where
  "payload_range (Coff_payload c o1 t d b) = (0, s_vaddr b + s_size b)"
| "payload_range (Elf_payload eh phs) = the (scan_phdrs phs 0 0)"

fun payload_plan :: "payload \<Rightarrow> piece list" where
  "payload_plan (Coff_payload c o1 t d b) =
     [Copy (s_scnptr t) (s_vaddr t) (s_size t), Copy (s_scnptr d) (s_vaddr d) (s_size d),
      Zero (s_vaddr b) (s_size b + (s_size b AND 1))]"
| "payload_plan (Elf_payload eh phs) = concat (map segment_plan (loads phs))"

text \<open>The memory a loader needs for its handle.\<close>

fun payload_heap :: "payload \<Rightarrow> u32" where
  "payload_heap (Coff_payload c o1 t d b) = 8"
| "payload_heap (Elf_payload eh phs) = 48 + 32 * ucast (e_phnum eh)"

text \<open>Where the headers stand in the file, and what the loaders require of them.\<close>

fun payload_headers :: "bytes \<Rightarrow> payload \<Rightarrow> bool" where
  "payload_headers f (Coff_payload c o1 t d b) \<longleftrightarrow>
     (\<exists>extra rest. f = coff_header_image c @ opt_header_image o1 @ extra @ scns_image t d b @ rest \<and>
        unat (f_opthdr c) = 28 + length extra) \<and>
     f_magic c = 0x14c \<and> named t \<and> named d \<and> named b \<and>
     (\<forall>s \<in> {t, d, b}. unat (s_vaddr s) + unat (s_size s) \<le> unat (s_vaddr b) + unat (s_size b))"
| "payload_headers f (Elf_payload eh phs) \<longleftrightarrow>
     (\<exists>gap rest. f = Ehdr_image eh @ gap @ concat (map Phdr_image phs) @ rest \<and>
        unat (e_phoff eh) = 52 + length gap) \<and>
     length (e_ident eh) = 16 \<and> take 4 (e_ident eh) = ELFMAG \<and> e_ident eh ! EI_CLASS = ELFCLASS32 \<and>
     e_ehsize eh = 52 \<and> e_phentsize eh = 32 \<and> unat (e_phnum eh) = length phs \<and> loads phs \<noteq> [] \<and>
     (\<forall>ph \<in> set (loads phs). regular ph)"

text \<open>
  A well-formed executable: its segments are in the file and below the last page of the address space,
  and loading one leaves the others alone.
\<close>

definition segment_ok :: "bytes \<Rightarrow> segment \<Rightarrow> bool" where
  "segment_ok f s \<longleftrightarrow> sg_filesz s \<le> sg_memsz s \<and> unat (sg_vaddr s) + unat (sg_memsz s) \<le> 2 ^ 32 - 4096 \<and>
     unat (sg_offset s) + unat (sg_filesz s) \<le> length f"

definition payload_file :: "bytes \<Rightarrow> payload \<Rightarrow> bool" where
  "payload_file f P \<longleftrightarrow> payload_headers f P \<and> (\<forall>s \<in> set (payload_segments P). segment_ok f s) \<and>
     sorted_wrt spares (payload_plan P)"

text \<open>A segment in memory: its file bytes, then zeros up to its memory size.\<close>

definition segment_in :: "bytes \<Rightarrow> mem \<Rightarrow> segment \<Rightarrow> bool" where
  "segment_in f m s \<longleftrightarrow>
     load_bytes m (sg_vaddr s) (unat (sg_filesz s)) = take (unat (sg_filesz s)) (drop (unat (sg_offset s)) f) \<and>
     (\<forall>k. unat (sg_filesz s) \<le> k \<longrightarrow> k < unat (sg_memsz s) \<longrightarrow> m (sg_vaddr s + of_nat k) = 0)"

lemma segment_fields [simp]:
  "sg_offset (phdr_segment ph) = p_offset ph" "sg_vaddr (phdr_segment ph) = p_vaddr ph"
  "sg_filesz (phdr_segment ph) = p_filesz ph" "sg_memsz (phdr_segment ph) = p_memsz ph"
  "sg_offset (scn_segment s) = s_scnptr s" "sg_vaddr (scn_segment s) = s_vaddr s"
  "sg_filesz (scn_segment s) = s_size s" "sg_memsz (scn_segment s) = s_size s"
  "sg_offset (bss_segment s) = 0" "sg_vaddr (bss_segment s) = s_vaddr s"
  "sg_filesz (bss_segment s) = 0" "sg_memsz (bss_segment s) = s_size s"
  by (simp_all add: phdr_segment_def scn_segment_def bss_segment_def)

lemma segment_in_cong:
  assumes "segment_in f m s" "sg_filesz s \<le> sg_memsz s"
    and "\<And>k. k < unat (sg_memsz s) \<Longrightarrow> m' (sg_vaddr s + of_nat k) = m (sg_vaddr s + of_nat k)"
  shows "segment_in f m' s"
proof -
  have "load_bytes m' (sg_vaddr s) (unat (sg_filesz s)) = load_bytes m (sg_vaddr s) (unat (sg_filesz s))"
    using assms(2,3) by (auto simp: load_bytes_def word_le_nat_alt)
  then show ?thesis using assms(1,3) by (simp add: segment_in_def)
qed

section \<open>Reading the headers\<close>

lemma take4_nth:
  assumes "take 4 d = [a, b, c, e]"
  shows "d ! 0 = a" "d ! 1 = b" "d ! 2 = c" "d ! 3 = e"
  using arg_cong [OF assms, of "\<lambda>xs. xs ! 0"] arg_cong [OF assms, of "\<lambda>xs. xs ! 1"]
    arg_cong [OF assms, of "\<lambda>xs. xs ! 2"] arg_cong [OF assms, of "\<lambda>xs. xs ! 3"] by simp_all

lemma payload_magic:
  assumes "payload_headers d P"
  shows "\<not> is_mz d \<and> (is_coff d \<or> is_elf d) \<and> payload_ops P = (if is_coff d then Coff_ops else Elf_ops) \<and>
    0x40 \<le> length d"
proof (cases P)
  case (Coff_payload c o1 t e b)
  obtain extra rest where d: "d = coff_header_image c @ opt_header_image o1 @ extra @ scns_image t e b @ rest"
    and c: "f_magic c = 0x14c" "named t" "named e" "named b"
    using assms Coff_payload by auto
  have "bytes16 (0x14c :: u16) = [0x4c, 1]" by (simp add: bytes16_def)
  then have m: "take 2 d = [0x4c, 1]" by (simp add: d coff_header_image_def c(1))
  have "d ! 0 = 0x4c" "d ! 1 = 1"
    using arg_cong [OF m, of "\<lambda>xs. xs ! 0"] arg_cong [OF m, of "\<lambda>xs. xs ! 1"] by simp_all
  moreover have "0x40 \<le> length d" using c by (simp add: d length_scns_image)
  ultimately show ?thesis
    by (simp add: is_mz_def is_coff_def Coff_payload)
next
  case (Elf_payload eh phs)
  obtain gap rest where d: "d = Ehdr_image eh @ gap @ concat (map Phdr_image phs) @ rest"
    and id: "length (e_ident eh) = 16" "take 4 (e_ident eh) = ELFMAG" "loads phs \<noteq> []"
    using assms Elf_payload by auto
  have "take 4 d = [0x7f, 0x45, 0x4c, 0x46]" using id(1,2) by (simp add: d Ehdr_image_def ELFMAG_def)
  note m = take4_nth [OF this]
  have "1 \<le> length phs" using id(3) by (cases phs) (auto simp: loads_def)
  then have "0x40 \<le> length d" using id(1) by (simp add: d length_phdr_images)
  then show ?thesis
    using m by (simp add: is_mz_def is_coff_def is_elf_def Elf_payload)
qed

lemma payload_read:
  assumes "payload_headers (drop (f_pos f) (f_data f)) P" "f_bad f = []" "length (f_data f) < 2 ^ 31"
    and "malloc_ok E (payload_heap P)"
  obtains h f1 a where "ld_read_headers E (payload_ops P) f scns_zero = (Inr (Inr h), f1, a)"
    "ld_entry h = payload_entry P" "ld_plan h a = payload_plan P"
    "payload_range P = (ld_va h, ld_va h + ld_length h)"
proof (cases P)
  case (Coff_payload c o1 t d b)
  obtain extra rest where dt: "drop (f_pos f) (f_data f) =
      coff_header_image c @ opt_header_image o1 @ extra @ scns_image t d b @ rest"
    and oh: "unat (f_opthdr c) = 28 + length extra" and nm: "named t" "named d" "named b"
    using assms(1) Coff_payload by auto
  have "length (drop (f_pos f) (f_data f)) = 168 + length extra + length rest"
    unfolding dt using nm by (simp add: length_scns_image)
  then have pos: "f_pos f + 48 + length extra < 2 ^ 31" using assms(3) by simp
  have "length scns_zero = 120" by (simp add: scns_zero_def)
  from coff_headers_ok [OF dt assms(2) oh nm pos _ this, of E] assms(4) Coff_payload
  have r: "read_coff_headers E f scns_zero =
      (Inr (Inr \<lparr>h_length = s_vaddr b + s_size b, h_entry = o_entry o1\<rparr>),
       f\<lparr>f_pos := f_pos f + 168 + length extra\<rparr>, scns_image t d b)" by simp
  note sc = scn_scns_image [OF nm]
  show ?thesis
    by (rule that [of "Coff_handle \<lparr>h_length = s_vaddr b + s_size b, h_entry = o_entry o1\<rparr>" _ "scns_image t d b"])
      (simp_all add: Coff_payload ld_read_headers_def r get_coff_entry_def get_coff_va_def get_coff_length_def
        coff_plan_def Let_def sc)
next
  case (Elf_payload eh phs)
  obtain gap rest where d: "drop (f_pos f) (f_data f) = Ehdr_image eh @ gap @ concat (map Phdr_image phs) @ rest"
    and off: "unat (e_phoff eh) = 52 + length gap"
    and id: "length (e_ident eh) = 16" "take 4 (e_ident eh) = ELFMAG" "e_ident eh ! EI_CLASS = ELFCLASS32"
      "e_ehsize eh = 52" "e_phentsize eh = 32" "unat (e_phnum eh) = length phs" "loads phs \<noteq> []"
      "\<forall>ph \<in> set (loads phs). regular ph"
    using assms(1) Elf_payload by auto
  have "length (drop (f_pos f) (f_data f)) = 52 + length gap + 32 * length phs + length rest"
    unfolding d using id(1) by (simp add: length_phdr_images)
  then have pos: "f_pos f + 52 + length gap < 2 ^ 31" using assms(3) by simp
  have mk: "malloc_ok E (48 + 32 * ucast (e_phnum eh))" using assms(4) Elf_payload by simp
  obtain bg en where r: "read_elf_headers E f () = (Inr (Inr \<lparr>eh_va = bg, eh_length = en - bg,
      eh_entry = e_entry eh, eh_phnum = ucast (e_phnum eh), eh_phdr = phs\<rparr>),
      f\<lparr>f_pos := f_pos f + 52 + length gap + 32 * length phs\<rparr>, ())"
    using elf_headers_ok [OF d assms(2) id(1-6) off pos mk id(8,7), of "()"] by blast
  show ?thesis
    by (rule that [of "Elf_handle \<lparr>eh_va = bg, eh_length = en - bg, eh_entry = e_entry eh,
          eh_phnum = ucast (e_phnum eh), eh_phdr = phs\<rparr>"])
      (use elf_headers_scan(1) [OF r] in \<open>simp_all add: Elf_payload ld_read_headers_def r get_elf_entry_def
        get_elf_va_def get_elf_length_def elf_plan_def unat_ucast_u16 id(6)\<close>)
qed

section \<open>Carrying out the plan\<close>

lemma payload_offset:
  assumes "q \<le> length data" "length data < 2 ^ 31" "unat (fo :: u32) + n \<le> length (drop q data)"
  shows "unat (of_nat q + fo) = q + unat fo"
  using assms by (simp add: unat_word_ariths unat_of_nat)

lemma copy_deliverable:
  assumes "length (f_data f) < 2 ^ 31" "f_bad f = []" "q \<le> length (f_data f)"
    and "unat fo + unat n \<le> length (drop q (f_data f))"
  shows "deliverable f (of_nat q) (Copy fo a n)"
proof -
  have "q + unat fo + unat n \<le> length (f_data f)" using assms(3,4) unfolding length_drop by linarith
  then show ?thesis
    using payload_offset [OF assms(3,1,4)] assms(1,2) by (simp add: readable_def)
qed

lemma payload_deliverable:
  assumes "payload_file (drop q (f_data f)) P" "f_bad f = []" "length (f_data f) < 2 ^ 31" "q \<le> length (f_data f)"
    and "y \<in> set (payload_plan P)"
  shows "deliverable f (of_nat q) y"
proof -
  note dl = copy_deliverable [OF assms(3,2,4)]
  have ok: "\<forall>s \<in> set (payload_segments P). segment_ok (drop q (f_data f)) s"
    using assms(1) by (simp add: payload_file_def)
  show ?thesis
  proof (cases P)
    case (Coff_payload c o1 t d b)
    then show ?thesis
      using assms(5) ok dl by (auto simp: segment_ok_def even_word_align)
  next
    case (Elf_payload eh phs)
    then show ?thesis
      using assms(5) ok dl by (auto simp: segment_ok_def segment_plan_def even_word_align split: if_splits)
  qed
qed

text \<open>The cleared range is the word-aligned rest of the segment.\<close>

lemma landed_zeros:
  assumes "landed data off m (Zero a (n + (n AND 1)))" "unat n \<le> 2 ^ 32 - 4096" "k < unat n"
  shows "m (a + of_nat k) = 0"
proof -
  let ?n = "unat (n + (n AND 1))"
  have k: "k < ?n" using assms(2,3) by (simp add: unat_word_ariths unat_and_one)
  have "load_bytes m a ?n ! k = 0" using assms(1) k by simp
  then show ?thesis using k by (simp add: load_bytes_def)
qed

lemma landed_copy:
  assumes "landed data (of_nat q) m (Copy fo a n)" "q \<le> length data" "length data < 2 ^ 31"
    and "unat fo + unat n \<le> length (drop q data)"
  shows "load_bytes m a (unat n) = take (unat n) (drop (unat fo) (drop q data))"
  using assms(1) payload_offset [OF assms(2-4)] by (simp add: add.commute)

lemma segment_landed:
  assumes "segment_ok (drop q data) s" "q \<le> length data" "length data < 2 ^ 31"
    and "sg_filesz s \<noteq> 0 \<Longrightarrow> landed data (of_nat q) m (Copy (sg_offset s) (sg_vaddr s) (sg_filesz s))"
    and "sg_filesz s < sg_memsz s \<Longrightarrow> landed data (of_nat q) m (Zero (sg_vaddr s + sg_filesz s)
      (sg_memsz s - sg_filesz s + ((sg_memsz s - sg_filesz s) AND 1)))"
  shows "segment_in (drop q data) m s"
  unfolding segment_in_def
proof (intro conjI allI impI)
  show "load_bytes m (sg_vaddr s) (unat (sg_filesz s)) =
      take (unat (sg_filesz s)) (drop (unat (sg_offset s)) (drop q data))"
  proof (cases "sg_filesz s = 0")
    case False
    then show ?thesis using landed_copy [OF assms(4)] assms(1-3) by (simp add: segment_ok_def)
  qed (simp add: load_bytes_def)
next
  fix k assume k: "unat (sg_filesz s) \<le> k" "k < unat (sg_memsz s)"
  let ?n = "sg_memsz s - sg_filesz s"
  have lt: "sg_filesz s < sg_memsz s" using k by (simp add: word_less_nat_alt)
  then have n: "unat ?n = unat (sg_memsz s) - unat (sg_filesz s)"
    by (simp add: unat_sub_if' word_less_nat_alt)
  have "unat (sg_memsz s) \<le> 2 ^ 32 - 4096" using assms(1) unfolding segment_ok_def by linarith
  then have "unat ?n \<le> 2 ^ 32 - 4096" "k - unat (sg_filesz s) < unat ?n" using n k by linarith+
  from landed_zeros [OF assms(5) [OF lt] this]
  have "m (sg_vaddr s + sg_filesz s + of_nat (k - unat (sg_filesz s))) = 0" .
  then show "m (sg_vaddr s + of_nat k) = 0" using k(1) by (simp add: of_nat_diff)
qed

lemma payload_landed:
  assumes "payload_file (drop q data) P" "q \<le> length data" "length data < 2 ^ 31"
    and "\<forall>y \<in> set (payload_plan P). landed data (of_nat q) m y" "s \<in> set (payload_segments P)"
  shows "segment_in (drop q data) m s"
proof (rule segment_landed [OF _ assms(2,3)])
  show "segment_ok (drop q data) s" using assms(1,5) by (simp add: payload_file_def)
  show "landed data (of_nat q) m (Copy (sg_offset s) (sg_vaddr s) (sg_filesz s))" if "sg_filesz s \<noteq> 0"
  proof (cases P)
    case (Coff_payload c o1 t d b)
    then show ?thesis using assms(4,5) that by auto
  next
    case (Elf_payload eh phs)
    then obtain ph where ph: "ph \<in> set (loads phs)" "s = phdr_segment ph" using assms(5) by auto
    then have "Copy (p_offset ph) (p_vaddr ph) (p_filesz ph) \<in> set (payload_plan P)"
      unfolding Elf_payload by (auto simp: segment_plan_def)
    then show ?thesis using assms(4) ph(2) by (metis segment_fields(1-3))
  qed
  show "landed data (of_nat q) m (Zero (sg_vaddr s + sg_filesz s)
      (sg_memsz s - sg_filesz s + ((sg_memsz s - sg_filesz s) AND 1)))" if lt: "sg_filesz s < sg_memsz s"
  proof (cases P)
    case (Coff_payload c o1 t d b)
    then show ?thesis using assms(4,5) lt by auto
  next
    case (Elf_payload eh phs)
    then obtain ph where ph: "ph \<in> set (loads phs)" "s = phdr_segment ph" using assms(5) by auto
    then have "Zero (p_vaddr ph + p_filesz ph) (p_memsz ph - p_filesz ph + ((p_memsz ph - p_filesz ph) AND 1))
        \<in> set (payload_plan P)"
      using lt unfolding Elf_payload by (auto simp: segment_plan_def)
    then show ?thesis using assms(4) ph(2) by (metis segment_fields(2-4))
  qed
qed

section \<open>The segments inside the block\<close>

lemma payload_span:
  assumes "payload_file d P" "payload_range P = (va, va + n)" "s \<in> set (payload_segments P)" "k < unat (sg_memsz s)"
  shows "unat (sg_vaddr s + of_nat k - va) < unat n" "unat n \<le> 2 ^ 32 - 4096"
proof -
  have ok: "\<forall>s \<in> set (payload_segments P). segment_ok d s" using assms(1) by (simp add: payload_file_def)
  have below: "unat va \<le> unat (sg_vaddr s) \<and> unat (sg_vaddr s) + unat (sg_memsz s) \<le> unat (va + n) \<and>
      unat (va + n) \<le> 2 ^ 32 - 4096"
  proof (cases P)
    case (Coff_payload c o1 t e b)
    have "segment_ok d (bss_segment b)" using ok Coff_payload by simp
    then have b: "unat (s_vaddr b) + unat (s_size b) \<le> 2 ^ 32 - 4096" by (simp add: segment_ok_def)
    then have "unat (s_vaddr b + s_size b) = unat (s_vaddr b) + unat (s_size b)" by (simp add: unat_word_ariths)
    then show ?thesis
      using assms(1-3) b unfolding Coff_payload by (auto simp: payload_file_def)
  next
    case (Elf_payload eh phs)
    obtain ph where ph: "ph \<in> set (loads phs)" "s = phdr_segment ph" using assms(3) Elf_payload by auto
    have reg: "\<forall>p \<in> set (loads phs). regular p" using assms(1) Elf_payload by (auto simp: payload_file_def)
    have ne: "loads phs \<noteq> []" using ph(1) by auto
    obtain bg en where s: "scan_phdrs phs 0 0 = Some (bg, en)"
      "unat bg = Min (seg_start ` set (loads phs))" "unat en = Max (seg_end ` set (loads phs))"
      using scan_phdrs_range [OF reg ne] by blast
    have e: "bg = va" "en = va + n" using s(1) assms(2) Elf_payload by simp_all
    have top: "\<forall>p \<in> set (loads phs). seg_end p \<le> 2 ^ 32 - 4096"
      using ok Elf_payload by (auto simp: segment_ok_def seg_end_def)
    have "seg_end ` set (loads phs) \<noteq> {}" using ph(1) by auto
    then have "Max (seg_end ` set (loads phs)) \<le> 2 ^ 32 - 4096"
      using top Max_le_iff [of "seg_end ` set (loads phs)"] by simp
    moreover have "Min (seg_start ` set (loads phs)) \<le> seg_start ph" "seg_end ph \<le> Max (seg_end ` set (loads phs))"
      using ph(1) by simp_all
    ultimately show ?thesis using s(2,3) ph(2) e by (simp add: seg_start_def seg_end_def)
  qed
  have x: "unat (sg_vaddr s + of_nat k) = unat (sg_vaddr s) + k"
    using below assms(4) by (simp add: unat_word_ariths unat_of_nat)
  have n: "unat n = unat (va + n) - unat va"
    using below assms(4) unat_sub_if' [of "va + n" va] by simp
  have "unat (sg_vaddr s + of_nat k - va) = unat (sg_vaddr s) + k - unat va"
    using below by (simp add: unat_sub_if' x)
  then show "unat (sg_vaddr s + of_nat k - va) < unat n" using below assms(4) n by linarith
  show "unat n \<le> 2 ^ 32 - 4096" using below n by linarith
qed

text \<open>Linear addresses in the client's block do not wrap around below its first byte.\<close>

lemma block_address:
  assumes "unat (x - va) < unat (n :: u32)" "unat n \<le> 2 ^ 32 - 4096"
    and "unat a + unat (PAGE_ALIGN (if 0x10000 < n then n else 0x10000)) \<le> 2 ^ 32"
  shows "unat a \<le> unat (a - va + x :: u32)"
proof -
  let ?s = "if 0x10000 < n then n else 0x10000 :: u32"
  have "unat ?s \<le> unat (PAGE_ALIGN ?s)" using assms(2) by (intro PAGE_ALIGN_ge) simp
  then have "unat n \<le> unat (PAGE_ALIGN ?s)" by (simp add: word_less_nat_alt split: if_splits)
  then have "unat a + unat (x - va) < 2 ^ 32" using assms(1,3) by linarith
  then have "unat (a + (x - va)) = unat a + unat (x - va)" by (simp add: unat_word_ariths)
  moreover have "a - va + x = a + (x - va)" by simp
  ultimately show ?thesis by (simp only: le_add1)
qed

text \<open>A found payload can be read, all its pieces delivered, and its segments follow from them.\<close>

lemma payload_ready:
  assumes fi: "hs_file s = f\<lparr>f_pos := q\<rparr>" "hs_coffset s = of_nat q"
    and pf: "payload_file (drop q (f_data f)) P" "f_bad f = []" "length (f_data f) < 2 ^ 31" "q \<le> length (f_data f)"
    and mk: "malloc_ok E (payload_heap P)"
  obtains h f1 a where "ld_read_headers E (payload_ops P) (hs_file s) scns_zero = (Inr (Inr h), f1, a)"
    "ld_entry h = payload_entry P"
    "\<forall>y \<in> set (ld_plan h a). deliverable (hs_file s) (hs_coffset s) y" "sorted_wrt spares (ld_plan h a)"
    "\<forall>m. (\<forall>y \<in> set (ld_plan h a). landed (f_data (hs_file s)) (hs_coffset s) m y) \<longrightarrow>
      (\<forall>x \<in> set (payload_segments P). segment_in (drop q (f_data f)) m x)"
    "payload_range P = (ld_va h, ld_va h + ld_length h)"
proof -
  have g: "payload_file (drop q (f_data (hs_file s))) P" "f_bad (hs_file s) = []"
    "length (f_data (hs_file s)) < 2 ^ 31" "q \<le> length (f_data (hs_file s))" "f_pos (hs_file s) = q"
    using pf fi(1) by simp_all
  have "payload_headers (drop (f_pos (hs_file s)) (f_data (hs_file s))) P"
    using g(1,5) by (simp add: payload_file_def)
  from payload_read [OF this g(2,3) mk]
  obtain h f1 a where h: "ld_read_headers E (payload_ops P) (hs_file s) scns_zero = (Inr (Inr h), f1, a)"
    "ld_entry h = payload_entry P" "ld_plan h a = payload_plan P"
    "payload_range P = (ld_va h, ld_va h + ld_length h)" .
  show ?thesis
  proof (rule that [OF h(1,2) _ _ _ h(4)])
    show "\<forall>y \<in> set (ld_plan h a). deliverable (hs_file s) (hs_coffset s) y"
      using payload_deliverable [OF g(1-4)] by (simp add: h(3) fi(2))
    show "sorted_wrt spares (ld_plan h a)" using pf(1) by (simp add: payload_file_def h(3))
    show "\<forall>m. (\<forall>y \<in> set (ld_plan h a). landed (f_data (hs_file s)) (hs_coffset s) m y) \<longrightarrow>
        (\<forall>x \<in> set (payload_segments P). segment_in (drop q (f_data f)) m x)"
      using payload_landed [OF g(1,4,3)] by (simp add: h(3) fi)
  qed
qed

end
