(* ===== verification/Enter.thy ===== *)
theory Enter
  imports Stub
begin

text \<open>
  What entering the DPMI host leaves of the program: the documented effects of the calls from the probe to the
  mode switch (\<open>entry_host\<close>), the move of the host's private memory pool, which stays in the first megabyte, and
  from there the machine at the jump to the client.
\<close>

section \<open>The host while it is entered\<close>

text \<open>
  A call that may rewrite conventional memory (the control blocks of DOS, the data of the BIOS) but not the
  statics of the program, its segments or the blocks it was given above 1 MB and 64 KB.
\<close>

definition low_only :: "'h view \<Rightarrow> 'h world \<Rightarrow> 'h world \<Rightarrow> bool" where
  "low_only D w v \<longleftrightarrow> own v = own w \<and> seg_ds v = seg_ds w \<and> D (host v) = D (host w) \<and>
     (\<forall>x. 0x110000 \<le> unat x \<longrightarrow> lin v x = lin w x)"

text \<open>The real-mode services the program uses: 1687h and 168Ah of interrupt 2Fh, DOS resizing and freeing a block.\<close>

definition real_law :: "'h env \<Rightarrow> 'h view \<Rightarrow> bool" where
  "real_law E D \<longleftrightarrow>
     (\<forall>w. eax w = 0x1687 \<or> eax w = 0x168a \<longrightarrow> low_only D w (int_call E 0x2f w)) \<and>
     (\<forall>r w. r_eax r = 0x4a00 \<or> r_eax r = 0x4900 \<longrightarrow> low_only D w (snd (dpmi_int E 0x21 r w)))"

text \<open>
  The mode switch, a far call to the address a successful probe returned. When it reports success the
  descriptors made so far still exist next to new ones (for the PSP and the program's segments), and \<open>ds\<close>,
  possibly another selector now, still addresses the same segment.
\<close>

definition switch_law :: "'h env \<Rightarrow> 'h view \<Rightarrow> bool" where
  "switch_law E D \<longleftrightarrow> (\<forall>u w. eax u = 0x1687 \<longrightarrow> \<not> cf (int_call E 0x2f u) \<longrightarrow>
     (let v = int_call E 0x2f u; x = far_call E (seg_es v) (edi v) w in \<not> cf x \<longrightarrow>
        own x = own w \<and> (\<forall>y. 0x110000 \<le> unat y \<longrightarrow> lin x y = lin w y) \<and>
        map_le (D (host w)) (D (host x)) \<and>
        (\<forall>d. D (host w) (seg_ds w) = Some d \<longrightarrow>
          (\<exists>e. D (host x) (seg_ds x) = Some e \<and> d_base e = d_base d))))"

text \<open>
  The private pool of the host has at most 640 KB; DOS resizes a block only within the first megabyte; blocks
  of linear memory lie above what real mode can address.
\<close>

definition pool_law :: "'h env \<Rightarrow> bool" where
  "pool_law E \<longleftrightarrow> (\<forall>w. eax w = 0x1687 \<longrightarrow>
     (let v = int_call E 0x2f w in cf v \<or> unat (esi v) \<le> 0xA000))"

definition resize_law :: "'h env \<Rightarrow> bool" where
  "resize_law E \<longleftrightarrow> (\<forall>r w. r_eax r = 0x4a00 \<longrightarrow> r_flags (fst (dpmi_int E 0x21 r w)) AND 1 = 0 \<longrightarrow>
     unat (r_es r) + unat (lo16 (r_ebx r)) \<le> 0x10000)"

definition high_law :: "'h env \<Rightarrow> bool" where
  "high_law E \<longleftrightarrow> (\<forall>w. eax w = 0x501 \<longrightarrow>
     (let v = int_call E 0x31 w in cf v \<or> 0x110000 \<le> unat (pair32 (lo16 (ebx v)) (lo16 (ecx v)))))"

definition entry_host :: "'h env \<Rightarrow> 'h view \<Rightarrow> bool" where
  "entry_host E D \<longleftrightarrow> real_law E D \<and> switch_law E D \<and> pool_law E \<and> resize_law E \<and> high_law E"

text \<open>
  What entering the host changes: the register block, the PSP selector and conventional memory; descriptors
  are only added, and \<open>ds\<close> keeps its base.
\<close>

definition init_frame :: "'h env \<Rightarrow> 'h view \<Rightarrow> 'h world \<Rightarrow> 'h world \<Rightarrow> bool" where
  "init_frame E D w v \<longleftrightarrow> (\<forall>x. 0x110000 \<le> unat x \<longrightarrow> lin v x = lin w x) \<and>
     map_le (D (host w)) (D (host v)) \<and>
     (\<forall>d. D (host w) (seg_ds w) = Some d \<longrightarrow>
       (\<exists>e. D (host v) (seg_ds v) = Some e \<and> d_base e = d_base d)) \<and>
     (\<forall>x. \<not> in_region x (local_slot2 E) 50 \<longrightarrow> \<not> in_region x (addr_psp_sel E) 2 \<longrightarrow> own v x = own w x)"

text \<open>Before the switch, the descriptors and \<open>ds\<close> are the same as well.\<close>

definition init_stays :: "'h env \<Rightarrow> 'h view \<Rightarrow> 'h world \<Rightarrow> 'h world \<Rightarrow> bool" where
  "init_stays E D w v \<longleftrightarrow> init_frame E D w v \<and> D (host v) = D (host w) \<and> seg_ds v = seg_ds w"

lemma init_frame_trans:
  assumes "init_frame E D u v" "init_frame E D v w"
  shows "init_frame E D u w"
  using assms map_le_trans [of "D (host u)" "D (host v)" "D (host w)"] by (fastforce simp: init_frame_def)

lemma init_stays_frame: "init_stays E D w v \<Longrightarrow> init_frame E D w v"
  by (simp add: init_stays_def)

lemma init_stays_trans: "init_stays E D u v \<Longrightarrow> init_stays E D v w \<Longrightarrow> init_stays E D u w"
  using init_frame_trans unfolding init_stays_def by metis

lemma low_only_stays: "low_only D w v \<Longrightarrow> init_stays E D w v"
  by (simp add: low_only_def init_stays_def init_frame_def)

lemma dpmi_int_stays:
  assumes "entry_host E D" "dpmi_int E 0x21 r w = (s, v)" "r_eax r = 0x4a00 \<or> r_eax r = 0x4900"
  shows "init_stays E D w v"
proof -
  have "low_only D w (snd (dpmi_int E 0x21 r w))"
    using assms(1,3) by (auto simp: entry_host_def real_law_def)
  then show ?thesis using assms(2) by (simp add: low_only_stays)
qed

lemma shrink_low_entry:
  assumes "entry_host E D" "shrink_low E para w = Inr v"
  shows "init_stays E D w v"
    "unat (ucast (drop_bit 4 (dpmi_psp E)) :: u16) + unat (lo16 (0x10 + ucast para)) \<le> 0x10000"
proof -
  let ?r = "regs_zero\<lparr>r_eax := 0x4a00, r_ebx := 0x10 + ucast para, r_es := ucast (drop_bit 4 (dpmi_psp E))\<rparr>"
  obtain s where s: "dpmi_int E 0x21 ?r w = (s, v)" "r_flags s AND 1 = 0"
    using assms(2) by (auto simp: shrink_low_def split: if_splits prod.splits)
  show "init_stays E D w v" using dpmi_int_stays [OF assms(1) s(1)] by simp
  have "resize_law E" using assms(1) by (simp add: entry_host_def)
  from this [unfolded resize_law_def, rule_format, of ?r w]
  show "unat (ucast (drop_bit 4 (dpmi_psp E)) :: u16) + unat (lo16 (0x10 + ucast para)) \<le> 0x10000"
    using s by simp
qed

lemma free_low_entry: "entry_host E D \<Longrightarrow> free_low E sg w = Inr v \<Longrightarrow> init_stays E D w v"
  by (auto simp: free_low_def split: if_splits prod.splits intro: dpmi_int_stays)

lemma probe_entry:
  assumes "entry_host E D"
  shows "init_stays E D w (probed E w)" "cf (probe_reply E w) \<or> unat (esi (probe_reply E w)) \<le> 0xA000"
proof -
  let ?p = "local_slot2 E"
  let ?o = "store_regs (own w) ?p (regs_zero\<lparr>r_eax := 0x1687, r_ebx := 0x1000\<rparr>)"
  let ?u = "int2f_entry ?p (w\<lparr>own := ?o\<rparr>)"
  have u: "own ?u = ?o" "lin ?u = lin w" "host ?u = host w" "seg_ds ?u = seg_ds w"
    by (simp_all add: int2f_entry_def Let_def)
  have eax: "eax ?u = 0x1687" by (rule probe_eax)
  then show "cf (probe_reply E w) \<or> unat (esi (probe_reply E w)) \<le> 0xA000"
    using assms by (simp add: entry_host_def probe_reply_def pool_law_def Let_def)
  have k: "low_only D ?u (probe_reply E w)"
    using assms eax by (simp add: entry_host_def real_law_def probe_reply_def)
  have "own (probed E w) x = own w x" if "\<not> in_region x ?p 50" for x
    using k u int2f_exit_outside [OF that, of "probe_reply E w"] that
    by (simp add: probed_def Let_def low_only_def store_regs_def store_bytes_outside)
  then show "init_stays E D w (probed E w)"
    using k u by (simp add: probed_def Let_def low_only_def init_stays_def init_frame_def)
qed

lemma switched_entry:
  assumes "entry_host E D" "\<not> cf (probe_reply E w)" "\<not> cf (switched E para (probe_reply E w) u)"
  shows "init_frame E D u (switch_done E (switched E para (probe_reply E w) u) u)"
proof -
  let ?q = "int2f_entry (local_slot2 E)
    (w\<lparr>own := store_regs (own w) (local_slot2 E) (regs_zero\<lparr>r_eax := 0x1687, r_ebx := 0x1000\<rparr>)\<rparr>)"
  have sl: "switch_law E D" "eax ?q = 0x1687" using assms(1) by (simp add: entry_host_def) (rule probe_eax)
  let ?u = "u\<lparr>eax := 1 OR (if esi (probe_reply E w) \<noteq> 0 then 0x1000 else 0), ebx := pool_seg E para\<rparr>"
  let ?x = "switched E para (probe_reply E w) u"
  have x: "?x = far_call E (seg_es (probe_reply E w)) (edi (probe_reply E w)) ?u" by (simp only: switched_def)
  have "own ?x = own ?u \<and> (\<forall>y. 0x110000 \<le> unat y \<longrightarrow> lin ?x y = lin ?u y) \<and>
      map_le (D (host ?u)) (D (host ?x)) \<and> (\<forall>d. D (host ?u) (seg_ds ?u) = Some d \<longrightarrow>
        (\<exists>e. D (host ?x) (seg_ds ?x) = Some e \<and> d_base e = d_base d))"
    using sl(1) [unfolded switch_law_def Let_def, rule_format, OF sl(2), of ?u] assms(2,3)
    unfolding probe_reply_def [symmetric] x by blast
  then show ?thesis
    by (simp add: switch_done_def init_frame_def store16_def store_bytes_outside)
qed

section \<open>The pool\<close>

lemma unat_paragraphs: "unat (x :: u32) \<le> 0x10000 \<Longrightarrow> unat (push_bit 4 x) = 16 * unat x"
  by (simp add: push_bit_eq_mult unat_word_ariths)

text \<open>The block was resized to hold the pool behind what the program keeps, so the copy ends in it.\<close>

lemma pool_moved_low:
  assumes "unat (dpmi_psp E) < 2 ^ 20" "unat para \<le> 0x4000" "unat (esi v) \<le> 0xA000"
    and "unat (ucast (drop_bit 4 (dpmi_psp E)) :: u16) +
      unat (lo16 (0x10 + ucast (ucast (ucast para + esi v) :: u16))) \<le> 0x10000"
    and "0x100000 \<le> unat x"
  shows "lin (pool_moved E para v w) x = lin w x"
proof -
  let ?s = "drop_bit 4 (dpmi_psp E)" and ?n = "esi v" and ?g = "pool_seg E para"
  have psp: "unat ?s < 2 ^ 16" using assms(1) by (simp add: drop_bit_eq_div unat_div)
  then have s16: "unat (ucast ?s :: u16) = unat ?s" by (simp add: unat_ucast_less)
  have pn: "unat (ucast para + ?n) = unat para + unat ?n"
    using assms(2,3) by (simp add: unat_word_ariths unat_ucast_u16)
  then have "unat (ucast (ucast para + ?n) :: u16) = unat para + unat ?n"
    using assms(2,3) by (simp add: unat_ucast_less)
  then have "unat (0x10 + ucast (ucast (ucast para + ?n) :: u16) :: u32) = 0x10 + unat para + unat ?n"
    using assms(2,3) by (simp add: unat_word_ariths unat_ucast_u16)
  then have "unat (lo16 (0x10 + ucast (ucast (ucast para + ?n) :: u16))) = 0x10 + unat para + unat ?n"
    using assms(2,3) by (simp add: lo16_def unat_ucast_less)
  then have fits: "unat ?s + 0x10 + unat para + unat ?n \<le> 0x10000"
    using assms(4) s16 by simp
  have g: "unat ?g = unat ?s + 0x10 + unat para" if "0 < unat ?n"
  proof -
    have a: "unat (?s + 0x10) = unat ?s + 0x10" using psp by (simp add: unat_word_ariths)
    then have "unat (get_low_pool E) = unat ?s + 0x10"
      using fits that by (simp add: get_low_pool_def unat_ucast_less)
    then show ?thesis using fits by (simp add: pool_seg_def unat_word_ariths unat_ucast_u16)
  qed
  show ?thesis
  proof (cases "?n = 0")
    case False
    then have n: "0 < unat ?n" by (simp add: unat_gt_0)
    have "unat ?g \<le> 0x10000" "unat ?n \<le> 0x10000" using fits g [OF n] by linarith+
    then have "unat (push_bit 4 ?g) = 16 * unat ?g" "unat (push_bit 4 ?n) = 16 * unat ?n"
      by (simp_all only: unat_paragraphs)
    then have "unat (push_bit 4 ?g) + unat (push_bit 4 ?n) \<le> 0x100000"
      using fits g [OF n] by simp
    then have "\<not> in_region x (push_bit 4 ?g) (unat (push_bit 4 ?n))"
      using assms(5) by (simp add: in_region_unat)
    then show ?thesis using False by (simp add: pool_moved_def memmove_low_def store_bytes_outside)
  qed (simp add: pool_moved_def)
qed

text \<open>The ways the host can refuse the program.\<close>

definition host_refusals :: "stop set" where
  "host_refusals = {Assert_failed} \<union> Exit_failure ` {Alloc_failed, Dpmi32_unavailable, Invalid_dpmi_server,
     Dpmi_init_failed, Realloc_failed, Free_failed}"

lemma host_refusals [simp]:
  "Assert_failed \<in> host_refusals" "Exit_failure Alloc_failed \<in> host_refusals"
  "Exit_failure Dpmi32_unavailable \<in> host_refusals" "Exit_failure Invalid_dpmi_server \<in> host_refusals"
  "Exit_failure Dpmi_init_failed \<in> host_refusals" "Exit_failure Realloc_failed \<in> host_refusals"
  "Exit_failure Free_failed \<in> host_refusals"
  by (simp_all add: host_refusals_def)

lemma shrink_low_refuses: "shrink_low E para w = Inl e \<Longrightarrow> e \<in> host_refusals"
  by (auto simp: shrink_low_def split: if_splits prod.splits)

lemma free_low_refuses: "free_low E sg w = Inl e \<Longrightarrow> e \<in> host_refusals"
  by (auto simp: free_low_def split: if_splits prod.splits)

lemma dpmi_init_refuses: "dpmi_init E para w = Inl e \<Longrightarrow> e \<in> host_refusals"
  unfolding dpmi_init_eq Let_def
  by (auto simp: bindR_Inl_iff split: if_splits dest: shrink_low_refuses free_low_refuses)

lemma dpmi_init_entry:
  assumes "entry_host E D" "unat (dpmi_psp E) < 2 ^ 20" "unat para \<le> 0x4000"
    and "dpmi_init E para w = Inr (rc, sel, u)"
  shows "init_frame E D w u" "rc \<noteq> 0 \<Longrightarrow> init_stays E D w u"
proof -
  let ?v = "probe_reply E w"
  have p: "init_stays E D w (probed E w)" and esi: "cf ?v \<or> unat (esi ?v) \<le> 0xA000"
    using probe_entry [OF assms(1)] .
  have "init_frame E D w u \<and> (rc \<noteq> 0 \<longrightarrow> init_stays E D w u)"
  proof (cases "cf ?v")
    case True
    then show ?thesis using assms(4) p unfolding dpmi_init_eq Let_def by (simp add: init_stays_frame)
  next
    case False
    obtain w3 where w3: "shrink_low E (ucast (ucast para + esi ?v)) (probed E w) = Inr w3"
      and run: "(let w4 = pool_moved E para ?v w3; x = switched E para ?v w4; w5 = switch_done E x w4 in
        if cf x then Inl (Exit_failure Dpmi_init_failed)
        else bindR (if esi ?v \<noteq> 0 then free_low E (ucast (eax ?v)) w5 else Inr w5)
          (\<lambda>w6. Inr (0, Some (load16 (own w6) (addr_psp_sel E)), w6))) = Inr (rc, sel, u)"
      using assms(4) False unfolding dpmi_init_eq Let_def by (auto simp: bindR_Inr_iff split: if_splits)
    define w4 where "w4 = pool_moved E para ?v w3"
    define w5 where "w5 = switch_done E (switched E para ?v w4) w4"
    have 3: "init_frame E D (probed E w) w3" using shrink_low_entry(1) [OF assms(1) w3] by (rule init_stays_frame)
    have "init_stays E D w3 w4"
      using pool_moved_low [OF assms(2,3) _ shrink_low_entry(2) [OF assms(1) w3]] esi False
      by (simp add: init_stays_def init_frame_def w4_def) (simp add: pool_moved_def memmove_low_def)
    then have 4: "init_frame E D w3 w4" by (rule init_stays_frame)
    have res: "\<not> cf (switched E para ?v w4)" "u = w5 \<or> free_low E (ucast (eax ?v)) w5 = Inr u" "rc = 0"
      using run unfolding Let_def w4_def [symmetric] w5_def [symmetric]
      by (auto simp: bindR_Inr_iff split: if_splits)
    have 5: "init_frame E D w4 w5" unfolding w5_def by (rule switched_entry [OF assms(1) False res(1)])
    have "init_frame E D w5 w5" by (simp add: init_frame_def)
    then have "init_frame E D w5 u" using res(2) free_low_entry [OF assms(1)] init_stays_frame by blast
    then show ?thesis using init_stays_frame [OF p] 3 4 5 init_frame_trans res(3) by meson
  qed
  then show "init_frame E D w u" "rc \<noteq> 0 \<Longrightarrow> init_stays E D w u" by simp_all
qed

text \<open>The client's block lies above the first megabyte.\<close>

lemma setup_client_high:
  assumes "entry_host E D" "linked E" "setup_client E va entry i w = Inr c"
  shows "0x110000 \<le> unat (cl_lin c)"
proof -
  have high: "0x110000 \<le> unat (load32 (own v) (local_slot2 E))"
    if "call_c E dpmi_allocate_memory [n, local_slot2 E, addr_stubinfo E + 0x18] u = (rc, v)" "rc \<noteq> - 1" for n u rc v
  proof -
    let ?u = "u\<lparr>eax := 0x501, ebx := ucast (hi16 n), ecx := ucast (lo16 n)\<rparr>"
    have ap: "apart (addr_stubinfo E + 0x18) 4 (local_slot2 E) 4"
      using assms(2) by (simp add: linked_def apart_sym)
    have "high_law E" using assms(1) by (simp add: entry_host_def)
    then show ?thesis
      using call_allocate_memory_stores [OF that refl] ap
      by (auto simp: load32_store_apart high_law_def Let_def dest!: spec [of _ ?u])
  qed
  show ?thesis
    using assms(3) unfolding setup_client_def Let_def by (auto split: prod.splits if_splits dest: high)
qed

section \<open>The PSP descriptor and the jump\<close>

text \<open>The linear address of the PSP; the low memory block starts 256 bytes further.\<close>

definition psp_base :: "'h env \<Rightarrow> u32" where
  "psp_base E = push_bit 4 (drop_bit 4 (dpmi_psp E))"

lemma low_pool_not_psp:
  assumes "unat (dpmi_psp E) < 2 ^ 20"
  shows "push_bit 4 (ucast (get_low_pool E)) \<noteq> psp_base E"
proof
  let ?s = "drop_bit 4 (dpmi_psp E)"
  assume eq: "push_bit 4 (ucast (get_low_pool E)) = psp_base E"
  have s: "unat ?s < 2 ^ 16" using assms by (simp add: drop_bit_eq_div unat_div)
  have g: "unat (ucast (get_low_pool E) :: u32) = (unat ?s + 0x10) mod 2 ^ 16"
    using s by (simp add: get_low_pool_def unat_ucast_u16) (simp add: unat_word_ariths unsigned_ucast_eq take_bit_eq_mod)
  have "unat (ucast (get_low_pool E) :: u32) \<le> 0x10000" "unat ?s \<le> 0x10000" using s g by simp_all
  note p = this [THEN unat_paragraphs]
  have "16 * unat (ucast (get_low_pool E) :: u32) = 16 * unat ?s"
    using arg_cong [OF eq, of unat] p by (simp add: psp_base_def)
  then show False using g s by (simp add: mod_if split: if_splits)
qed

lemma alloc_psp_keeps:
  assumes "dpmi_host E D N" "card (dom (D (host w))) < N" "unat (dpmi_psp E) < 2 ^ 20"
    and "alloc_psp E w = (sel, v)"
  shows "own v = own w \<and> lin v = lin w \<and> same_segs w v \<and> keeps_desc (psp_base E) (D (host w)) (D (host v))"
proof -
  let ?x = "drop_bit 4 (dpmi_psp E)"
  have "unat ?x < 2 ^ 16" using assms(3) by (simp add: drop_bit_eq_div unat_div)
  then have "unat (take_bit 16 ?x) = unat ?x"
    by (simp only: unsigned_take_bit_eq take_bit_nat_eq_self)
  then have "take_bit 16 ?x = ?x" by (simp only: word_unat_eq_iff)
  moreover have "ucast (ucast ?x :: u16) = take_bit 16 ?x" by (rule bit_word_eqI) (auto simp: bit_simps)
  moreover define sg :: u16 where "sg = ucast ?x"
  ultimately have seg: "?x = ucast sg" by simp
  obtain rc w1 where 1: "call_c E dpmi_segment_to_descriptor [drop_bit 4 (dpmi_psp E)] w = (rc, w1)"
    by fastforce
  obtain rc2 w2 where 2: "call_c E dpmi_set_segment_limit [ucast (lo16 rc), 0xff] w1 = (rc2, w2)"
    by fastforce
  have v: "v = w2" using assms(4) 1 2 by (simp add: alloc_psp_def)
  obtain d where e1: "own w1 = own w" "lin w1 = lin w" "same_segs w w1" "d_real d" "d_base d = psp_base E"
    "D (host w1) (lo16 rc) = Some d"
    "D (host w) (lo16 rc) = None \<and> D (host w1) = (D (host w))(lo16 rc \<mapsto> d) \<or> D (host w1) = D (host w)"
    using call_segment_to_descriptor [OF assms(1,2) 1 [unfolded seg]] unfolding psp_base_def seg by blast
  have e2: "own w2 = own w1" "lin w2 = lin w1" "same_segs w1 w2"
    "D (host w2) = (D (host w1))(lo16 rc \<mapsto> with_limit 0xff d)"
    using call_set_limit [OF assms(1) e1(6) _ 2] by simp_all
  have "keeps_desc (psp_base E) (D (host w)) (D (host w1))"
    using e1(7) keeps_desc_new [of "D (host w)" "lo16 rc" _ d] by auto
  moreover have "keeps_desc (psp_base E) (D (host w1)) (D (host w2))"
    unfolding e2(4) by (rule keeps_desc_new) (use e1(4-6) in simp)
  ultimately show ?thesis
    using e1(1-3) e2(1-3) v keeps_desc_trans same_segs_trans by metis
qed

text \<open>The linker keeps the entry point apart from what loading and entering the host write.\<close>

definition entry_apart :: "'h env \<Rightarrow> bool" where
  "entry_apart E \<longleftrightarrow> apart (local_slot2 E) 50 (addr_clnt_entry E) 6 \<and>
     apart (addr_psp_sel E) 2 (addr_clnt_entry E) 6 \<and> apart (addr_stubinfo E) 0xA4 (addr_clnt_entry E) 6 \<and>
     apart (local_slot E) 4 (addr_clnt_entry E) 6"

lemma entry_cong:
  assumes "\<forall>x. in_region x (addr_clnt_entry E) 6 \<longrightarrow> m' x = m x"
  shows "load32 m' (addr_clnt_entry E) = load32 m (addr_clnt_entry E)"
    "load16 m' (addr_clnt_entry E + 4) = load16 m (addr_clnt_entry E + 4)"
proof -
  let ?e = "addr_clnt_entry E"
  have k: "load_bytes m' (?e + of_nat k) j = load_bytes m (?e + of_nat k) j" if "k + j \<le> 6" for k j
    using that assms by (intro load_bytes_cong) (auto dest: in_region_sub [where m = 6])
  show "load32 m' ?e = load32 m ?e" using k [of 0 4] by (simp add: load32_def)
  show "load16 m' (?e + 4) = load16 m (?e + 4)" using k [of 4 2] by (simp add: load16_def)
qed

lemma entry_kept:
  assumes "entry_apart E" "\<forall>x. \<not> in_region x (local_slot2 E) 50 \<longrightarrow> \<not> in_region x (addr_psp_sel E) 2 \<longrightarrow> m x = o1 x"
    and "length bs = 0xA4"
  shows "load32 (store_bytes m (addr_stubinfo E) bs) (addr_clnt_entry E) = load32 o1 (addr_clnt_entry E)"
    "load16 (store_bytes m (addr_stubinfo E) bs) (addr_clnt_entry E + 4) = load16 o1 (addr_clnt_entry E + 4)"
proof -
  have "store_bytes m (addr_stubinfo E) bs x = o1 x" if "in_region x (addr_clnt_entry E) 6" for x
    using assms apart_not_in [OF _ that] by (simp add: entry_apart_def store_bytes_outside)
  then show "load32 (store_bytes m (addr_stubinfo E) bs) (addr_clnt_entry E) = load32 o1 (addr_clnt_entry E)"
    "load16 (store_bytes m (addr_stubinfo E) bs) (addr_clnt_entry E + 4) = load16 o1 (addr_clnt_entry E + 4)"
    using entry_cong by blast+
qed

lemma entry_loaded:
  assumes "entry_apart E" "far_effect E w v"
  shows "load32 (own v) (addr_clnt_entry E) = load32 (own w) (addr_clnt_entry E)"
    "load16 (own v) (addr_clnt_entry E + 4) = load16 (own w) (addr_clnt_entry E + 4)"
proof -
  have "own v x = own w x" if "in_region x (addr_clnt_entry E) 6" for x
    using assms apart_not_in [OF _ that] by (simp add: entry_apart_def far_effect_def)
  then show "load32 (own v) (addr_clnt_entry E) = load32 (own w) (addr_clnt_entry E)"
    "load16 (own v) (addr_clnt_entry E + 4) = load16 (own w) (addr_clnt_entry E + 4)"
    using entry_cong by blast+
qed

lemma enter_client_entry:
  assumes "dpmi_host E D N" "entry_host E D" "card (dom (D (host w))) < N" "unat (dpmi_psp E) < 2 ^ 20"
    and "entry_apart E" "info_inv (cl_info c)" "minkeep (cl_info c) = 0x4000"
    and "D (host w) (seg_ds w) = Some dd" "\<not> d_real dd"
  shows "(\<exists>e \<in> host_refusals. enter_client E c s f w = Inl e) \<or>
    (\<exists>l. enter_client E c s f w = Inr l \<and>
      leave_to (la_mach l) = Some (load16 (own w) (addr_clnt_entry E + 4), load32 (own w) (addr_clnt_entry E)) \<and>
      (\<forall>x. 0x110000 \<le> unat x \<longrightarrow> lin (wld (la_mach l)) x = lin w x) \<and>
      keeps_desc (psp_base E) (D (host w)) (D (host (wld (la_mach l)))) \<and>
      seg_fs (wld (la_mach l)) = cl_fs c \<and> seg_ds (wld (la_mach l)) = cl_ds c \<and>
      (\<exists>e. D (host (wld (la_mach l))) (seg_es (wld (la_mach l))) = Some e \<and> d_base e = d_base dd) \<and>
      (\<exists>p. la_info l = (payload_info s f (cl_info c))\<lparr>psp_selector := p\<rparr>) \<and>
      load_bytes (own (wld (la_mach l))) (addr_stubinfo E) STUBINFO_END = stubinfo_image (la_info l))"
    (is "?bad \<or> ?good")
proof (rule disjCI)
  assume no: "\<not> ?good"
  define i where "i = payload_info s f (cl_info c)"
  define para :: u16 where "para = drop_bit 4 (minkeep i)"
  define jump where "jump sel v = (let i1 = i\<lparr>psp_selector := sel\<rparr>;
      w4 = v\<lparr>own := store_bytes (own v) (addr_stubinfo E) (stubinfo_image i1)\<rparr> in
      \<lparr>la_mach = exec E [ucast (cl_fs c), ucast (cl_ds c)] (body (jump_to_entry E)) (start w4),
       la_info = i1, la_file = lseek f (hs_noffset s) Seek_set\<rparr>)" for sel v
  have ok: "stubinfo_ok (i\<lparr>psp_selector := sel\<rparr>)" for sel
    using payload_info_ok [OF assms(6), of s f] by (simp add: i_def stubinfo_ok_def)
  have good: ?good if run: "enter_client E c s f w = Inr (jump sel v)"
    and fr: "init_frame E D w u" "own v = own u" "lin v = lin u"
      "\<exists>e. D (host v) (seg_ds v) = Some e \<and> d_base e = d_base dd"
      "keeps_desc (psp_base E) (D (host u)) (D (host v))" for sel u v
  proof -
    have len: "length (stubinfo_image (i\<lparr>psp_selector := sel\<rparr>)) = 0xA4"
      by (rule length_stubinfo_image [OF ok])
    have fo: "\<forall>x. \<not> in_region x (local_slot2 E) 50 \<longrightarrow> \<not> in_region x (addr_psp_sel E) 2 \<longrightarrow> own v x = own w x"
      using fr by (simp add: init_frame_def)
    have "load_bytes (store_bytes (own v) (addr_stubinfo E) (stubinfo_image (i\<lparr>psp_selector := sel\<rparr>)))
        (addr_stubinfo E) STUBINFO_END = stubinfo_image (i\<lparr>psp_selector := sel\<rparr>)"
      using load_store_bytes [of "stubinfo_image (i\<lparr>psp_selector := sel\<rparr>)"] unfolding len
      by (simp add: STUBINFO_END_def)
    moreover have "keeps_desc (psp_base E) (D (host w)) (D (host v))"
      using keeps_desc_trans [OF keeps_desc_le fr(5)] fr(1) by (simp add: init_frame_def)
    moreover have "\<exists>p. i\<lparr>psp_selector := sel\<rparr> = (payload_info s f (cl_info c))\<lparr>psp_selector := p\<rparr>"
      unfolding i_def by blast
    ultimately show ?thesis
      using run fr(1-4) entry_kept [OF assms(5) fo len]
      by (intro exI [of _ "jump sel v"]) (simp add: jump_def Let_def jump_run init_frame_def)
  qed
  have eq: "enter_client E c s f w = bindR (dpmi_init E para w) (\<lambda>(rc, sel, w1).
      bindR (if rc \<noteq> 0 then bindR (shrink_low E para w1) (\<lambda>w2. Inr (alloc_psp E w2))
             else Inr (the sel, w1)) (\<lambda>(psp_sel, w3). Inr (jump psp_sel w3)))"
    unfolding enter_client_def i_def para_def jump_def Let_def by (rule refl)
  have "minkeep i = 0x4000 \<Longrightarrow> para = 0x400" by (simp add: para_def)
  then have para: "unat para \<le> 0x4000" using assms(7) by (simp add: i_def payload_info_def)
  consider e where "dpmi_init E para w = Inl e"
    | rc sel v where "dpmi_init E para w = Inr (rc, sel, v)" "init_frame E D w v" "rc \<noteq> 0 \<longrightarrow> init_stays E D w v"
    using dpmi_init_entry [OF assms(2,4) para] by (cases "dpmi_init E para w") auto
  then show ?bad
  proof cases
    case 1
    then show ?thesis using dpmi_init_refuses [OF 1] by (auto simp: eq)
  next
    case (2 rc sel v)
    show ?thesis
    proof (cases "rc = 0")
      case True
      then have "enter_client E c s f w = Inr (jump (the sel) v)" using 2(1) by (simp add: eq)
      then show ?thesis using good [of "the sel" v v] 2(2) no assms(8) by (simp add: init_frame_def)
    next
      case False
      show ?thesis
      proof (cases "shrink_low E para v")
        case (Inl e)
        then show ?thesis using False 2(1) shrink_low_refuses [OF Inl] by (auto simp: eq)
      next
        case (Inr u)
        have u: "init_stays E D w u"
          using 2(3) False shrink_low_entry(1) [OF assms(2) Inr] init_stays_trans by blast
        obtain ps x where ps: "alloc_psp E u = (ps, x)" by fastforce
        have "card (dom (D (host u))) < N" using u assms(3) by (simp add: init_stays_def)
        then have x: "own x = own u" "lin x = lin u" "seg_ds x = seg_ds u"
          "keeps_desc (psp_base E) (D (host u)) (D (host x))"
          using alloc_psp_keeps [OF assms(1) _ assms(4) ps] by (simp_all add: same_segs_def)
        have "D (host u) (seg_ds u) = Some dd" using u assms(8) by (simp add: init_stays_def)
        then have "D (host x) (seg_ds x) = Some dd" using x(3,4) assms(9) by (simp add: keeps_desc_def)
        have "enter_client E c s f w = Inr (jump ps x)" using 2(1) False Inr ps by (simp add: eq)
        then show ?thesis using good [of ps x u] init_stays_frame [OF u] x \<open>D (host x) (seg_ds x) = Some dd\<close> no by simp
      qed
    qed
  qed
qed

end
