(* ===== verification/Ministub.thy ===== *)
theory Ministub
  imports Stub
begin

text \<open>
  \<open>ministub.c\<close>: the program started by DOS. It builds \<open>envp\<close> from the environment block in two passes, copies
  \<open>argv[0]\<close> out of low memory, asks the DPMI host for its extension \<open>DJ64STUB\<close> and enters it; without the
  extension, or when \<open>COMCOM_FULLSTUB\<close> is set, it runs the built-in loader \<open>fullstub\<close>.

  The environment block and the command line lie in low memory (\<open>lin\<close>); \<open>envp\<close>, the copy of \<open>argv[0]\<close>,
  the array \<open>argv\<close> and the locals are objects of the program (\<open>own\<close>). The places of these objects,
  two of them given by \<open>malloc\<close>, are parameters. A failing \<open>malloc\<close> is not looked at by the code and ends
  in a write through a null pointer, \<open>Bad_access\<close>. A string that never ends makes the functions that
  read it run for ever, which is the result \<open>None\<close>.
\<close>

section \<open>Strings in memory\<close>

partial_function (option) c_string :: "mem \<Rightarrow> u32 \<Rightarrow> bytes option" where
  "c_string m p = (if m p = 0 then Some []
     else Option.bind (c_string m (p + 1)) (\<lambda>s. Some (m p # s)))"

text \<open>The strings behind an array of pointers in \<open>o1\<close> that ends in \<open>NULL\<close>.\<close>

partial_function (option) envp_strings :: "mem \<Rightarrow> mem \<Rightarrow> u32 \<Rightarrow> bytes list option" where
  "envp_strings m o1 p = (if load32 o1 p = 0 then Some []
     else Option.bind (c_string m (load32 o1 p)) (\<lambda>s.
          Option.bind (envp_strings m o1 (p + 4)) (\<lambda>es. Some (s # es))))"

text \<open>
  \<open>getenv(name) != NULL\<close>: some string starts with the name and an equals sign. The C library's environment
  and the \<open>envp\<close> of \<open>main\<close> both come from the environment block of the PSP, so the model looks the name up in
  the strings that \<open>main\<close> has just read from this block.
\<close>

definition getenv_set :: "bytes list \<Rightarrow> bytes \<Rightarrow> bool" where
  "getenv_set es name = list_ex (\<lambda>e. take (length name + 1) e = name @ [0x3d]) es"

section \<open>Assembly\<close>

definition DPMIQueryExtension :: cfun where
  "DPMIQueryExtension = \<lparr>nargs = 3, returns0 = False, body =
      [Push_s ES, Mov_ri EAX 0x168a, Mov_ra ESI 16, Intr 0x2f, Test_al, Jnz L_fail, Mov_ra EBX 8,
       Mov_ms EBX 0 ES, Mov_ra EBX 12, Mov_mr EBX 0 EDI, Pop_s ES, Xor_ah, Label L_fail]\<rparr>"

definition enter_stub :: cfun where
  "enter_stub = \<lparr>nargs = 9, returns0 = False, body =
      [Mov_ra EAX 32, Mov_ra ECX 40, Shl_ri ECX 16, Or_rr EAX ECX, Mov_ra ECX 16, Mov_ra EDX 20,
       Mov_ra EBX 24, Mov_ra ESI 28, Mov_ra EDI 36, Push_a 8, Push_a 12, Call_far_sp, Add_esp 8]\<rparr>"

section \<open>The environment\<close>

text \<open>The first pass: \<open>i\<close>, \<open>letter\<close> and \<open>envc\<close> are the variables of the loop.\<close>

partial_function (option) env_count :: "mem \<Rightarrow> u32 \<Rightarrow> u32 \<Rightarrow> bool \<Rightarrow> u32 \<Rightarrow> u32 option" where
  "env_count m env i letter envc =
     (if m (env + i) = 0
      then if m (env + (i + 1)) = 0 then Some envc else env_count m env (i + 1) False envc
      else env_count m env (i + 1) True (if \<not> letter then envc + 1 else envc))"

text \<open>The second pass stores a pointer to the start of every string.\<close>

partial_function (option) env_fill ::
  "mem \<Rightarrow> u32 \<Rightarrow> u32 \<Rightarrow> u32 \<Rightarrow> bool \<Rightarrow> u32 \<Rightarrow> mem \<Rightarrow> mem option" where
  "env_fill m env envp i letter envc2 o1 =
     (if m (env + i) = 0
      then if m (env + (i + 1)) = 0 then Some o1 else env_fill m env envp (i + 1) False envc2 o1
      else if \<not> letter
           then env_fill m env envp (i + 1) True (envc2 + 1) (store32 o1 (envp + 4 * envc2) (env + i))
           else env_fill m env envp (i + 1) True envc2 o1)"

text \<open>
  \<open>__dpmi_env\<close>, where \<open>malloc\<close> puts \<open>envp\<close> and the copy of \<open>argv[0]\<close>, the locals \<open>sel\<close> and \<open>off\<close>, and
  the constant \<open>ext_nm\<close>.
\<close>

record mini_env =
  dpmi_env :: u32
  envp_obj :: u32
  argv0_obj :: u32
  sel_var :: u32
  off_var :: u32
  ext_name :: u32

definition build_envp :: "'h env \<Rightarrow> mini_env \<Rightarrow> 'h world \<Rightarrow> (stop + (u32 \<times> 'h world)) option" where
  "build_envp E M w = (case env_count (lin w) (dpmi_env M) 0 False 0 of
      None \<Rightarrow> None
    | Some envc \<Rightarrow>
        if \<not> malloc_ok E ((envc + 1) * 4) then Some (Inl Bad_access) else
        let o1 = store32 (own w) (envp_obj M + 4 * envc) 0 in
        map_option (\<lambda>o2. Inr (envc, w\<lparr>own := o2\<rparr>))
          (if envc \<noteq> 0 then env_fill (lin w) (dpmi_env M) (envp_obj M) 0 False 0 o1 else Some o1))"

definition copy_argv0 :: "'h env \<Rightarrow> mini_env \<Rightarrow> u32 \<Rightarrow> 'h world \<Rightarrow> (stop + 'h world) option" where
  "copy_argv0 E M argv w = (case c_string (lin w) (load32 (own w) argv) of
      None \<Rightarrow> None
    | Some s \<Rightarrow>
        if \<not> malloc_ok E (of_nat (length s) + 1) then Some (Inl Bad_access) else
        Some (Inr (w\<lparr>own := store32 (store_bytes (own w) (argv0_obj M) (s @ [0])) argv (argv0_obj M)\<rparr>)))"

section \<open>The program\<close>

definition DJSTUB_API_VER :: u32 where
  "DJSTUB_API_VER = 5"

definition MINISTUB_VER :: u32 where
  "MINISTUB_VER = 9"

text \<open>
  How \<open>main\<close> ends, when it does not end with a diagnostic: the built-in loader jumped to the client, or
  the extension was entered and returned.
\<close>

datatype 'h outcome = Client_started "'h launch" | Stub_returned u32 "'h world"

text \<open>\<open>argv[0]\<close>, once it has been copied.\<close>

definition argv0_string :: "u32 \<Rightarrow> 'h world \<Rightarrow> bytes option" where
  "argv0_string argv w = c_string (own w) (load32 (own w) argv)"

definition builtin_loader ::
  "'h env \<Rightarrow> mini_env \<Rightarrow> (bytes \<Rightarrow> cfile option) \<Rightarrow> u32 \<Rightarrow> 'h world \<Rightarrow> (stop + 'h outcome) option" where
  "builtin_loader E M open_file argv w =
     Option.bind (argv0_string argv w) (\<lambda>a0.
     Option.bind (envp_strings (lin w) (own w) (envp_obj M)) (\<lambda>es.
     map_option (map_sum id Client_started) (fullstub E open_file [a0] es w)))"

definition hosted_loader ::
  "'h env \<Rightarrow> mini_env \<Rightarrow> (bytes \<Rightarrow> cfile option) \<Rightarrow> u32 \<Rightarrow> u32 \<Rightarrow> u32 \<Rightarrow> 'h world \<Rightarrow>
    (stop + 'h outcome) option" where
  "hosted_loader E M open_file argc argv envc w =
     Option.bind (argv0_string argv w) (\<lambda>a0.
       case open_file a0 of
         None \<Rightarrow> Some (Inl (Exit_failure Cannot_open))
       | Some f \<Rightarrow> Some (bindR (dpmi_init E 0 w) (\<lambda>(rc, psp_sel, w1).
           if rc \<noteq> 0 then Inl (Exit_failure Dpmi_unavailable) else
           let (err, w2) = call_c E enter_stub
             [ucast (load16 (own w1) (sel_var M)), ucast (load16 (own w1) (off_var M)), argc, argv,
              envc, envp_obj M, ucast (the psp_sel), f_fd f,
              DJSTUB_API_VER OR push_bit 8 MINISTUB_VER] w1
           in Inr (Stub_returned err w2))))"

definition main ::
  "'h env \<Rightarrow> mini_env \<Rightarrow> (bytes \<Rightarrow> cfile option) \<Rightarrow> u32 \<Rightarrow> u32 \<Rightarrow> 'h world \<Rightarrow>
    (stop + 'h outcome) option" where
  "main E M open_file argc argv w =
     (if argc = 0 then Some (Inl (Exit_failure No_env)) else
      case build_envp E M w of
        None \<Rightarrow> None
      | Some (Inl e) \<Rightarrow> Some (Inl e)
      | Some (Inr (envc, w1)) \<Rightarrow>
          (case copy_argv0 E M argv w1 of
             None \<Rightarrow> None
           | Some (Inl e) \<Rightarrow> Some (Inl e)
           | Some (Inr w2) \<Rightarrow>
               Option.bind (envp_strings (lin w2) (own w2) (envp_obj M)) (\<lambda>es.
                 let (err, w3) = (if getenv_set es (ascii ''COMCOM_FULLSTUB'') then (1, w2)
                   else call_c E DPMIQueryExtension [sel_var M, off_var M, ext_name M] w2) in
                 if err \<noteq> 0 then builtin_loader E M open_file argv w3
                 else hosted_loader E M open_file argc argv envc w3)))"

section \<open>The two passes as functions of the block\<close>

text \<open>
  The block that both passes read: two NULs follow each other for the first time \<open>n\<close> bytes behind
  \<open>a\<close>. The addresses at which a run of other bytes starts, when \<open>l\<close> tells whether one is under way.
\<close>

fun env_ends :: "mem \<Rightarrow> u32 \<Rightarrow> nat \<Rightarrow> bool" where
  "env_ends m a 0 \<longleftrightarrow> m a = 0 \<and> m (a + 1) = 0"
| "env_ends m a (Suc n) \<longleftrightarrow> \<not> (m a = 0 \<and> m (a + 1) = 0) \<and> env_ends m (a + 1) n"

fun env_starts :: "mem \<Rightarrow> u32 \<Rightarrow> nat \<Rightarrow> bool \<Rightarrow> u32 list" where
  "env_starts m a 0 l = []"
| "env_starts m a (Suc n) l =
     (if m a = 0 then env_starts m (a + 1) n False
      else if l then env_starts m (a + 1) n True else a # env_starts m (a + 1) n True)"

lemma env_count_pass:
  "env_ends m (env + i) n \<Longrightarrow>
    env_count m env i l c = Some (c + of_nat (length (env_starts m (env + i) n l)))"
proof (induction n arbitrary: i l c)
  case 0
  then show ?case by (subst env_count.simps) (simp add: add.assoc)
next
  case (Suc n)
  then have "env_ends m (env + (i + 1)) n" by (simp add: add.assoc)
  from Suc.IH [OF this] show ?case
    using Suc.prems by (subst env_count.simps) (auto simp: ac_simps)
qed

definition pointer_bytes :: "u32 list \<Rightarrow> bytes" where
  "pointer_bytes ps = concat (map bytes32 ps)"

lemma length_pointer_bytes [simp]: "length (pointer_bytes ps) = 4 * length ps"
  by (induction ps) (simp_all add: pointer_bytes_def)

lemma pointer_bytes_simps [simp]:
  "pointer_bytes [] = []" "pointer_bytes (p # ps) = bytes32 p @ pointer_bytes ps"
  "pointer_bytes (ps @ qs) = pointer_bytes ps @ pointer_bytes qs"
  by (simp_all add: pointer_bytes_def)

lemma env_fill_pass:
  "env_ends m (env + i) n \<Longrightarrow> 4 * length (env_starts m (env + i) n l) \<le> 2 ^ 32 \<Longrightarrow>
    env_fill m env envp i l c o1 =
      Some (store_bytes o1 (envp + 4 * c) (pointer_bytes (env_starts m (env + i) n l)))"
proof (induction n arbitrary: i l c o1)
  case 0
  then show ?case by (subst env_fill.simps) (simp add: add.assoc)
next
  case (Suc n)
  then have e: "env_ends m (env + (i + 1)) n" by (simp add: add.assoc)
  show ?case
  proof (cases "m (env + i) = 0 \<or> l")
    case True
    then show ?thesis
      using Suc.prems Suc.IH [OF e, of _ c o1] by (subst env_fill.simps) (auto simp: add.assoc)
  next
    case False
    let ?qs = "env_starts m (env + (i + 1)) n True"
    have "4 * length ?qs \<le> 2 ^ 32" using False Suc.prems by (simp add: add.assoc)
    from Suc.IH [OF e this]
    have "env_fill m env envp (i + 1) True (c + 1) (store32 o1 (envp + 4 * c) (env + i)) =
        Some (store_bytes (store32 o1 (envp + 4 * c) (env + i)) (envp + 4 * (c + 1)) (pointer_bytes ?qs))" .
    moreover have "envp + 4 * (c + 1) = envp + 4 * c + of_nat (length (bytes32 (env + i)))"
      by (simp add: algebra_simps)
    moreover have "length (bytes32 (env + i)) + length (pointer_bytes ?qs) \<le> 2 ^ 32"
      using False Suc.prems by (simp add: add.assoc)
    ultimately show ?thesis
      using False Suc.prems store_bytes_append [of "bytes32 (env + i)" "pointer_bytes ?qs" o1 "envp + 4 * c"]
      by (subst env_fill.simps) (simp add: store32_def add.assoc)
  qed
qed

text \<open>There is at least one byte between two starts.\<close>

lemma length_env_starts: "2 * length (env_starts m a n l) \<le> n + (if l then 0 else 1)"
proof (induction n arbitrary: a l)
  case (Suc n)
  show ?case using Suc.IH [of "a + 1" False] Suc.IH [of "a + 1" True] by auto
qed simp

text \<open>The first pass ends where there is a pair of NULs, and nowhere else.\<close>

lemma next_addr: "a + of_nat (Suc k) = a + 1 + (of_nat k :: u32)"
  by (simp add: ac_simps)

lemma env_ends_pair: "env_ends m a n \<Longrightarrow> m (a + of_nat n) = 0 \<and> m (a + of_nat n + 1) = 0"
proof (induction n arbitrary: a)
  case (Suc n)
  then have "m (a + 1 + of_nat n) = 0 \<and> m (a + 1 + of_nat n + 1) = 0"
    by (simp only: env_ends.simps Suc.IH simp_thms)
  then show ?case by (simp only: next_addr)
qed simp

lemma env_ends_ex: "m (a + of_nat k) = 0 \<and> m (a + of_nat k + 1) = 0 \<Longrightarrow> \<exists>n \<le> k. env_ends m a n"
proof (induction k arbitrary: a)
  case 0
  then show ?case by (intro exI [of _ 0]) simp
next
  case (Suc k)
  show ?case
  proof (cases "m a = 0 \<and> m (a + 1) = 0")
    case True
    then show ?thesis by (intro exI [of _ 0]) simp
  next
    case False
    have "m (a + 1 + of_nat k) = 0 \<and> m (a + 1 + of_nat k + 1) = 0"
      using Suc.prems by (simp only: next_addr)
    then obtain n where "n \<le> k" "env_ends m (a + 1) n" using Suc.IH by blast
    then show ?thesis using False by (intro exI [of _ "Suc n"]) simp
  qed
qed

lemma env_count_ends:
  assumes "env_count m env i l c = Some r"
  shows "\<exists>n. env_ends m (env + i) n"
proof (rule env_count.raw_induct [where P = "\<lambda>m env i l c r. \<exists>n. env_ends m (env + i) n", OF _ assms])
  fix rec m env i l and c r :: u32
  assume IH: "\<And>m env i l c r. rec m env i l c = Some r \<Longrightarrow> \<exists>n. env_ends m (env + i) n"
    and run: "(if m (env + i) = 0 then if m (env + (i + 1)) = 0 then Some c else rec m env (i + 1) False c
      else rec m env (i + 1) True (if \<not> l then c + 1 else c)) = Some r"
  show "\<exists>n. env_ends m (env + i) n"
  proof (cases "m (env + i) = 0 \<and> m (env + (i + 1)) = 0")
    case True
    then show ?thesis by (intro exI [of _ 0]) (simp add: add.assoc)
  next
    case False
    then have "rec m env (i + 1) False c = Some r \<or>
        rec m env (i + 1) True (if \<not> l then c + 1 else c) = Some r"
      using run by (auto split: if_splits)
    then obtain n where "env_ends m (env + (i + 1)) n" using IH by blast
    then show ?thesis using False by (intro exI [of _ "Suc n"]) (auto simp: add.assoc)
  qed
qed

text \<open>Both functions of the block look at its \<open>n + 2\<close> bytes only.\<close>

lemma env_block_cong:
  assumes "\<And>k. k < n + 2 \<Longrightarrow> m' (a + of_nat k) = m (a + of_nat k)"
  shows "env_ends m' a n = env_ends m a n" "env_starts m' a n l = env_starts m a n l"
  using assms
proof (induction n arbitrary: a l)
  case 0
  { case 1 then show ?case using 1 [of 0] 1 [of 1] by simp }
  { case 2 then show ?case by simp }
next
  case (Suc n)
  { case 1
    have "env_ends m' (a + 1) n = env_ends m (a + 1) n"
    proof (rule Suc.IH(1))
      fix k assume "k < n + 2"
      then show "m' (a + 1 + of_nat k) = m (a + 1 + of_nat k)" using 1 [of "Suc k", unfolded next_addr] by simp
    qed
    then show ?case using 1 [of 0] 1 [of 1] by simp }
  { case 2
    have "env_starts m' (a + 1) n b = env_starts m (a + 1) n b" for b
    proof (rule Suc.IH(2))
      fix k assume "k < n + 2"
      then show "m' (a + 1 + of_nat k) = m (a + 1 + of_nat k)" using 2 [of "Suc k", unfolded next_addr] by simp
    qed
    then show ?case using 2 [of 0] by simp }
qed

section \<open>Building \<open>envp\<close>\<close>

lemma store_bytes_swap:
  assumes "length xs + length ys \<le> 2 ^ 32"
  shows "store_bytes (store_bytes m (a + of_nat (length xs)) ys) a xs = store_bytes m a (xs @ ys)"
proof (cases "xs = [] \<or> ys = []")
  case True
  then show ?thesis by auto
next
  case False
  have "length xs < 2 ^ 32" "length ys < 2 ^ 32" using assms False by (auto simp: neq_Nil_conv)
  then have "unat (of_nat (length xs) :: u32) = length xs" "unat (- of_nat (length xs) :: u32) = 2 ^ 32 - length xs"
    using False by (simp add: unat_of_nat, intro unat_minus_of_nat, auto)
  then have ap: "apart a (length xs) (a + of_nat (length xs)) (length ys)"
    using assms by (simp add: apart_def)
  have "store_bytes (store_bytes m (a + of_nat (length xs)) ys) a xs =
      store_bytes (store_bytes m a xs) (a + of_nat (length xs)) ys"
    using apart_not_in [OF ap] by (auto simp: store_bytes_def fun_eq_iff)
  then show ?thesis using store_bytes_append [OF assms] by simp
qed

lemma build_envp_eq:
  assumes "env_ends (lin w) (dpmi_env M) n" "n + 1 < 2 ^ 31"
    and "ps = env_starts (lin w) (dpmi_env M) n False"
  shows "build_envp E M w = Some (if malloc_ok E (4 * (of_nat (length ps) + 1))
      then Inr (of_nat (length ps), w\<lparr>own := store_bytes (own w) (envp_obj M) (pointer_bytes (ps @ [0]))\<rparr>)
      else Inl Bad_access) \<and> 4 * length ps + 4 \<le> 2 ^ 32"
proof -
  have len: "4 * length ps + 4 \<le> 2 ^ 32"
    using length_env_starts [of "lin w" "dpmi_env M" n False] assms(2,3) by simp
  have small: "length ps < 2 ^ 32" using len by simp
  have zero: "(of_nat (length ps) = (0 :: u32)) = (ps = [])"
  proof -
    have "unat (of_nat (length ps) :: u32) = length ps" using small by (simp add: unat_of_nat)
    then show ?thesis using unat_eq_0 [of "of_nat (length ps) :: u32"] by simp
  qed
  have count: "env_count (lin w) (dpmi_env M) 0 False 0 = Some (of_nat (length ps))"
    using env_count_pass [of "lin w" "dpmi_env M" 0 n False 0] assms(1,3) by simp
  have fill: "env_fill (lin w) (dpmi_env M) (envp_obj M) 0 False 0 x =
      Some (store_bytes x (envp_obj M) (pointer_bytes ps))" for x
    using env_fill_pass [of "lin w" "dpmi_env M" 0 n False "envp_obj M" 0 x] assms(1,3) len by simp
  have "of_nat (4 * length ps) = 4 * (of_nat (length ps) :: u32)" by simp
  then have swap: "store_bytes (store32 x (envp_obj M + 4 * of_nat (length ps)) 0) (envp_obj M) (pointer_bytes ps) =
      store_bytes x (envp_obj M) (pointer_bytes (ps @ [0]))" for x
    using store_bytes_swap [of "pointer_bytes ps" "bytes32 0" x "envp_obj M"] len
    by (simp add: store32_def)
  have size: "(of_nat (length ps) + 1) * 4 = (4 * (of_nat (length ps) + 1) :: u32)" by (simp add: mult.commute)
  show ?thesis
    using len swap unfolding build_envp_def count option.case size fill zero Let_def
    by (auto simp: fill zero)
qed

text \<open>The block the system passes: every string with its NUL, and one more behind the last.\<close>

definition env_block :: "bytes list \<Rightarrow> bytes" where
  "env_block es = concat (map (\<lambda>e. e @ [0]) es) @ (if es = [] then [0, 0] else [0])"

definition env_string :: "bytes \<Rightarrow> bool" where
  "env_string e \<longleftrightarrow> e \<noteq> [] \<and> 0 \<notin> set e"

text \<open>Memory holds bytes from an address on.\<close>

fun holds :: "mem \<Rightarrow> u32 \<Rightarrow> bytes \<Rightarrow> bool" where
  "holds m a [] \<longleftrightarrow> True"
| "holds m a (b # bs) \<longleftrightarrow> m a = b \<and> holds m (a + 1) bs"

lemma holds_append: "holds m a (xs @ ys) \<longleftrightarrow> holds m a xs \<and> holds m (a + of_nat (length xs)) ys"
  by (induction xs arbitrary: a) (simp_all add: ac_simps)

lemma holds_load: "holds m a bs \<longleftrightarrow> load_bytes m a (length bs) = bs"
proof (induction bs arbitrary: a)
  case (Cons b bs)
  have "load_bytes m a (Suc (length bs)) = m a # load_bytes m (a + 1) (length bs)"
    by (simp add: load_bytes_def upt_conv_Cons comp_def ac_simps del: upt_Suc flip: map_Suc_upt)
  then show ?case using Cons.IH by simp
qed (simp add: load_bytes_def)

lemma c_string_holds: "0 \<notin> set s \<Longrightarrow> holds m p (s @ [0]) \<Longrightarrow> c_string m p = Some s"
proof (induction s arbitrary: p)
  case Nil
  then show ?case by (subst c_string.simps) simp
next
  case (Cons b s)
  then show ?case by (subst c_string.simps) auto
qed

text \<open>A pass over the rest of a string.\<close>

lemma env_run:
  "0 \<notin> set e \<Longrightarrow> holds m a e \<Longrightarrow>
    env_ends m a (length e + n) = env_ends m (a + of_nat (length e)) n \<and>
    env_starts m a (length e + n) True = env_starts m (a + of_nat (length e)) n True"
proof (induction e arbitrary: a)
  case (Cons b e)
  then show ?case using Cons.IH [of "a + 1"] by (auto simp: ac_simps)
qed simp

lemma env_string_pass:
  assumes "env_string e" "holds m a e"
  shows "env_ends m a (length e + n) = env_ends m (a + of_nat (length e)) n"
    "env_starts m a (length e + n) False = a # env_starts m (a + of_nat (length e)) n True"
proof -
  obtain b s where e: "e = b # s" "b \<noteq> 0" "0 \<notin> set s"
    using assms(1) by (auto simp: env_string_def neq_Nil_conv)
  have "holds m (a + 1) s" "m a = b" using assms(2) e by auto
  then show "env_ends m a (length e + n) = env_ends m (a + of_nat (length e)) n"
    "env_starts m a (length e + n) False = a # env_starts m (a + of_nat (length e)) n True"
    using env_run [OF e(3), of m "a + 1" n] e(1,2) by (simp_all add: ac_simps)
qed

lemma env_block_pass:
  assumes "list_all env_string es" "es \<noteq> []" "holds m a (env_block es)"
  shows "\<exists>n. env_ends m a n \<and> n + 2 = length (env_block es) \<and>
    map (c_string m) (env_starts m a n False) = map Some es"
  using assms
proof (induction es arbitrary: a)
  case (Cons e es)
  let ?b = "a + of_nat (length e)"
  have e: "env_string e" "holds m a (e @ [0])" "holds m a e" "m ?b = 0"
    using Cons.prems(1,3) by (auto simp: env_block_def holds_append)
  have str: "c_string m a = Some e" using c_string_holds [of e] e(1,2) by (simp add: env_string_def)
  show ?case
  proof (cases "es = []")
    case True
    have "m (?b + 1) = 0" using Cons.prems(3) True by (simp add: env_block_def holds_append ac_simps)
    then show ?thesis
      using env_string_pass [OF e(1,3), of 0] e(4) str True
      by (intro exI [of _ "length e"]) (simp add: env_block_def)
  next
    case False
    have "env_block (e # es) = (e @ [0]) @ env_block es" using False by (simp add: env_block_def)
    then have rest: "holds m (?b + 1) (env_block es)" and len: "length (env_block (e # es)) = Suc (length e) + length (env_block es)"
      using Cons.prems(3) holds_append [of m a "e @ [0]" "env_block es"] by (simp_all add: ac_simps)
    then obtain n where n: "env_ends m (?b + 1) n" "n + 2 = length (env_block es)"
      "map (c_string m) (env_starts m (?b + 1) n False) = map Some es"
      using Cons.IH Cons.prems(1) False by auto
    have "m (?b + 1) \<noteq> 0"
      using rest False Cons.prems(1) by (auto simp: neq_Nil_conv env_block_def env_string_def)
    then show ?thesis
      using env_string_pass [OF e(1,3), of "Suc n"] e(4) str n len
      by (intro exI [of _ "length e + Suc n"]) simp
  qed
qed simp

section \<open>The state handed to the loaders\<close>

lemma env_starts_in: "q \<in> set (env_starts m a n l) \<Longrightarrow> \<exists>k < n. q = a + of_nat k"
proof (induction n arbitrary: a l)
  case (Suc n)
  consider "q = a" | b where "q \<in> set (env_starts m (a + 1) n b)"
    using Suc.prems by (auto split: if_splits)
  then show ?case
  proof cases
    case 1
    then show ?thesis by (intro exI [of _ 0]) simp
  next
    case 2
    then obtain k where "k < n" "q = a + 1 + of_nat k" using Suc.IH by blast
    then show ?thesis by (intro exI [of _ "Suc k"]) (simp add: ac_simps)
  qed
qed simp

lemma env_starts_nonzero:
  assumes "a \<noteq> 0" "unat a + n \<le> 2 ^ 32"
  shows "0 \<notin> set (env_starts m a n l)"
proof
  assume "0 \<in> set (env_starts m a n l)"
  then obtain k where k: "k < n" "a + of_nat k = 0" using env_starts_in by fastforce
  have "unat (a + of_nat k) = unat a + k"
    using k(1) assms(2) by (simp add: unat_word_ariths unat_of_nat)
  then show False using k(2) assms(1) by (simp add: unat_eq_0)
qed

lemma holds_load32: "holds m p (bytes32 q) \<Longrightarrow> load32 m p = q"
  by (simp add: holds_load load32_def)

lemma envp_strings_holds:
  assumes "holds o1 p (pointer_bytes (ps @ [0]))" "0 \<notin> set ps" "map (c_string m) ps = map Some es"
  shows "envp_strings m o1 p = Some es"
  using assms
proof (induction ps arbitrary: p es)
  case Nil
  then show ?case by (subst envp_strings.simps) (simp add: holds_load32)
next
  case (Cons q ps)
  obtain s ss where es: "es = s # ss" "c_string m q = Some s" "map (c_string m) ps = map Some ss"
    using Cons.prems(3) by (cases es) auto
  have h: "load32 o1 p = q" "holds o1 (p + 4) (pointer_bytes (ps @ [0]))"
    using Cons.prems(1) by (simp_all add: holds_append holds_load32)
  show ?case
    using Cons.IH [OF h(2) _ es(3)] Cons.prems(2) es h(1) by (subst envp_strings.simps) simp
qed

text \<open>
  The start of the program as the system and \<open>malloc\<close> provide it: the environment block and
  \<open>argv[0]\<close> are in low memory, both requests succeed and their objects lie apart from each other
  and from \<open>argv\<close>.
\<close>

definition mini_start :: "'h env \<Rightarrow> mini_env \<Rightarrow> u32 \<Rightarrow> bytes \<Rightarrow> bytes list \<Rightarrow> 'h world \<Rightarrow> bool" where
  "mini_start E M argv a0 es w \<longleftrightarrow>
     list_all env_string es \<and> holds (lin w) (dpmi_env M) (env_block es) \<and> dpmi_env M \<noteq> 0 \<and>
     unat (dpmi_env M) + length (env_block es) \<le> 2 ^ 31 \<and>
     0 \<notin> set a0 \<and> holds (lin w) (load32 (own w) argv) (a0 @ [0]) \<and> length a0 < 2 ^ 31 \<and>
     malloc_ok E (4 * (of_nat (length es) + 1)) \<and> malloc_ok E (of_nat (length a0) + 1) \<and>
     apart (argv0_obj M) (length a0 + 1) (envp_obj M) (4 * length es + 4) \<and>
     apart (envp_obj M) (4 * length es + 4) argv 4 \<and> apart (argv0_obj M) (length a0 + 1) argv 4"

lemma holds_store_apart:
  assumes "apart a (length bs) b (length xs)" "length xs \<le> 2 ^ 32"
  shows "holds (store_bytes m a bs) b xs = holds m b xs"
  using load_bytes_store_apart [OF assms] by (simp add: holds_load)

lemma env_block_found:
  assumes "list_all env_string es" "holds m a (env_block es)"
  shows "\<exists>n. env_ends m a n \<and> n + 2 = length (env_block es) \<and>
    map (c_string m) (env_starts m a n False) = map Some es"
proof (cases "es = []")
  case True
  then have "env_ends m a 0" using assms(2) by (simp add: env_block_def)
  then show ?thesis using True by (intro exI [of _ 0]) (simp add: env_block_def)
next
  case False
  then show ?thesis using env_block_pass [OF assms(1) _ assms(2)] by blast
qed

text \<open>
  What the preparation leaves: \<open>envp\<close> is an array of pointers to the strings, \<open>argv[0]\<close> points to the
  copy. It depends on these three objects and on the bytes of the environment block only.
\<close>

definition env_area :: "mini_env \<Rightarrow> bytes list \<Rightarrow> u32 \<Rightarrow> bool" where
  "env_area M es x \<longleftrightarrow> in_region x (dpmi_env M) (length (env_block es))"

definition mini_ready :: "mini_env \<Rightarrow> u32 \<Rightarrow> bytes \<Rightarrow> bytes list \<Rightarrow> mem \<Rightarrow> mem \<Rightarrow> bool" where
  "mini_ready M argv a0 es m o1 \<longleftrightarrow> (\<exists>ps. 0 \<notin> set ps \<and>
     (\<forall>m'. (\<forall>x. env_area M es x \<longrightarrow> m' x = m x) \<longrightarrow> map (c_string m') ps = map Some es) \<and>
     4 * length es + 4 \<le> 2 ^ 32 \<and> holds o1 (envp_obj M) (pointer_bytes (ps @ [0])) \<and>
     0 \<notin> set a0 \<and> length a0 < 2 ^ 31 \<and> holds o1 (argv0_obj M) (a0 @ [0]) \<and>
     load32 o1 argv = argv0_obj M)"

definition mini_objects :: "mini_env \<Rightarrow> u32 \<Rightarrow> bytes \<Rightarrow> bytes list \<Rightarrow> u32 \<Rightarrow> bool" where
  "mini_objects M argv a0 es x \<longleftrightarrow> in_region x (envp_obj M) (4 * length es + 4) \<or>
     in_region x (argv0_obj M) (length a0 + 1) \<or> in_region x argv 4"

lemma mini_ready_strings:
  assumes "mini_ready M argv a0 es (lin w) (own w)"
  shows "envp_strings (lin w) (own w) (envp_obj M) = Some es" "argv0_string argv w = Some a0"
  using assms envp_strings_holds c_string_holds by (auto simp: mini_ready_def argv0_string_def)

lemma mini_ready_keeps:
  assumes "mini_ready M argv a0 es m o1" "\<forall>x. mini_objects M argv a0 es x \<longrightarrow> o2 x = o1 x"
    and "\<forall>x. env_area M es x \<longrightarrow> m2 x = m x"
  shows "mini_ready M argv a0 es m2 o2"
proof -
  obtain ps where ps: "0 \<notin> set ps"
    "\<forall>m'. (\<forall>x. env_area M es x \<longrightarrow> m' x = m x) \<longrightarrow> map (c_string m') ps = map Some es" "4 * length es + 4 \<le> 2 ^ 32"
    "holds o1 (envp_obj M) (pointer_bytes (ps @ [0]))" "0 \<notin> set a0" "length a0 < 2 ^ 31"
    "holds o1 (argv0_obj M) (a0 @ [0])" "load32 o1 argv = argv0_obj M"
    using assms(1) unfolding mini_ready_def by blast
  have len: "length (pointer_bytes (ps @ [0])) = 4 * length es + 4"
    using arg_cong [OF ps(2) [rule_format, of m], of length] by simp
  have cong: "holds o2 a bs = holds o1 a bs"
    if "\<And>x. in_region x a (length bs) \<Longrightarrow> mini_objects M argv a0 es x" "length bs \<le> 2 ^ 32" for a bs
    using load_bytes_cong [of a "length bs" o2 o1] assms(2) that by (simp add: holds_load)
  have "holds o2 (envp_obj M) (pointer_bytes (ps @ [0]))"
    using cong [of "envp_obj M" "pointer_bytes (ps @ [0])"] ps(3,4) len by (simp add: mini_objects_def)
  moreover have "holds o2 (argv0_obj M) (a0 @ [0])"
    using cong [of "argv0_obj M" "a0 @ [0]"] ps(6,7) by (simp add: mini_objects_def)
  moreover have "load32 o2 argv = load32 o1 argv"
    using load_bytes_cong [of argv 4 o2 o1] assms(2) by (simp add: load32_def mini_objects_def)
  moreover have "\<forall>m'. (\<forall>x. env_area M es x \<longrightarrow> m' x = m2 x) \<longrightarrow> map (c_string m') ps = map Some es"
    using ps(2) assms(3) by simp
  ultimately show ?thesis using ps(1,3,5,6,8) unfolding mini_ready_def by metis
qed

text \<open>The strings are found at the same addresses in every memory with the same block.\<close>

lemma env_strings_cong:
  assumes "list_all env_string es" "holds m (dpmi_env M) (env_block es)" "env_ends m (dpmi_env M) n"
    and "n + 2 = length (env_block es)" "length (env_block es) \<le> 2 ^ 31" "\<forall>x. env_area M es x \<longrightarrow> m' x = m x"
  shows "map (c_string m') (env_starts m (dpmi_env M) n False) = map Some es"
proof -
  have len: "length (env_block es) \<le> 2 ^ 32" using assms(5) by simp
  have "holds m' (dpmi_env M) (env_block es)"
    using load_bytes_cong [of "dpmi_env M" "length (env_block es)" m' m] assms(2,6) len
    by (simp add: holds_load env_area_def)
  then obtain k where k: "env_ends m' (dpmi_env M) k" "k + 2 = length (env_block es)"
    "map (c_string m') (env_starts m' (dpmi_env M) k False) = map Some es"
    using env_block_found [OF assms(1)] by blast
  have "m' (dpmi_env M + of_nat i) = m (dpmi_env M + of_nat i)" if "i < n + 2" for i
    using assms(4-6) that by (simp add: env_area_def in_region_offset)
  then have "env_starts m' (dpmi_env M) n False = env_starts m (dpmi_env M) n False"
    by (rule env_block_cong(2))
  moreover have "k = n" using k(2) assms(4) by simp
  ultimately show ?thesis using k(3) by simp
qed

lemma mini_prepared:
  assumes "mini_start E M argv a0 es w"
  shows "\<exists>w1 o2. build_envp E M w = Some (Inr (of_nat (length es), w1)) \<and>
    copy_argv0 E M argv w1 = Some (Inr (w\<lparr>own := o2\<rparr>)) \<and> mini_ready M argv a0 es (lin w) o2 \<and>
    (\<forall>x. mini_objects M argv a0 es x \<or> o2 x = own w x)"
proof -
  have s: "list_all env_string es" "holds (lin w) (dpmi_env M) (env_block es)" "dpmi_env M \<noteq> 0"
    "unat (dpmi_env M) + length (env_block es) \<le> 2 ^ 31" "0 \<notin> set a0"
    "holds (lin w) (load32 (own w) argv) (a0 @ [0])" "length a0 < 2 ^ 31"
    "malloc_ok E (4 * (of_nat (length es) + 1))" "malloc_ok E (of_nat (length a0) + 1)"
    "apart (argv0_obj M) (length a0 + 1) (envp_obj M) (4 * length es + 4)"
    "apart (envp_obj M) (4 * length es + 4) argv 4" "apart (argv0_obj M) (length a0 + 1) argv 4"
    using assms unfolding mini_start_def by blast+
  obtain n where n: "env_ends (lin w) (dpmi_env M) n" "n + 2 = length (env_block es)"
    "map (c_string (lin w)) (env_starts (lin w) (dpmi_env M) n False) = map Some es"
    using env_block_found [OF s(1,2)] by blast
  define ps where "ps = env_starts (lin w) (dpmi_env M) n False"
  have ps: "length ps = length es" "0 \<notin> set ps"
    using arg_cong [OF n(3), of length] env_starts_nonzero [OF s(3)] n(2) s(4) by (simp_all add: ps_def)
  let ?o1 = "store_bytes (own w) (envp_obj M) (pointer_bytes (ps @ [0]))"
  let ?o2 = "store32 (store_bytes ?o1 (argv0_obj M) (a0 @ [0])) argv (argv0_obj M)"
  have b: "build_envp E M w = Some (Inr (of_nat (length es), w\<lparr>own := ?o1\<rparr>))" "4 * length es + 4 \<le> 2 ^ 32"
    using build_envp_eq [OF n(1) _ ps_def, of E] n(2) s(4,8) ps(1) by simp_all
  have "apart (envp_obj M) (length (pointer_bytes (ps @ [0]))) argv 4" using s(11) ps(1) by simp
  then have arg: "load32 ?o1 argv = load32 (own w) argv"
    by (simp add: load32_def load_bytes_store_apart)
  have cp: "copy_argv0 E M argv (w\<lparr>own := ?o1\<rparr>) = Some (Inr (w\<lparr>own := ?o2\<rparr>))"
    using c_string_holds [OF s(5,6)] s(9) arg by (simp add: copy_argv0_def)
  have "holds ?o1 (envp_obj M) (pointer_bytes (ps @ [0]))"
    using load_store_bytes [of "pointer_bytes (ps @ [0])"] b(2) ps(1) by (simp add: holds_load)
  then have "holds ?o2 (envp_obj M) (pointer_bytes (ps @ [0]))"
    using s(10,11) ps(1) b(2) by (simp add: store32_def holds_store_apart apart_sym)
  moreover have "holds (store_bytes ?o1 (argv0_obj M) (a0 @ [0])) (argv0_obj M) (a0 @ [0])"
    using load_store_bytes [of "a0 @ [0]"] s(7) by (simp add: holds_load)
  then have "holds ?o2 (argv0_obj M) (a0 @ [0])"
    using apart_sym [OF s(12)] s(7) by (simp add: store32_def holds_store_apart)
  moreover have "load32 ?o2 argv = argv0_obj M" by simp
  moreover have "\<forall>m'. (\<forall>x. env_area M es x \<longrightarrow> m' x = lin w x) \<longrightarrow> map (c_string m') ps = map Some es"
    using env_strings_cong [OF s(1,2) n(1,2)] s(4) by (simp add: ps_def)
  ultimately have "mini_ready M argv a0 es (lin w) ?o2"
    using ps(2) b(2) s(5,7) unfolding mini_ready_def by blast
  moreover have "\<forall>x. mini_objects M argv a0 es x \<or> ?o2 x = own w x"
    using ps(1) by (simp add: mini_objects_def store32_def store_bytes_def)
  ultimately show ?thesis using b(1) cp by blast
qed

section \<open>The assembly\<close>

lemma query_run:
  assumes "v = int_call E 0x2f (w\<lparr>eax := 0x168a, esi := p\<rparr>)"
  shows "exec E [s, q, p] (body DPMIQueryExtension) (start w) =
    (if eax v AND 0xff = 0
     then start (v\<lparr>ebx := q, own := store32 (store16 (own v) s (seg_es v)) q (edi v), seg_es := seg_es w,
       eax := eax v AND 0xffff00ff, cf := False, zf := True\<rparr>)
     else \<lparr>stk = [seg_es w, 0], faulty = False, leave_to = None, wld = v\<lparr>cf := False, zf := False\<rparr>\<rparr>)"
proof -
  have "hi16 (ucast x :: u32) = 0" for x :: u16
    by (rule bit_word_eqI) (auto simp: hi16_def bit_simps dest: bit_imp_le_length)
  then show ?thesis
    using assms by (simp add: DPMIQueryExtension_def exec_asm store_own32_def store_own16_def)
qed

lemma low_byte_cleared:
  assumes "(x :: u32) AND 0xff = 0"
  shows "x AND 0xffff00ff = x AND 0xffff0000"
proof -
  have "(0xffff00ff :: u32) = 0xffff0000 OR 0xff" by simp
  then have "x AND 0xffff00ff = x AND 0xffff0000 OR x AND 0xff"
    by (simp only: bit.conj_disj_distrib)
  then show ?thesis using assms by simp
qed

lemma call_query:
  assumes "v = int_call E 0x2f (w\<lparr>eax := 0x168a, esi := p\<rparr>)"
  shows "call_c E DPMIQueryExtension [s, q, p] w =
    (if eax v AND 0xff = 0
     then (eax v AND 0xffff0000, v\<lparr>ebx := q, own := store32 (store16 (own v) s (seg_es v)) q (edi v),
       seg_es := seg_es w, eax := eax v AND 0xffff0000, cf := False, zf := True\<rparr>)
     else (eax v, v\<lparr>cf := False, zf := False\<rparr>))"
  using query_run [OF assms, of s q] low_byte_cleared [of "eax v"]
  by (simp add: call_c_def Let_def) (simp add: start_def DPMIQueryExtension_def)

definition stub_regs :: "u32 \<Rightarrow> u32 \<Rightarrow> u32 \<Rightarrow> u32 \<Rightarrow> u32 \<Rightarrow> u32 \<Rightarrow> 'h world \<Rightarrow> 'h world" where
  "stub_regs ax argc argv envc envp fd w = w\<lparr>cf := False, zf := (ax = 0), eax := ax, ecx := argc,
     edx := argv, ebx := envc, esi := envp, edi := fd\<rparr>"

lemma enter_stub_run:
  assumes "v = far_call E (lo16 sel) off
      (stub_regs (psp OR push_bit 16 ver) argc argv envc envp fd w)"
  shows "exec E [sel, off, argc, argv, envc, envp, psp, fd, ver] (body enter_stub) (start w) =
    start (v\<lparr>cf := False, zf := False\<rparr>)"
  using assms by (simp add: enter_stub_def exec_asm stub_regs_def)

lemma load16_of_store32: "load16 (store32 m a x) a = lo16 x" "load16 (store32 m a x) (a + 2) = hi16 x"
proof -
  have h: "holds (store32 m a x) a (bytes16 (lo16 x) @ bytes16 (hi16 x))"
    using load_store_bytes [of "bytes32 x" m a] by (simp add: holds_load store32_def bytes32_halves)
  then have "holds (store32 m a x) a (bytes16 (lo16 x))" "holds (store32 m a x) (a + 2) (bytes16 (hi16 x))"
    unfolding holds_append by simp_all
  then show "load16 (store32 m a x) a = lo16 x" "load16 (store32 m a x) (a + 2) = hi16 x"
    by (simp_all add: holds_load load16_def)
qed

lemma psp_and_version:
  fixes psp :: u16 and ver :: u32
  shows "lo16 (ucast psp OR push_bit 16 ver) = psp" "hi16 (ucast psp OR push_bit 16 ver) = lo16 ver"
proof -
  show "lo16 (ucast psp OR push_bit 16 ver) = psp"
    by (rule bit_word_eqI) (auto simp: lo16_def bit_simps)
  show "hi16 (ucast psp OR push_bit 16 ver) = lo16 ver"
    by (rule bit_word_eqI) (auto simp: lo16_def hi16_def bit_simps dest: bit_imp_le_length)
qed

lemma env_fill_total: "env_ends m (env + i) n \<Longrightarrow> \<exists>r. env_fill m env envp i l c o1 = Some r"
proof (induction n arbitrary: i l c o1)
  case 0
  then show ?case by (subst env_fill.simps) (simp add: add.assoc)
next
  case (Suc n)
  then have "env_ends m (env + (i + 1)) n" by (simp add: add.assoc)
  from Suc.IH [OF this] show ?case using Suc.prems by (subst env_fill.simps) (auto simp: add.assoc)
qed

lemma build_envp_total: "env_ends (lin w) (dpmi_env M) n \<Longrightarrow> \<exists>r. build_envp E M w = Some r"
  using env_count_pass [of "lin w" "dpmi_env M" 0 n False 0]
    env_fill_total [of "lin w" "dpmi_env M" 0 n "envp_obj M" False 0]
  by (fastforce simp: build_envp_def Let_def)

lemma map_Client_started: "map_sum id Client_started z \<noteq> Inr (Stub_returned r u)"
  by (cases z) simp_all

text \<open>\<open>main\<close> from a regular start: the branch behind the query.\<close>

definition queried :: "'h env \<Rightarrow> mini_env \<Rightarrow> bytes list \<Rightarrow> 'h world \<Rightarrow> u32 \<times> 'h world" where
  "queried E M es w = (if getenv_set es (ascii ''COMCOM_FULLSTUB'') then (1, w)
     else call_c E DPMIQueryExtension [sel_var M, off_var M, ext_name M] w)"

lemma main_regular:
  assumes "mini_start E M argv a0 es w" "argc \<noteq> 0"
  obtains o2 err w3 where "mini_ready M argv a0 es (lin w) o2"
    "\<forall>x. mini_objects M argv a0 es x \<or> o2 x = own w x" "queried E M es (w\<lparr>own := o2\<rparr>) = (err, w3)"
    "main E M open_file argc argv w = (if err \<noteq> 0 then builtin_loader E M open_file argv w3
       else hosted_loader E M open_file argc argv (of_nat (length es)) w3)"
proof -
  obtain w1 o2 where p: "build_envp E M w = Some (Inr (of_nat (length es), w1))"
    "copy_argv0 E M argv w1 = Some (Inr (w\<lparr>own := o2\<rparr>))" "mini_ready M argv a0 es (lin w) o2"
    "\<forall>x. mini_objects M argv a0 es x \<or> o2 x = own w x"
    using mini_prepared [OF assms(1)] by blast
  obtain err w3 where q: "queried E M es (w\<lparr>own := o2\<rparr>) = (err, w3)" by fastforce
  have "envp_strings (lin w) o2 (envp_obj M) = Some es"
    using mini_ready_strings(1) [of M argv a0 es "w\<lparr>own := o2\<rparr>"] p(3) by simp
  then have "main E M open_file argc argv w = (if err \<noteq> 0 then builtin_loader E M open_file argv w3
       else hosted_loader E M open_file argc argv (of_nat (length es)) w3)"
    using assms(2) p(1,2) q by (simp add: main_def queried_def)
  then show ?thesis using that p(3,4) q by blast
qed

text \<open>
  A host that leaves the statics and the environment of the program alone while it answers the query: the
  objects of \<open>main\<close> are as before, when they lie apart from \<open>sel\<close>, \<open>off\<close> and the two bytes behind \<open>off\<close>.
\<close>

definition query_spares :: "'h env \<Rightarrow> mini_env \<Rightarrow> bytes list \<Rightarrow> bool" where
  "query_spares E M es \<longleftrightarrow> (\<forall>u. eax u = 0x168a \<longrightarrow> own (int_call E 0x2f u) = own u \<and>
     (\<forall>x. env_area M es x \<longrightarrow> lin (int_call E 0x2f u) x = lin u x))"

lemma queried_own:
  assumes "queried E M es w = (err, w3)" "\<forall>u. eax u = 0x168a \<longrightarrow> own (int_call E 0x2f u) = own u"
    and "\<not> in_region x (sel_var M) 2" "\<not> in_region x (off_var M) 4"
  shows "own w3 x = own w x"
  using assms by (auto simp: queried_def call_query [OF refl] store16_def store32_def store_bytes_outside
      split: if_splits)

lemma queried_ready:
  assumes "mini_ready M argv a0 es (lin w) o2" "queried E M es (w\<lparr>own := o2\<rparr>) = (err, w3)" "query_spares E M es"
    and "\<forall>x. mini_objects M argv a0 es x \<longrightarrow> \<not> in_region x (sel_var M) 2 \<and> \<not> in_region x (off_var M) 4"
  shows "mini_ready M argv a0 es (lin w3) (own w3)"
proof (rule mini_ready_keeps [OF assms(1)])
  have "\<forall>u. eax u = 0x168a \<longrightarrow> own (int_call E 0x2f u) = own u" using assms(3) by (simp add: query_spares_def)
  then show "\<forall>x. mini_objects M argv a0 es x \<longrightarrow> own w3 x = o2 x"
    using queried_own [OF assms(2)] assms(4) by simp
  show "\<forall>x. env_area M es x \<longrightarrow> lin w3 x = lin w x"
    using assms(2,3) by (auto simp: queried_def call_query [OF refl] query_spares_def split: if_splits)
qed

lemma queried_refused:
  assumes "queried E M es w = (err, w3)"
    and "getenv_set es (ascii ''COMCOM_FULLSTUB'') \<or> (\<forall>u. eax u = 0x168a \<longrightarrow>
      eax (int_call E 0x2f u) AND 0xff \<noteq> 0 \<and> own (int_call E 0x2f u) = own u \<and>
      lin (int_call E 0x2f u) = lin u)"
  shows "err \<noteq> 0 \<and> own w3 = own w \<and> lin w3 = lin w"
proof -
  let ?v = "int_call E 0x2f (w\<lparr>eax := 0x168a, esi := ext_name M\<rparr>)"
  have "getenv_set es (ascii ''COMCOM_FULLSTUB'') \<or>
      eax ?v AND 0xff \<noteq> 0 \<and> own ?v = own w \<and> lin ?v = lin w"
    using assms(2) by (auto dest!: spec [of _ "w\<lparr>eax := 0x168a, esi := ext_name M\<rparr>"])
  moreover have "eax ?v AND 0xff \<noteq> 0 \<Longrightarrow> eax ?v \<noteq> 0" by auto
  ultimately show ?thesis
    using assms(1) by (auto simp: queried_def call_query [OF refl] split: if_splits)
qed

lemma builtin_loader_ready:
  assumes "mini_ready M argv a0 es (lin w) (own w)"
  shows "builtin_loader E M open_file argv w =
    map_option (map_sum id Client_started) (fullstub E open_file [a0] es w)"
  using mini_ready_strings [OF assms] by (simp add: builtin_loader_def)

text \<open>
  Neither pass reads behind the pair of NULs that ends the block: the result depends on the \<open>n + 2\<close>
  bytes of the block only.
\<close>

lemma envp_reads_block_only:
  assumes "env_ends (lin w) (dpmi_env M) n" "n + 1 < 2 ^ 31"
    and "\<forall>x. in_region x (dpmi_env M) (n + 2) \<longrightarrow> m x = lin w x"
  shows "build_envp E M (w\<lparr>lin := m\<rparr>) =
    map_option (map_sum id (\<lambda>(c, v). (c, v\<lparr>lin := m\<rparr>))) (build_envp E M w)"
proof -
  have "m (dpmi_env M + of_nat k) = lin w (dpmi_env M + of_nat k)" if "k < n + 2" for k
    using assms(2,3) that by (simp add: in_region_offset)
  then have same: "env_ends m (dpmi_env M) n" "env_starts m (dpmi_env M) n False =
      env_starts (lin w) (dpmi_env M) n False"
    using env_block_cong [of n m "dpmi_env M" "lin w"] assms(1) by auto
  have "env_ends (lin (w\<lparr>lin := m\<rparr>)) (dpmi_env M) n" using same(1) by simp
  from build_envp_eq [OF this assms(2) refl, of E] build_envp_eq [OF assms(1,2) refl, of E]
  show ?thesis by (simp add: same(2))
qed

section \<open>Properties\<close>

text \<open>
  C31. The two passes of \<open>main\<close> agree: on a block whose first pair of NULs is \<open>n\<close> bytes behind its start, the
  first pass counts the strings, the request is for one pointer more, and the second pass fills exactly
  that array: the addresses at which a string starts, in order, and the \<open>NULL\<close> behind them. No byte
  outside of the array is written, whatever the block holds, and neither pass reads behind the pair of
  NULs: on every memory with the same \<open>n + 2\<close> bytes the result is the same.
\<close>

theorem envp_passes_agree:
  assumes "env_ends (lin w) (dpmi_env M) n" "n + 1 < 2 ^ 31"
  shows "let ps = env_starts (lin w) (dpmi_env M) n False in
    build_envp E M w = Some (if malloc_ok E (4 * (of_nat (length ps) + 1))
      then Inr (of_nat (length ps), w\<lparr>own := store_bytes (own w) (envp_obj M) (pointer_bytes (ps @ [0]))\<rparr>)
      else Inl Bad_access) \<and>
    (\<forall>m. (\<forall>x. in_region x (dpmi_env M) (n + 2) \<longrightarrow> m x = lin w x) \<longrightarrow>
      build_envp E M (w\<lparr>lin := m\<rparr>) =
        map_option (map_sum id (\<lambda>(c, v). (c, v\<lparr>lin := m\<rparr>))) (build_envp E M w))"
  using build_envp_eq [OF assms refl] envp_reads_block_only [OF assms] by (simp only: Let_def) blast

text \<open>A block with two strings and its start in an otherwise empty machine.\<close>

definition sample_block :: "bytes list" where
  "sample_block = [ascii ''A=1'', ascii ''BB=2'']"

definition sample_mini :: mini_env where
  "sample_mini = \<lparr>dpmi_env = 0x1000, envp_obj = 0x5000, argv0_obj = 0x6000, sel_var = 0x7000,
     off_var = 0x7004, ext_name = 0x7008\<rparr>"

definition mini_world :: "bytes list \<Rightarrow> unit world" where
  "mini_world es = quiet_world\<lparr>lin := store_bytes (store_bytes (\<lambda>_. 0) 0x1000 (env_block es)) 0x2000 [0x41, 0],
     own := store32 (\<lambda>_. 0) 0x4000 0x2000\<rparr>"

lemma sample_block_facts:
  "list_all env_string sample_block" "length (env_block sample_block) = 10" "length sample_block = 2"
  "\<not> getenv_set sample_block (ascii ''COMCOM_FULLSTUB'')"
  by (simp_all add: sample_block_def env_string_def env_block_def ascii_def getenv_set_def)

lemma sample_mini_start:
  assumes "malloc_ok E = (\<lambda>_. True)" "list_all env_string es" "length (env_block es) \<le> 0x1000"
    and "length es \<le> 0x100"
  shows "mini_start E sample_mini 0x4000 [0x41] es (mini_world es)"
proof -
  have block: "holds (lin (mini_world es)) 0x1000 (env_block es)"
  proof -
    have "apart 0x2000 (length [0x41 :: u8, 0]) 0x1000 (length (env_block es))"
      using assms(3) by (simp add: apart_def)
    then show ?thesis
      using load_store_bytes [of "env_block es" "\<lambda>_. 0" "0x1000"] assms(3)
      by (simp add: mini_world_def holds_load load_bytes_store_apart)
  qed
  have arg: "load32 (own (mini_world es)) 0x4000 = 0x2000" by (simp add: mini_world_def)
  have "holds (lin (mini_world es)) 0x2000 [0x41, 0]"
    unfolding mini_world_def holds_load using load_store_bytes [of "[0x41 :: u8, 0]"] by simp
  moreover have "apart 0x6000 (Suc (Suc 0)) 0x5000 (4 * length es + 4)" "apart 0x5000 (4 * length es + 4) 0x4000 4"
    "apart 0x6000 (Suc (Suc 0)) 0x4000 4"
    using assms(4) by (simp_all add: apart_def)
  ultimately show ?thesis
    using assms block arg by (simp add: mini_start_def sample_mini_def)
qed

lemma sample_start: "mini_start quiet_env sample_mini 0x4000 [0x41] sample_block (mini_world sample_block)"
  by (rule sample_mini_start) (simp_all add: sample_block_facts quiet_env_def)

lemma sample_env:
  "env_ends (lin (mini_world sample_block)) (dpmi_env sample_mini) 8"
  "length (env_starts (lin (mini_world sample_block)) (dpmi_env sample_mini) 8 False) = 2"
proof -
  let ?w = "mini_world sample_block"
  have "holds (lin ?w) (dpmi_env sample_mini) (env_block sample_block)"
    using sample_start by (simp add: mini_start_def)
  then obtain n where n: "env_ends (lin ?w) (dpmi_env sample_mini) n" "n + 2 = 10"
    "map (c_string (lin ?w)) (env_starts (lin ?w) (dpmi_env sample_mini) n False) = map Some sample_block"
    using env_block_found [OF sample_block_facts(1)] sample_block_facts(2) by auto
  then have "n = 8" by simp
  then show "env_ends (lin ?w) (dpmi_env sample_mini) 8"
    "length (env_starts (lin ?w) (dpmi_env sample_mini) 8 False) = 2"
    using n(1) arg_cong [OF n(3), of length] by (simp_all add: sample_block_facts)
qed

theorem envp_passes_agree_witness:
  "\<exists>w1 w2. build_envp quiet_env sample_mini (mini_world sample_block) = Some (Inr (2, w1)) \<and>
    build_envp quiet_env sample_mini ((mini_world sample_block)\<lparr>lin := (\<lambda>x. if in_region x 0x1000 10
      then lin (mini_world sample_block) x else 7)\<rparr>) = Some (Inr (2, w2)) \<and> own w2 = own w1"
proof -
  let ?m = "\<lambda>x. if in_region x 0x1000 10 then lin (mini_world sample_block) x else 7"
  have "\<forall>x. in_region x (dpmi_env sample_mini) (8 + 2) \<longrightarrow> ?m x = lin (mini_world sample_block) x"
    by (simp add: sample_mini_def)
  then show ?thesis
    using envp_passes_agree [OF sample_env(1), of quiet_env] sample_env(2)
    by (auto simp: Let_def quiet_env_def dest!: spec [of _ ?m])
qed

text \<open>
  C32. The construction of \<open>envp\<close> ends if and only if there is a pair of NULs anywhere in memory; an
  environment without one is read for ever.
\<close>

theorem envp_built_iff:
  "(\<exists>r. build_envp E M w = Some r) = (\<exists>x. lin w x = 0 \<and> lin w (x + 1) = 0)"
proof
  assume "\<exists>r. build_envp E M w = Some r"
  then obtain c where "env_count (lin w) (dpmi_env M) 0 False 0 = Some c"
    by (auto simp: build_envp_def split: option.splits)
  then show "\<exists>x. lin w x = 0 \<and> lin w (x + 1) = 0"
    using env_count_ends env_ends_pair by blast
next
  assume "\<exists>x. lin w x = 0 \<and> lin w (x + 1) = 0"
  then obtain x where x: "lin w x = 0 \<and> lin w (x + 1) = 0" by blast
  have "dpmi_env M + of_nat (unat (x - dpmi_env M)) = x" by simp
  then obtain n where "env_ends (lin w) (dpmi_env M) n"
    using env_ends_ex [of "lin w" "dpmi_env M" "unat (x - dpmi_env M)"] x by (simp only:) blast
  then show "\<exists>r. build_envp E M w = Some r" by (rule build_envp_total)
qed

text \<open>
  C34. Round trip: from a block that holds the strings \<open>es\<close> (none empty) \<open>main\<close> builds an \<open>envp\<close> from which
  exactly \<open>es\<close> can be read back, with \<open>envc\<close> their number; \<open>argv[0]\<close> reads as before, now from the program's
  own memory; and nothing but the array, the copy and the pointer to it has been written. An empty
  block counts as no strings.
\<close>

theorem envp_round_trip:
  assumes "mini_start E M argv a0 es w"
  shows "\<exists>w1 w2. build_envp E M w = Some (Inr (of_nat (length es), w1)) \<and>
    copy_argv0 E M argv w1 = Some (Inr w2) \<and> (\<exists>o2. w2 = w\<lparr>own := o2\<rparr>) \<and>
    envp_strings (lin w2) (own w2) (envp_obj M) = Some es \<and> argv0_string argv w2 = Some a0 \<and>
    load32 (own w2) argv = argv0_obj M \<and>
    (\<forall>x. in_region x (envp_obj M) (4 * length es + 4) \<or> in_region x (argv0_obj M) (length a0 + 1) \<or>
      in_region x argv 4 \<or> own w2 x = own w x)"
proof -
  obtain w1 o2 where p: "build_envp E M w = Some (Inr (of_nat (length es), w1))"
    "copy_argv0 E M argv w1 = Some (Inr (w\<lparr>own := o2\<rparr>))" "mini_ready M argv a0 es (lin w) o2"
    "\<forall>x. mini_objects M argv a0 es x \<or> o2 x = own w x"
    using mini_prepared [OF assms] by blast
  have "load32 o2 argv = argv0_obj M" using p(3) by (auto simp: mini_ready_def)
  then show ?thesis
    using p mini_ready_strings [of M argv a0 es "w\<lparr>own := o2\<rparr>"]
    by (intro exI [of _ w1] exI [of _ "w\<lparr>own := o2\<rparr>"]) (auto simp: mini_objects_def)
qed

theorem envp_round_trip_witness:
  "\<exists>w1 w2. build_envp quiet_env sample_mini (mini_world sample_block) = Some (Inr (2, w1)) \<and>
    copy_argv0 quiet_env sample_mini 0x4000 w1 = Some (Inr w2) \<and>
    envp_strings (lin w2) (own w2) 0x5000 = Some sample_block"
  using envp_round_trip [OF sample_start] sample_block_facts(3) by (auto simp: sample_mini_def)

text \<open>
  C35. \<open>DPMIQueryExtension\<close> asks the host with the name in \<open>esi\<close>. When the host answers 0 in \<open>al\<close>, the entry
  is stored, \<open>es\<close> is restored and the result has a zero low half; its high half is what the host left in
  \<open>eax\<close>, so that only a host that clears it is seen to support the extension. The entry offset is stored
  as 32 bits through a pointer to 16: the two bytes behind \<open>off\<close> are overwritten, and reading back 16 bits
  loses the high half. Otherwise the result is the host's \<open>eax\<close>, not 0, nothing is stored, and \<open>es\<close> keeps
  the host's value: the saved one stays on the stack.
\<close>

theorem query_extension:
  "let v = int_call E 0x2f (w\<lparr>eax := 0x168a, esi := p\<rparr>);
       (rc, u) = call_c E DPMIQueryExtension [s, q, p] w;
       m = exec E [s, q, p] (body DPMIQueryExtension) (start w) in
    lin u = lin v \<and> host u = host v \<and> uses_args DPMIQueryExtension \<and>
    (if eax v AND 0xff = 0
     then lo16 rc = 0 \<and> hi16 rc = hi16 (eax v) \<and> seg_es u = seg_es w \<and> clean m \<and>
       own u = store32 (store16 (own v) s (seg_es v)) q (edi v) \<and>
       load16 (own u) q = lo16 (edi v) \<and> load16 (own u) (q + 2) = hi16 (edi v)
     else rc = eax v \<and> rc \<noteq> 0 \<and> seg_es u = seg_es v \<and> own u = own v \<and> stk m = [seg_es w, 0])"
proof -
  define v where "v = int_call E 0x2f (w\<lparr>eax := 0x168a, esi := p\<rparr>)"
  have "lo16 (x AND 0xffff0000) = 0" "hi16 (x AND 0xffff0000) = hi16 x" for x
  proof -
    have m: "(0xffff0000 :: u32) = push_bit 16 (mask 16)" by (simp add: mask_numeral)
    show "lo16 (x AND 0xffff0000) = 0"
      unfolding m by (rule bit_word_eqI) (auto simp: lo16_def bit_simps)
    show "hi16 (x AND 0xffff0000) = hi16 x"
      unfolding m by (rule bit_word_eqI) (auto simp: hi16_def bit_simps)
  qed
  moreover have "uses_args DPMIQueryExtension" by (simp add: uses_args_def DPMIQueryExtension_def)
  ultimately show ?thesis
    unfolding Let_def v_def [symmetric] call_query [OF v_def] query_run [OF v_def]
    by (auto simp: clean_def start_def load16_of_store32)
qed

text \<open>A host with the extension at 1234:5678ABCD.\<close>

definition ext_env :: "unit env" where
  "ext_env = init_env\<lparr>int_call := (\<lambda>n w. if eax w = 0x168a
     then w\<lparr>eax := 0, seg_es := 0x1234, edi := 0x5678ABCD\<rparr> else int_call init_env n w)\<rparr>"

text \<open>
  \<open>enter_stub\<close> calls the extension at \<open>sel:off\<close> with its arguments in registers: \<open>argc\<close>, \<open>argv\<close>, \<open>envc\<close>,
  \<open>envp\<close> and the file in \<open>ecx\<close>, \<open>edx\<close>, \<open>ebx\<close>, \<open>esi\<close>, \<open>edi\<close>; \<open>eax\<close> carries the PSP selector in its low half
  and the versions in its high half, and neither disturbs the other. The result is the extension's
  \<open>eax\<close>, and the stack is balanced.
\<close>

lemma enter_stub_marshals:
  fixes psp :: u16 and ver :: u32
  shows "let x = w\<lparr>cf := False, zf := (ucast psp OR push_bit 16 ver = (0 :: u32)),
         eax := ucast psp OR push_bit 16 ver, ecx := argc, edx := argv, ebx := envc, esi := envp, edi := fd\<rparr>;
       v = far_call E (lo16 sel) off x;
       A = [sel, off, argc, argv, envc, envp, ucast psp, fd, ver] in
    lo16 (eax x) = psp \<and> hi16 (eax x) = lo16 ver \<and>
    call_c E enter_stub A w = (eax v, v\<lparr>cf := False, zf := False\<rparr>) \<and>
    clean (exec E A (body enter_stub) (start w)) \<and> uses_args enter_stub"
proof -
  have "uses_args enter_stub" by (simp add: uses_args_def enter_stub_def)
  moreover have "\<not> returns0 enter_stub" by (simp add: enter_stub_def)
  ultimately show ?thesis
    using psp_and_version [of psp ver]
    unfolding Let_def call_c_def enter_stub_run [OF refl]
    by (simp add: stub_regs_def clean_def) (simp add: start_def)
qed

text \<open>
  C38. \<open>main\<close> enters the extension only after everything it needs has been done. When \<open>main\<close> returns from
  it, the host had accepted the query and the switch to protected mode, \<open>COMCOM_FULLSTUB\<close> was not set, the
  program file was open under the name in the copied \<open>argv[0]\<close>, and the extension was called at the
  stored selector and 16-bit offset with the API version 5 and the stub version 9, the new PSP selector,
  and the array that holds the environment.
\<close>

theorem main_enters_extension:
  assumes "mini_start E M argv a0 es w"
    and "main E M open_file argc argv w = Some (Inr (Stub_returned r u))"
  shows "argc \<noteq> 0 \<and> \<not> getenv_set es (ascii ''COMCOM_FULLSTUB'') \<and>
    (\<exists>w2 w3 a f psp w4 v. envp_strings (lin w2) (own w2) (envp_obj M) = Some es \<and>
      argv0_string argv w2 = Some a0 \<and>
      call_c E DPMIQueryExtension [sel_var M, off_var M, ext_name M] w2 = (0, w3) \<and>
      argv0_string argv w3 = Some a \<and> open_file a = Some f \<and>
      dpmi_init E 0 w3 = Inr (0, psp, w4) \<and>
      v = far_call E (load16 (own w4) (sel_var M)) (ucast (load16 (own w4) (off_var M)))
        (stub_regs (ucast (the psp) OR 0x09050000) argc argv (of_nat (length es)) (envp_obj M) (f_fd f) w4) \<and>
      r = eax v \<and> u = v\<lparr>cf := False, zf := False\<rparr>)"
proof -
  have argc: "argc \<noteq> 0" using assms(2) by (auto simp: main_def)
  obtain o2 err w3 where p: "mini_ready M argv a0 es (lin w) o2" "queried E M es (w\<lparr>own := o2\<rparr>) = (err, w3)"
    "main E M open_file argc argv w = (if err \<noteq> 0 then builtin_loader E M open_file argv w3
       else hosted_loader E M open_file argc argv (of_nat (length es)) w3)"
    using main_regular [OF assms(1) argc] by metis
  let ?w2 = "w\<lparr>own := o2\<rparr>"
  have str: "envp_strings (lin ?w2) (own ?w2) (envp_obj M) = Some es" "argv0_string argv ?w2 = Some a0"
    using mini_ready_strings [of M argv a0 es ?w2] p(1) by simp_all
  have err: "err = 0"
  proof (rule ccontr)
    assume "err \<noteq> 0"
    then have "builtin_loader E M open_file argv w3 = Some (Inr (Stub_returned r u))"
      using p(3) assms(2) by simp
    then show False by (auto simp: builtin_loader_def Option.bind_eq_Some_conv map_Client_started)
  qed
  then have env: "\<not> getenv_set es (ascii ''COMCOM_FULLSTUB'')"
    "call_c E DPMIQueryExtension [sel_var M, off_var M, ext_name M] ?w2 = (0, w3)"
    using p(2) by (auto simp: queried_def split: if_splits)
  have "DJSTUB_API_VER OR push_bit 8 MINISTUB_VER = 0x905" "push_bit 16 (0x905 :: u32) = 0x09050000"
    by (simp_all add: DJSTUB_API_VER_def MINISTUB_VER_def)
  then have call: "call_c E enter_stub [ucast (s :: u16), off, argc, argv, n, envp, psp, fd,
      DJSTUB_API_VER OR push_bit 8 MINISTUB_VER] x =
     (let v = far_call E s off (stub_regs (psp OR 0x09050000) argc argv n envp fd x)
      in (eax v, v\<lparr>cf := False, zf := False\<rparr>))" for s off n envp psp fd x
    by (simp add: call_c_def enter_stub_run [OF refl] Let_def) (simp add: start_def enter_stub_def)
  have hosted: "hosted_loader E M open_file argc argv (of_nat (length es)) w3 = Some (Inr (Stub_returned r u))"
    using p(3) assms(2) err by simp
  obtain a f psp w4 where h: "argv0_string argv w3 = Some a" "open_file a = Some f"
    "dpmi_init E 0 w3 = Inr (0, psp, w4)"
    "(let (err, w5) = call_c E enter_stub
       [ucast (load16 (own w4) (sel_var M)), ucast (load16 (own w4) (off_var M)), argc, argv,
        of_nat (length es), envp_obj M, ucast (the psp), f_fd f, DJSTUB_API_VER OR push_bit 8 MINISTUB_VER] w4
      in Inr (Stub_returned err w5)) = (Inr (Stub_returned r u) :: stop + 'a outcome)"
    using hosted
    by (auto simp: hosted_loader_def Option.bind_eq_Some_conv bindR_Inr_iff split: option.splits if_splits)
  show ?thesis
    using argc env str h(1-3) h(4) [unfolded call Let_def prod.case] by blast
qed

lemma sample_slots:
  assumes "mini_objects sample_mini 0x4000 [0x41] sample_block x"
  shows "\<not> in_region x (sel_var sample_mini) 2 \<and> \<not> in_region x (off_var sample_mini) 4"
proof -
  have "apart 0x7000 2 0x5000 12" "apart 0x7000 2 0x6000 2" "apart 0x7000 2 0x4000 4"
    "apart 0x7004 4 0x5000 12" "apart 0x7004 4 0x6000 2" "apart 0x7004 4 0x4000 4"
    by (simp_all add: apart_def)
  note out = this [THEN apart_not_in]
  have "in_region x 0x5000 12 \<or> in_region x 0x6000 2 \<or> in_region x 0x4000 4"
    using assms by (simp add: mini_objects_def sample_mini_def sample_block_facts numeral_2_eq_2)
  then show ?thesis using out unfolding sample_mini_def by auto
qed

lemma ext_env_init: "\<exists>u. dpmi_init ext_env para w = Inr (0, Some 0xA7, u)"
  by (simp add: dpmi_init_eq Let_def probe_reply_def ext_env_def init_env_def shrink_low_def quiet_env_def
      regs_zero_def pool_moved_def switched_def switch_done_def int2f_entry_def)

lemma ext_env_start: "mini_start ext_env sample_mini 0x4000 [0x41] sample_block (mini_world sample_block)"
  by (rule sample_mini_start) (simp_all add: sample_block_facts ext_env_def init_env_def quiet_env_def)

lemma ext_env_main:
  "\<exists>r u. main ext_env sample_mini (\<lambda>_. Some (sample_file [])) 1 0x4000 (mini_world sample_block) =
    Some (Inr (Stub_returned r u))"
proof -
  let ?w = "mini_world sample_block" and ?o = "\<lambda>_. Some (sample_file [])"
  obtain o2 err w3 where p: "mini_ready sample_mini 0x4000 [0x41] sample_block (lin ?w) o2"
    "queried ext_env sample_mini sample_block (?w\<lparr>own := o2\<rparr>) = (err, w3)"
    "main ext_env sample_mini ?o 1 0x4000 ?w = (if err \<noteq> 0 then builtin_loader ext_env sample_mini ?o 0x4000 w3
       else hosted_loader ext_env sample_mini ?o 1 0x4000 (of_nat (length sample_block)) w3)"
    using main_regular [OF ext_env_start, of 1 ?o] by (metis one_neq_zero)
  have kept: "query_spares ext_env sample_mini sample_block"
    by (simp add: query_spares_def ext_env_def)
  have err: "err = 0"
    using p(2) by (simp add: queried_def sample_block_facts call_query [OF refl]) (auto simp: ext_env_def)
  have "mini_ready sample_mini 0x4000 [0x41] sample_block (lin w3) (own w3)"
    using queried_ready [OF p(1,2) kept] sample_slots by simp
  then have "argv0_string 0x4000 w3 = Some [0x41]" by (rule mini_ready_strings)
  moreover obtain u where "dpmi_init ext_env 0 w3 = Inr (0, Some 0xA7, u)" using ext_env_init by blast
  ultimately show ?thesis using p(3) err by (simp add: hosted_loader_def Let_def split_def)
qed

theorem main_enters_extension_witness:
  "\<exists>r u psp. main ext_env sample_mini (\<lambda>_. Some (sample_file [])) 1 0x4000 (mini_world sample_block) =
    Some (Inr (Stub_returned r u)) \<and> r = ucast (psp :: u16) OR 0x09050000"
proof -
  obtain r u where m: "main ext_env sample_mini (\<lambda>_. Some (sample_file [])) 1 0x4000 (mini_world sample_block) =
      Some (Inr (Stub_returned r u))"
    using ext_env_main by blast
  have "eax (far_call ext_env s p w) = eax w" for s p w by (simp add: ext_env_def init_env_def)
  then show ?thesis
    using main_enters_extension [OF ext_env_start m] m by (auto simp: stub_regs_def)
qed

text \<open>
  C39. When \<open>COMCOM_FULLSTUB\<close> is set, or the host does not know the extension, \<open>main\<close> is the built-in
  loader, run with the name and the environment the program was started with, and in a machine whose
  memory differs from the one at the start in the three objects of \<open>main\<close> only.
\<close>

theorem main_falls_back:
  assumes "mini_start E M argv a0 es w" "argc \<noteq> 0"
    and "getenv_set es (ascii ''COMCOM_FULLSTUB'') \<or> (\<forall>u. eax u = 0x168a \<longrightarrow>
      eax (int_call E 0x2f u) AND 0xff \<noteq> 0 \<and> own (int_call E 0x2f u) = own u \<and>
      lin (int_call E 0x2f u) = lin u)"
  shows "\<exists>u. main E M open_file argc argv w =
      map_option (map_sum id Client_started) (fullstub E open_file [a0] es u) \<and> lin u = lin w \<and>
    (\<forall>x. mini_objects M argv a0 es x \<or> own u x = own w x)"
proof -
  obtain o2 err w3 where p: "mini_ready M argv a0 es (lin w) o2"
    "\<forall>x. mini_objects M argv a0 es x \<or> o2 x = own w x" "queried E M es (w\<lparr>own := o2\<rparr>) = (err, w3)"
    "main E M open_file argc argv w = (if err \<noteq> 0 then builtin_loader E M open_file argv w3
       else hosted_loader E M open_file argc argv (of_nat (length es)) w3)"
    using main_regular [OF assms(1,2)] by metis
  have q: "err \<noteq> 0" "own w3 = o2" "lin w3 = lin w"
    using queried_refused [OF p(3) assms(3)] by simp_all
  then show ?thesis using p builtin_loader_ready [of M argv a0 es w3] by auto
qed

lemma quiet_query: "eax (int_call quiet_env n u) = eax u" "own (int_call quiet_env n u) = own u"
  "lin (int_call quiet_env n u) = lin u"
  by (simp_all add: quiet_env_def)

theorem main_falls_back_witness:
  "main quiet_env sample_mini (\<lambda>_. None) 1 0x4000 (mini_world sample_block) = Some (Inl (Exit_failure Cannot_open))"
proof -
  have "getenv_set sample_block (ascii ''COMCOM_FULLSTUB'') \<or> (\<forall>u. eax u = 0x168a \<longrightarrow>
      eax (int_call quiet_env 0x2f u) AND 0xff \<noteq> 0 \<and> own (int_call quiet_env 0x2f u) = own u \<and>
      lin (int_call quiet_env 0x2f u) = lin u)"
    by (simp add: quiet_query)
  from main_falls_back [OF sample_start _ this, of 1 "\<lambda>_. None"]
  obtain u where u: "main quiet_env sample_mini (\<lambda>_. None) 1 0x4000 (mini_world sample_block) =
      map_option (map_sum id Client_started) (fullstub quiet_env (\<lambda>_. None) [[0x41]] sample_block u)"
    by auto
  have "fullstub quiet_env (\<lambda>_. None) [[0x41]] sample_block u = Some (Inl (Exit_failure Cannot_open))"
    by (simp add: fullstub_def find_payload_def split: option.splits)
  then show ?thesis using u by simp
qed

text \<open>
  C40. \<open>main\<close> always comes to an end, in the client, in the extension or in a diagnostic, when every stub
  header that the search reaches in the program file points behind itself and the host leaves the program's
  statics and environment block alone while it answers the query (\<open>query_spares\<close>).
\<close>

theorem main_returns:
  assumes "mini_start E M argv a0 es w" "\<forall>f. open_file a0 = Some f \<longrightarrow> ascending f"
    and "query_spares E M es"
    and "\<forall>x. mini_objects M argv a0 es x \<longrightarrow> \<not> in_region x (sel_var M) 2 \<and> \<not> in_region x (off_var M) 4"
  shows "\<exists>r. main E M open_file argc argv w = Some r"
proof (cases "argc = 0")
  case False
  obtain o2 err w3 where p: "mini_ready M argv a0 es (lin w) o2" "queried E M es (w\<lparr>own := o2\<rparr>) = (err, w3)"
    "main E M open_file argc argv w = (if err \<noteq> 0 then builtin_loader E M open_file argv w3
       else hosted_loader E M open_file argc argv (of_nat (length es)) w3)"
    using main_regular [OF assms(1) False] by metis
  have ready: "mini_ready M argv a0 es (lin w3) (own w3)" by (rule queried_ready [OF p(1,2) assms(3,4)])
  have "\<exists>r. fullstub E open_file [a0] es w3 = Some r"
    using fullstub_total [of open_file "[a0]"] assms(2) by simp
  moreover have "\<exists>r. hosted_loader E M open_file argc argv (of_nat (length es)) w3 = Some r"
    using mini_ready_strings(2) [OF ready] by (simp add: hosted_loader_def split: option.splits)
  ultimately show ?thesis using p(3) builtin_loader_ready [OF ready, of E open_file] by auto
qed (simp add: main_def)

text \<open>Two stub headers are followed to the program behind them.\<close>

theorem main_returns_witness:
  "\<exists>r. main quiet_env sample_mini (\<lambda>_. Some (sample_file sample_chain)) 1 0x4000 (mini_world sample_block) = Some r"
  by (rule main_returns [OF sample_start])
    (simp_all add: sample_chain_ascending query_spares_def quiet_query sample_slots)

end
