(* ===== verification/Boot.thy ===== *)
theory Boot
  imports Ministub Enter Payload
begin

text \<open>
  The parts put together: what a stubbed COFF or ELF program finds when it is entered, as a consequence of the
  component theorems, for \<open>fullstub\<close> and for the whole program started by DOS. The host is the documented
  DPMI host of \<open>Host\<close>, which may rewrite conventional memory and add descriptors while it is entered, as
  described in \<open>Enter\<close>.
\<close>

section \<open>A stubbed program\<close>

text \<open>A file with a chain of stub headers in front of an executable (or none, for a bare executable).\<close>

definition stubbed :: "cfile \<Rightarrow> payload \<Rightarrow> nat \<Rightarrow> bool" where
  "stubbed f P q \<longleftrightarrow> f_pos f = 0 \<and> f_bad f = [] \<and> length (f_data f) < 2 ^ 31 \<and>
     (\<exists>n. mz_chain (f_data f) 0 n q) \<and> payload_file (drop q (f_data f)) P"

text \<open>
  The program \<open>fullstub\<close> is to run: the file of this name with its stub headers, unless the environment has
  \<open>ELFEXEC\<close>, which names a bare ELF file.
\<close>

definition program_at :: "(bytes \<Rightarrow> cfile option) \<Rightarrow> bytes \<Rightarrow> bytes list \<Rightarrow> cfile \<Rightarrow> payload \<Rightarrow> nat \<Rightarrow> bool" where
  "program_at open_file name envp f P q \<longleftrightarrow> stubbed f P q \<and> (case elfexec envp of
     None \<Rightarrow> open_file name = Some f
   | Some x \<Rightarrow> open_file x = Some f \<and> q = 0 \<and> payload_ops P = Elf_ops)"

section \<open>The running program\<close>

text \<open>
  What the program finds at its entry: 32-bit code and data segments of page granularity that are flat from
  the same base, at which every segment of its file is in memory; the stub info block with this base in a
  writable segment of its own in \<open>fs\<close>; a data and a 16-bit code selector of the low memory block behind the PSP
  in that block; and in \<open>es\<close> a segment that starts where the stub's data segment does. \<open>dd\<close> is the descriptor
  of the stub's data segment.
\<close>

definition client_ready ::
  "'h env \<Rightarrow> 'h view \<Rightarrow> desc \<Rightarrow> bytes \<Rightarrow> payload \<Rightarrow> 'h launch \<Rightarrow> bool" where
  "client_ready E D dd file P l \<longleftrightarrow>
     (let v = wld (la_mach l); base = mem_base (la_info l) in
      (\<exists>cs dc. leave_to (la_mach l) = Some (cs, payload_entry P) \<and> D (host v) cs = Some dc \<and>
         seg_desc base 0xffffffff 0xc0fb dc) \<and>
      (\<exists>d. D (host v) (seg_ds v) = Some d \<and> seg_desc base 0xffffffff 0xc0f3 d) \<and>
      (\<exists>df. D (host v) (seg_fs v) = Some df \<and> d_base df = d_base dd + addr_stubinfo E \<and>
         d_limit df = of_nat STUBINFO_END - 1 \<and> writable (d_access df)) \<and>
      low_block (D (host v)) (la_info l) \<and> ds_segment (la_info l) = get_low_pool E \<and>
      minkeep (la_info l) = 0x4000 \<and>
      load_bytes (own v) (addr_stubinfo E) STUBINFO_END = stubinfo_image (la_info l) \<and>
      (\<exists>de. D (host v) (seg_es v) = Some de \<and> d_base de = d_base dd) \<and>
      (\<forall>s \<in> set (payload_segments P). segment_in file (\<lambda>x. lin v (base + x)) s))"

text \<open>From a found payload to the jump.\<close>

lemma loaded_and_entered:
  assumes host: "dpmi_host E D N" "card (dom (D (host w))) + 5 < N"
    and ds: "D (host w) (seg_ds w) = Some dd" "\<not> d_real dd"
    and lk: "linked E" "entry_apart E" "unat (dpmi_psp E) < 2 ^ 20" "entry_host E D"
    and fi: "hs_file s = f\<lparr>f_pos := q\<rparr>" "hs_coffset s = of_nat q" "info_inv (hs_info s)"
    and pf: "payload_file (drop q (f_data f)) P" "f_bad f = []" "length (f_data f) < 2 ^ 31" "q \<le> length (f_data f)"
    and mk: "malloc_ok E (payload_heap P)"
  shows "(\<exists>e \<in> host_refusals. load_client E argv envp (payload_ops P) s w = Some (Inl e)) \<or>
    (\<exists>g c v. load_client E argv envp (payload_ops P) s w = Some (Inr (g, c, v)) \<and>
      ((\<exists>e \<in> host_refusals. enter_client E c s g v = Inl e) \<or>
       (\<exists>l. enter_client E c s g v = Inr l \<and>
         client_ready E D dd (drop q (f_data f)) P l)))"
proof -
  obtain h f1 a where hd: "ld_read_headers E (payload_ops P) (hs_file s) scns_zero = (Inr (Inr h), f1, a)"
    and h: "ld_entry h = payload_entry P"
    and dl: "\<forall>y \<in> set (ld_plan h a). deliverable (hs_file s) (hs_coffset s) y"
    and spl: "sorted_wrt spares (ld_plan h a)"
    and lands: "\<forall>m. (\<forall>y \<in> set (ld_plan h a). landed (f_data (hs_file s)) (hs_coffset s) m y) \<longrightarrow>
      (\<forall>x \<in> set (payload_segments P). segment_in (drop q (f_data f)) m x)"
    and range: "payload_range P = (ld_va h, ld_va h + ld_length h)"
    using payload_ready [OF fi(1,2) pf mk] .
  let ?i = "fill_info E argv envp (ld_length h) (hs_info s)"
  have card: "card (dom (D (host w))) + 4 < N" using host(2) by simp
  show ?thesis
  proof (cases "setup_client E (ld_va h) (ld_entry h) ?i w")
    case (Inl e)
    then have "load_client E argv envp (payload_ops P) s w = Some (Inl (Exit_failure Alloc_failed))"
      using setup_client_stops [OF Inl] by (simp add: load_client_def hd Let_def)
    then show ?thesis by (auto simp: host_refusals_def)
  next
    case (Inr c)
    obtain g v where run: "load_client E argv envp (payload_ops P) s w = Some (Inr (g, c, v))"
      "far_effect E (cl_world c) v"
      "\<forall>y \<in> set (ld_plan h a). landed (f_data (hs_file s)) (hs_coffset s)
        (\<lambda>x. lin v (cl_lin c - ld_va h + x)) y"
      using load_client_lands [OF host(1) card ds lk(1) hd dl spl Inr] .
    note ok = setup_client_ok [OF host(1) card ds lk(1) _ Inr]
    note hv = far_effect_host [OF run(2)]
    let ?base = "cl_lin c - ld_va h"
    obtain dc dt df where d: "D (host v) (cl_cs c) = Some dc" "seg_desc ?base 0xffffffff 0xc0fb dc"
      "D (host v) (cl_ds c) = Some dt" "seg_desc ?base 0xffffffff 0xc0f3 dt"
      "D (host v) (cl_fs c) = Some df" "d_base df = d_base dd + addr_stubinfo E" "d_limit df = 0xa3"
      "writable (d_access df)" "\<not> d_real df"
      using ok unfolding hv by auto
    have blk: "low_block (D (host v)) (cl_info c)" using ok by (simp add: hv)
    have cv: "card (dom (D (host v))) < N" using ok host(2) by (simp add: hv)
    have ent: "load32 (own v) (addr_clnt_entry E) = payload_entry P"
      "load16 (own v) (addr_clnt_entry E + 4) = cl_cs c"
      using ok entry_loaded [OF lk(2) run(2)] h by simp_all
    have base: "mem_base (cl_info c) = ?base" using ok by simp
    have "seg_ds v = seg_ds w" using ok run(2) by (simp add: far_effect_def same_segs_def)
    then have dsv: "D (host v) (seg_ds v) = Some dd" using ok by (simp add: hv)
    have high: "segment_in (drop q (f_data f)) (\<lambda>x. m (?base + x)) x"
      if x: "x \<in> set (payload_segments P)" "\<forall>y. 0x110000 \<le> unat y \<longrightarrow> m y = lin v y" for m x
    proof (rule segment_in_cong)
      show "segment_in (drop q (f_data f)) (\<lambda>x. lin v (?base + x)) x" using lands run(3) x(1) by blast
      show "sg_filesz x \<le> sg_memsz x" using pf(1) x(1) by (simp add: payload_file_def segment_ok_def)
      fix k assume "k < unat (sg_memsz x)"
      note sp = payload_span [OF pf(1) range x(1) this]
      have "0x110000 \<le> unat (?base + (sg_vaddr x + of_nat k))"
        using block_address [OF sp, of "cl_lin c"] ok setup_client_high [OF lk(4,1) Inr] by simp
      then show "m (?base + (sg_vaddr x + of_nat k)) = lin v (?base + (sg_vaddr x + of_nat k))"
        using x(2) by simp
    qed
    have "info_inv ?i" using info_inv_fill [OF fi(3)] .
    moreover have "ds_segment ?i = get_low_pool E" by (simp add: fill_info_def)
    ultimately have inv: "info_inv (cl_info c)" "minkeep (cl_info c) = 0x4000" "ds_segment (cl_info c) = get_low_pool E"
      using setup_info [OF Inr] by (auto simp: info_inv_def stubinfo_ok_def)
    have "client_ready E D dd (drop q (f_data f)) P l"
      if l: "leave_to (la_mach l) = Some (cl_cs c, payload_entry P)"
        "\<forall>x. 0x110000 \<le> unat x \<longrightarrow> lin (wld (la_mach l)) x = lin v x"
        "keeps_desc (psp_base E) (D (host v)) (D (host (wld (la_mach l))))" "seg_fs (wld (la_mach l)) = cl_fs c"
        "seg_ds (wld (la_mach l)) = cl_ds c"
        "\<exists>e. D (host (wld (la_mach l))) (seg_es (wld (la_mach l))) = Some e \<and> d_base e = d_base dd"
        "la_info l = (payload_info s g (cl_info c))\<lparr>psp_selector := p\<rparr>"
        "load_bytes (own (wld (la_mach l))) (addr_stubinfo E) STUBINFO_END = stubinfo_image (la_info l)" for l p
    proof -
      have k: "D (host (wld (la_mach l))) (cl_cs c) = Some dc" "D (host (wld (la_mach l))) (cl_ds c) = Some dt"
        "D (host (wld (la_mach l))) (cl_fs c) = Some df"
        using l(3) d unfolding keeps_desc_def seg_desc_def by blast+
      have "low_block (D (host (wld (la_mach l)))) (cl_info c)"
        using low_block_keeps [OF blk l(3)] low_pool_not_psp [OF lk(3)] by (simp add: inv(3))
      then have "low_block (D (host (wld (la_mach l)))) (la_info l)"
        by (simp add: l(7) low_block_def payload_info_def)
      moreover have "mem_base (la_info l) = ?base" "minkeep (la_info l) = 0x4000"
        "ds_segment (la_info l) = get_low_pool E"
        by (simp_all add: l(7) payload_info_def base inv(2,3))
      ultimately show ?thesis
        using l(1,2,4-6,8) k d(2,4,6-8) high by (simp add: client_ready_def Let_def STUBINFO_END_def)
    qed
    then have "(\<exists>e \<in> host_refusals. enter_client E c s g v = Inl e) \<or>
        (\<exists>l. enter_client E c s g v = Inr l \<and> client_ready E D dd (drop q (f_data f)) P l)"
      using enter_client_entry [OF host(1) lk(4) cv lk(3,2) inv(1,2) dsv ds(2), of s g] unfolding ent by blast
    then show ?thesis using run(1) by blast
  qed
qed

lemma program_found:
  assumes "argv \<noteq> []" "program_at open_file (hd argv) envp f P q"
  obtains s where "find_payload open_file argv envp = Some (Inr (payload_ops P, s))" "hs_file s = f\<lparr>f_pos := q\<rparr>"
    "hs_coffset s = of_nat q" "payload_file (drop q (f_data f)) P" "f_bad f = []" "length (f_data f) < 2 ^ 31"
    "q \<le> length (f_data f)"
proof -
  obtain n where f: "f_pos f = 0" "f_bad f = []" "length (f_data f) < 2 ^ 31"
    "mz_chain (f_data f) 0 n q" "payload_file (drop q (f_data f)) P"
    using assms(2) unfolding program_at_def stubbed_def by blast
  have mag: "\<not> is_mz (drop q (f_data f))" "is_coff (drop q (f_data f)) \<or> is_elf (drop q (f_data f))"
    "payload_ops P = (if is_coff (drop q (f_data f)) then Coff_ops else Elf_ops)" "0x40 \<le> length (drop q (f_data f))"
    using payload_magic [of "drop q (f_data f)" P] f(5) unfolding payload_file_def by blast+
  have len: "q + 0x40 \<le> length (f_data f)" using mag(4) by simp
  show ?thesis
  proof (cases "elfexec envp")
    case None
    then have o: "open_file (hd argv) = Some f" using assms(2) by (simp add: program_at_def)
    let ?s = "(mz_run (f_data f) 0 n (scan_start f stubinfo_zero))\<lparr>hs_file := f\<lparr>f_pos := q\<rparr>\<rparr>"
    have "scan_headers (scan_start f stubinfo_zero) = Some (Inr (payload_ops P, ?s))" "unat (hs_coffset ?s) = q"
      using scan_chain_payload [OF f(4,1,2) len mag(1,2), of stubinfo_zero] mag(3) by simp_all
    then have "find_payload open_file argv envp = Some (Inr (payload_ops P, ?s))" "hs_coffset ?s = of_nat q"
      using assms(1) None o by (auto simp: find_payload_def)
    moreover have "hs_file ?s = f\<lparr>f_pos := q\<rparr>" "q \<le> length (f_data f)" using len by simp_all
    ultimately show ?thesis using that f by blast
  next
    case (Some x)
    then have o: "open_file x = Some f" "q = 0" "payload_ops P = Elf_ops"
      using assms(2) by (simp_all add: program_at_def)
    let ?s = "scan_start f (stubinfo_zero\<lparr>si_flags := si_flags stubinfo_zero OR SIFLG_ELFEXEC\<rparr>)"
    have "find_payload open_file argv envp = Some (Inr (payload_ops P, ?s))"
      using assms(1) Some o by (auto simp: find_payload_def)
    moreover have "hs_file ?s = f\<lparr>f_pos := q\<rparr>" "hs_coffset ?s = of_nat q" using f(1) o(2) by (simp_all add: scan_start_def)
    ultimately show ?thesis using that f len by simp
  qed
qed

lemma program_boots:
  assumes "dpmi_host E D N" "card (dom (D (host w))) + 5 < N"
    and "D (host w) (seg_ds w) = Some dd" "\<not> d_real dd"
    and "linked E" "entry_apart E" "unat (dpmi_psp E) < 2 ^ 20" "entry_host E D"
    and "argv \<noteq> []" "program_at open_file (hd argv) envp f P q"
    and "malloc_ok E (payload_heap P)"
  shows "\<exists>r. fullstub E open_file argv envp w = Some r \<and>
    (case r of Inl e \<Rightarrow> e \<in> host_refusals
     | Inr l \<Rightarrow> client_ready E D dd (drop q (f_data f)) P l)"
proof -
  obtain s where s: "find_payload open_file argv envp = Some (Inr (payload_ops P, s))" "hs_file s = f\<lparr>f_pos := q\<rparr>"
    "hs_coffset s = of_nat q" "payload_file (drop q (f_data f)) P" "f_bad f = []" "length (f_data f) < 2 ^ 31"
    "q \<le> length (f_data f)"
    using program_found [OF assms(9,10)] .
  show ?thesis
    using loaded_and_entered [OF assms(1-8) s(2,3) info_inv_found [OF s(1)] s(4-7) assms(11), of argv envp]
    by (auto simp: fullstub_def s(1))
qed

section \<open>Properties\<close>


text \<open>The sample chain of headers with its ELF program, and the sample COFF program without a stub.\<close>

definition sample_elf_payload :: payload where
  "sample_elf_payload = Elf_payload sample_Ehdr sample_phdrs"

definition sample_coff_payload :: payload where
  "sample_coff_payload = Coff_payload sample_coff_header sample_opt_header (sample_scn 0x1000 4 168)
     (sample_scn 0x2000 3 172) (sample_scn 0x3000 9 0)"

lemma sample_segments:
  "payload_segments sample_elf_payload = map phdr_segment sample_phdrs"
  "payload_segments sample_coff_payload =
     [scn_segment (sample_scn 0x1000 4 168), scn_segment (sample_scn 0x2000 3 172), bss_segment (sample_scn 0x3000 9 0)]"
  by (simp_all add: sample_elf_payload_def sample_coff_payload_def sample_loads)

lemma sample_elf_file: "payload_file sample_elf sample_elf_payload"
  unfolding payload_file_def
proof (intro conjI)
  have "sample_elf = Ehdr_image sample_Ehdr @ [] @ concat (map Phdr_image sample_phdrs) @ [1, 2, 3, 4, 5]"
    by (simp add: sample_elf_def)
  moreover have "unat (e_phoff sample_Ehdr) = 52 + length []" "sample_phdrs \<noteq> []"
    using sample_Ehdr_facts(7) by (simp_all add: sample_phdrs_def)
  ultimately show "payload_headers sample_elf sample_elf_payload"
    using sample_Ehdr_facts(1-6) sample_regular
    unfolding sample_elf_payload_def payload_headers.simps sample_loads by blast
  show "\<forall>s \<in> set (payload_segments sample_elf_payload). segment_ok sample_elf s"
    unfolding sample_segments by (simp add: sample_phdrs_def segment_ok_def) (simp add: sample_Phdr_def sample_elf_data)
  have "take (unat (eh_phnum sample_elf_h)) (eh_phdr sample_elf_h) = sample_phdrs"
    by (simp add: sample_elf_h_def sample_phdrs_def)
  then have "elf_plan sample_elf_h () = concat (map segment_plan sample_phdrs)"
    by (simp only: elf_plan_def sample_loads)
  then show "sorted_wrt spares (payload_plan sample_elf_payload)"
    using sample_elf_spares [of "()"] by (simp add: sample_elf_payload_def sample_loads)
qed

lemma sample_coff_length: "length sample_coff = 175"
  by (simp add: sample_coff_def sample_scns_def length_scns_image named_def sample_scn_def)

lemma sample_coff_data: "drop 168 sample_coff = [1, 2, 3, 4, 5, 6, 7]"
proof -
  have "length (coff_header_image sample_coff_header @ opt_header_image sample_opt_header @ sample_scns) = 168"
    by (simp add: sample_scns_def length_scns_image named_def sample_scn_def)
  then show ?thesis by (simp add: sample_coff_def)
qed

lemma sample_coff_file: "payload_file sample_coff sample_coff_payload"
  unfolding payload_file_def
proof (intro conjI)
  have nm: "named (sample_scn va sz ptr)" for va sz ptr by (simp add: named_def sample_scn_def)
  have "sample_coff = coff_header_image sample_coff_header @ opt_header_image sample_opt_header @ [] @
      scns_image (sample_scn 0x1000 4 168) (sample_scn 0x2000 3 172) (sample_scn 0x3000 9 0) @ [1, 2, 3, 4, 5, 6, 7]"
    by (simp add: sample_coff_def sample_scns_def)
  moreover have "unat (f_opthdr sample_coff_header) = 28 + length []" "f_magic sample_coff_header = 0x14c"
    by (simp_all add: sample_coff_header_def)
  moreover have "\<forall>s \<in> {sample_scn 0x1000 4 168, sample_scn 0x2000 3 172, sample_scn 0x3000 9 0}.
      unat (s_vaddr s) + unat (s_size s) \<le> unat (s_vaddr (sample_scn 0x3000 9 0)) + unat (s_size (sample_scn 0x3000 9 0))"
    by (simp add: sample_scn_def)
  ultimately show "payload_headers sample_coff sample_coff_payload"
    using nm unfolding sample_coff_payload_def payload_headers.simps by blast
  show "\<forall>s \<in> set (payload_segments sample_coff_payload). segment_ok sample_coff s"
    unfolding sample_segments by (simp add: segment_ok_def sample_coff_length) (simp add: sample_scn_def)
  show "sorted_wrt spares (payload_plan sample_coff_payload)"
    by (simp add: sample_coff_payload_def spares_apart apart_def sample_scn_def)
qed

lemma sample_stubbed:
  "stubbed (sample_file sample_chain) sample_elf_payload 0x80" "stubbed (sample_file sample_coff) sample_coff_payload 0"
proof -
  have "\<exists>n. mz_chain sample_chain 0 n 0x80" using sample_chain_chain(1) by blast
  then show "stubbed (sample_file sample_chain) sample_elf_payload 0x80"
    using sample_elf_file
    by (simp add: stubbed_def sample_file_def sample_chain_facts(3,4) sample_elf_data(1))
  have "\<exists>n. mz_chain sample_coff 0 n 0" using mz_chain.simps(1) by blast
  then show "stubbed (sample_file sample_coff) sample_coff_payload 0"
    using sample_coff_file by (simp add: stubbed_def sample_file_def sample_coff_length)
qed

lemma sample_program_at:
  "program_at (\<lambda>_. Some (sample_file sample_chain)) name sample_block (sample_file sample_chain) sample_elf_payload 0x80"
  "program_at (\<lambda>_. Some (sample_file sample_coff)) name sample_block (sample_file sample_coff) sample_coff_payload 0"
  using sample_stubbed by (simp_all add: program_at_def sample_block_def ascii_def)

lemma sample_ranges:
  "payload_range sample_elf_payload = (0x1000, 0x1000 + 0x1002)" "payload_range sample_coff_payload = (0, 0 + 0x3009)"
  by (simp_all add: sample_elf_payload_def sample_coff_payload_def sample_scan) (simp add: sample_scn_def)

lemma ref_real: "real_law ref_env ref_view"
proof -
  have "unat (push_bit 4 (ucast s) + 3 :: u32) < 0x110000" for s :: u16
  proof -
    have s: "unat s < 2 ^ 16" using unsigned_less [of s] by simp
    then have "unat (push_bit 4 (ucast s) :: u32) = 16 * unat s"
      by (subst unat_paragraphs) (simp_all add: unat_ucast_u16)
    then have "unat (push_bit 4 (ucast s) + 3 :: u32) = 16 * unat s + 3"
      using s by (simp add: unat_word_ariths)
    then show ?thesis using s by simp
  qed
  then have "x \<noteq> push_bit 4 (ucast s) + 3" if "0x110000 \<le> unat x" for x :: u32 and s :: u16
    using that by (metis not_less)
  then show ?thesis
    by (auto simp: real_law_def low_only_def ref_env_def ref_int_def Let_def)
qed

lemma ref_switch_law: "switch_law ref_env ref_view"
  unfolding switch_law_def Let_def
proof (intro allI impI)
  fix u w :: "ref_host world"
  have "map_le (ref_view (host w)) (ref_view (host (ref_switch w)))"
    by (auto simp: ref_switch_def ref_view_def Let_def intro: map_le_new)
  moreover have "seg_ds (ref_switch w) = seg_ds w" "own (ref_switch w) = own w" "lin (ref_switch w) = lin w"
    by (simp_all add: ref_switch_def Let_def)
  ultimately show "own (far_call ref_env (seg_es (int_call ref_env 0x2f u)) (edi (int_call ref_env 0x2f u)) w) = own w \<and>
      (\<forall>y. 0x110000 \<le> unat y \<longrightarrow>
        lin (far_call ref_env (seg_es (int_call ref_env 0x2f u)) (edi (int_call ref_env 0x2f u)) w) y = lin w y) \<and>
      map_le (ref_view (host w))
        (ref_view (host (far_call ref_env (seg_es (int_call ref_env 0x2f u)) (edi (int_call ref_env 0x2f u)) w))) \<and>
      (\<forall>d. ref_view (host w) (seg_ds w) = Some d \<longrightarrow>
        (\<exists>e. ref_view (host (far_call ref_env (seg_es (int_call ref_env 0x2f u)) (edi (int_call ref_env 0x2f u)) w))
          (seg_ds (far_call ref_env (seg_es (int_call ref_env 0x2f u)) (edi (int_call ref_env 0x2f u)) w)) = Some e \<and>
          d_base e = d_base d))"
    by (force simp: ref_env_def map_le_def)
qed

lemma ref_entry: "entry_host ref_env ref_view"
  using ref_real ref_switch_law
  by (simp add: entry_host_def ref_env_def ref_int_def pool_law_def resize_law_def
      high_law_def pair32_def lo16_def Let_def)

lemma ref_entry_apart: "entry_apart ref_env" "unat (dpmi_psp ref_env) < 2 ^ 20"
  by (simp_all add: entry_apart_def ref_env_def apart_def)

lemma ref_room: "card (dom (ref_view (host (ref_world [(0x17, sample_ds)])))) + 5 < 8192"
  by (simp add: ref_view_def ref_world_def)

text \<open>The reference host refuses nothing a small program needs.\<close>

lemma small_client:
  assumes "argv \<noteq> []" "program_at open_file (hd argv) envp f P q"
    and small: "payload_range P = (va, va + n)" "n \<le> 0x10000"
    and host: "card (dom (ref_view (host w))) + 5 < 8192" "ref_view (host w) (seg_ds w) = Some dd" "\<not> d_real dd"
  shows "\<exists>l. fullstub ref_env open_file argv envp w = Some (Inr l)"
proof -
  obtain s where s: "find_payload open_file argv envp = Some (Inr (payload_ops P, s))" "hs_file s = f\<lparr>f_pos := q\<rparr>"
    "hs_coffset s = of_nat q" "payload_file (drop q (f_data f)) P" "f_bad f = []"
    "length (f_data f) < 2 ^ 31" "q \<le> length (f_data f)"
    using program_found [OF assms(1,2)] .
  have "malloc_ok ref_env k" for k by (simp add: ref_env_def)
  then have "malloc_ok ref_env (payload_heap P)" .
  obtain h f1 a where h: "ld_read_headers ref_env (payload_ops P) (hs_file s) scns_zero = (Inr (Inr h), f1, a)"
    "\<forall>y \<in> set (ld_plan h a). deliverable (hs_file s) (hs_coffset s) y" "sorted_wrt spares (ld_plan h a)"
    "payload_range P = (ld_va h, ld_va h + ld_length h)"
    by (rule payload_ready [OF s(2-7) \<open>malloc_ok ref_env (payload_heap P)\<close>])
  have "va + n = va + ld_length h" using h(4) small(1) by auto
  then have "ld_length h = n" by simp
  then have "initial_size (fill_info ref_env argv envp (ld_length h) (hs_info s)) = 0x10000"
    using small(2) by (simp add: leD)
  then obtain c where c: "setup_client ref_env (ld_va h) (ld_entry h)
      (fill_info ref_env argv envp (ld_length h) (hs_info s)) w = Inr c"
    using ref_setup_runs by blast
  have card: "card (dom (ref_view (host w))) + 4 < 8192" using host(1) by simp
  obtain g v where "load_client ref_env argv envp (payload_ops P) s w = Some (Inr (g, c, v))"
    using load_client_lands [OF ref_host_laws card host(2,3) ref_linked h(1-3) c] .
  then show ?thesis using ref_enter_client [of c s g v] by (auto simp: fullstub_def s(1))
qed


text \<open>\<open>main\<close> before the loaders: the query leaves the segments of the program alone.\<close>

lemma queried_entry:
  assumes "queried E M es w = (err, w3)" "entry_host E D"
  shows "D (host w3) = D (host w)" "seg_ds w3 = seg_ds w"
    "err = 0 \<Longrightarrow> \<not> getenv_set es (ascii ''COMCOM_FULLSTUB'')"
proof -
  have k: "low_only D u (int_call E 0x2f u)" if "eax u = 0x168a" for u
    using assms(2) that by (simp add: entry_host_def real_law_def)
  have "D (host w3) = D (host w) \<and> seg_ds w3 = seg_ds w \<and>
      (err = 0 \<longrightarrow> \<not> getenv_set es (ascii ''COMCOM_FULLSTUB''))"
    using assms(1) k [of "w\<lparr>eax := 0x168a, esi := ext_name M\<rparr>"]
    by (auto simp: queried_def call_query [OF refl] low_only_def split: if_splits)
  then show "D (host w3) = D (host w)" "seg_ds w3 = seg_ds w"
    "err = 0 \<Longrightarrow> \<not> getenv_set es (ascii ''COMCOM_FULLSTUB'')" by simp_all
qed

lemma hosted_ends:
  assumes "argv0_string argv w = Some a0" "open_file a0 = Some f"
  shows "(\<exists>e \<in> insert (Exit_failure Dpmi_unavailable) host_refusals.
      hosted_loader E M open_file argc argv envc w = Some (Inl e)) \<or>
    (\<exists>x u. hosted_loader E M open_file argc argv envc w = Some (Inr (Stub_returned x u)))"
proof (cases "dpmi_init E 0 w")
  case (Inl e)
  then show ?thesis using dpmi_init_refuses [OF Inl] by (auto simp: hosted_loader_def assms)
next
  case (Inr r)
  then show ?thesis by (cases r) (auto simp: hosted_loader_def assms Let_def split_def)
qed


text \<open>The start of the sample program on the reference host.\<close>

definition boot_world :: "ref_host world" where
  "boot_world = (ref_world [(0x17, sample_ds)])\<lparr>lin := lin (mini_world sample_block),
     own := own (mini_world sample_block)\<rparr>"

lemma boot_world_start: "mini_start ref_env sample_mini 0x4000 [0x41] sample_block boot_world"
  using sample_start by (simp add: mini_start_def boot_world_def ref_env_def)

lemma sample_main:
  "\<exists>l. main ref_env sample_mini (\<lambda>_. Some (sample_file sample_chain)) 1 0x4000 boot_world =
    Some (Inr (Client_started l))"
proof -
  let ?o = "\<lambda>_ :: bytes. Some (sample_file sample_chain)"
  obtain o2 err w3 where p: "mini_ready sample_mini 0x4000 [0x41] sample_block (lin boot_world) o2"
    "queried ref_env sample_mini sample_block (boot_world\<lparr>own := o2\<rparr>) = (err, w3)"
    "main ref_env sample_mini ?o 1 0x4000 boot_world = (if err \<noteq> 0 then builtin_loader ref_env sample_mini ?o 0x4000 w3
       else hosted_loader ref_env sample_mini ?o 1 0x4000 (of_nat (length sample_block)) w3)"
    using main_regular [OF boot_world_start, of 1 ?o] by (metis one_neq_zero)
  have "\<forall>u. eax u = 0x168a \<longrightarrow> eax (int_call ref_env 0x2f u) AND 0xff \<noteq> 0 \<and>
      own (int_call ref_env 0x2f u) = own u \<and> lin (int_call ref_env 0x2f u) = lin u"
    by (simp add: ref_env_def ref_int_def Let_def)
  then have q: "err \<noteq> 0" "own w3 = o2" "lin w3 = lin boot_world"
    using queried_refused [OF p(2)] by simp_all
  have w3: "ref_view (host w3) = ref_view (host boot_world)" "seg_ds w3 = seg_ds boot_world"
    using queried_entry(1,2) [OF p(2) ref_entry] by simp_all
  have b: "host boot_world = host (ref_world [(0x17, sample_ds)])"
    "seg_ds boot_world = seg_ds (ref_world [(0x17, sample_ds)])"
    by (simp_all add: boot_world_def)
  have "[[0x41 :: u8]] \<noteq> []" by simp
  from small_client [OF this sample_program_at(1) sample_ranges(1), of w3 sample_ds] 
  obtain l where "fullstub ref_env ?o [[0x41]] sample_block w3 = Some (Inr l)"
    using ref_room sample_stub_world(2,3) by (auto simp: w3 b)
  moreover have "builtin_loader ref_env sample_mini ?o 0x4000 w3 =
      map_option (map_sum id Client_started) (fullstub ref_env ?o [[0x41]] sample_block w3)"
    by (rule builtin_loader_ready) (use p(1) q in simp)
  ultimately show ?thesis using p(3) q(1) by simp
qed


end
