(* ===== verification/Stubify.thy ===== *)
theory Stubify
  imports Headers
begin

text \<open>
  \<open>djstubify2.py\<close>: the tool that writes the headers \<open>fullstub\<close> reads. It puts the stub in front of a program
  (\<open>coff2exe\<close>), takes it off again or strips debug information, and generates files with several payloads.
  Files are byte lists; the options are those after \<open>getopt\<close>, with numeric arguments already converted.
  What is only printed is left out. Unbounded integers are \<open>nat\<close> where the code keeps them non-negative and
  \<open>int\<close> where it does not.
\<close>

section \<open>Header fields\<close>

text \<open>A message and an exit code, a failing \<open>assert\<close>, or an exception that nobody handles.\<close>

datatype py_error = Reported | Assertion_error | Raised

text \<open>The members of \<open>ObjType\<close>, by value.\<close>

definition OT_COFF :: nat where "OT_COFF = 0"
definition OT_DJ32 :: nat where "OT_DJ32 = 1"
definition OT_E64 :: nat where "OT_E64 = 3"
definition OT_D64 :: nat where "OT_D64 = 4"
definition OT_D32 :: nat where "OT_D32 = 5"

text \<open>The loops of \<open>find_idx\<close> and \<open>find_offs\<close> over the nibbles of the type map; \<open>None\<close> stands for \<open>-1\<close>.\<close>

fun find_idx_loop :: "nat \<Rightarrow> nat \<Rightarrow> nat \<Rightarrow> nat option" where
  "find_idx_loop type_val type_map cnt =
     (if type_map = 0 then None
      else if type_map mod 16 = type_val then Some cnt
      else find_idx_loop type_val (type_map div 16) (cnt + 1))"

definition find_idx :: "nat \<Rightarrow> bytes \<Rightarrow> nat option" where
  "find_idx type_val buf =
     (let type_map = unat (get16 buf 0x36) in
      if type_val = 0 \<and> type_map = 0 then Some 0 else find_idx_loop type_val type_map 0)"

definition find_size :: "nat \<Rightarrow> bytes \<Rightarrow> nat option" where
  "find_size type_val buf = (case find_idx type_val buf of
     None \<Rightarrow> None | Some idx \<Rightarrow> Some (unat (get32 buf (0x1c + idx * 4))))"

fun find_offs_loop :: "nat \<Rightarrow> nat \<Rightarrow> nat \<Rightarrow> nat \<Rightarrow> bytes \<Rightarrow> nat option" where
  "find_offs_loop type_val type_map offs cnt buf =
     (if type_map = 0 then None
      else if type_map mod 16 = type_val then Some offs
      else find_offs_loop type_val (type_map div 16) (offs + unat (get32 buf (0x1c + cnt * 4))) (cnt + 1) buf)"

definition find_offs :: "nat \<Rightarrow> bytes \<Rightarrow> nat option" where
  "find_offs type_val buf =
     (let type_map = unat (get16 buf 0x36) in
      if type_val = 0 \<and> type_map = 0 then Some 0 else find_offs_loop type_val type_map 0 0 buf)"

declare find_idx_loop.simps [simp del] find_offs_loop.simps [simp del]

text \<open>
  Assignment to a slice of a \<open>memoryview\<close>; \<open>to_bytes\<close> raises when the value does not fit, the assignment
  when the slice is shorter.
\<close>

definition patch :: "bytes \<Rightarrow> nat \<Rightarrow> bytes \<Rightarrow> bytes" where
  "patch buf k xs = take k buf @ xs @ drop (k + length xs) buf"

definition write_u16 :: "bytes \<Rightarrow> nat \<Rightarrow> int \<Rightarrow> py_error + bytes" where
  "write_u16 buf offset v =
     (if v < 0 \<or> 2 ^ 16 \<le> v \<or> length buf < offset + 2 then Inl Raised
      else Inr (patch buf offset (bytes16 (of_int v))))"

definition write_u32 :: "bytes \<Rightarrow> nat \<Rightarrow> int \<Rightarrow> py_error + bytes" where
  "write_u32 buf offset v =
     (if v < 0 \<or> 2 ^ 32 \<le> v \<or> length buf < offset + 4 then Inl Raised
      else Inr (patch buf offset (bytes32 (of_int v))))"

section \<open>Reading an executable\<close>

record stubify_mode =
  sm_info :: bool
  sm_rmstub :: bool
  sm_strip :: bool

text \<open>The variables of the loop in \<open>coff2exe\<close>; the counters \<open>rmoverlay\<close> and \<open>can_copy_ovl\<close> are only tested.\<close>

record exe_scan =
  es_coffset :: int
  es_mzhdr :: bytes
  es_size :: int
  es_rmoverlay :: bool
  es_can_copy :: bool
  es_stub_v :: u8
  es_flags :: u16

definition exe_start :: exe_scan where
  "exe_start = \<lparr>es_coffset = 0, es_mzhdr = replicate 0x40 0, es_size = 0, es_rmoverlay = False,
     es_can_copy = False, es_stub_v = 0, es_flags = 0\<rparr>"

text \<open>The inner loop over the payloads: \<open>type_val\<close>, \<open>sz\<close>, \<open>i\<close> and \<open>offs\<close> when it ends.\<close>

fun overlay_loop :: "bytes \<Rightarrow> nat \<Rightarrow> nat \<Rightarrow> nat \<Rightarrow> nat \<Rightarrow> nat \<Rightarrow> nat \<times> nat \<times> nat \<times> nat" where
  "overlay_loop buf type_map type_val sz i offs =
     (if type_map = 0 then (type_val, sz, i, offs)
      else let t = type_map mod 16; n = unat (get32 buf (0x1c + i * 4)) in
        if n = 0 then (t, n, i, offs)
        else overlay_loop buf (type_map div 16) t n (i + 1) (offs + n))"

declare overlay_loop.simps [simp del]

text \<open>The branch for a header of the stub; \<open>True\<close> means that the outer loop is left.\<close>

definition stub_header :: "stubify_mode \<Rightarrow> bytes \<Rightarrow> exe_scan \<Rightarrow> py_error + (bool \<times> exe_scan)" where
  "stub_header o1 buf s =
     (if buf ! 0x3b < 8 then Inl Reported else
      let flags = get16 buf 0x38;
          dj32 = flags AND 0x2000 \<noteq> 0; elf = flags AND 0x80 \<noteq> 0;
          offs = unat (get32 buf 0x3c);
          s1 = s\<lparr>es_stub_v := buf ! 0x3b, es_flags := flags, es_coffset := int offs, es_mzhdr := buf,
             es_can_copy := True, es_rmoverlay := es_rmoverlay s \<or> sm_rmstub o1 \<or> sm_strip o1\<rparr> in
      if \<not> (sm_info o1 \<or> es_rmoverlay s1) then Inr (False, s1) else
      let type_map = unat (get16 buf 0x36);
          (type_val, sz, i, offs1) = (if type_map = 0 then (0, unat (get32 buf 0x1c), 0, offs)
                                      else overlay_loop buf type_map 0 0 0 offs) in
      if sm_rmstub o1 then
        let tp = (if elf then if dj32 then OT_DJ32 else OT_E64 else OT_COFF) in
        (case (find_offs tp buf, find_size tp buf) of
           (Some off, Some n) \<Rightarrow> Inr (True, s1\<lparr>es_coffset := int offs + int off, es_size := int n\<rparr>)
         | _ \<Rightarrow> Inl Reported)
      else if sm_strip o1 \<and> (type_val = OT_D64 \<or> type_val = OT_D32) then
        if i \<le> 1 then Inl Assertion_error
        else bindR (write_u32 buf (0x1c + (i - 1) * 4) 0)
          (\<lambda>hdr. Inr (False, s1\<lparr>es_size := int offs1 - int sz - int offs, es_mzhdr := hdr\<rparr>))
      else Inr (False, s1))"

text \<open>One pass of the outer loop.\<close>

definition exe_step :: "stubify_mode \<Rightarrow> bytes \<Rightarrow> exe_scan \<Rightarrow> py_error + (bool \<times> exe_scan)" where
  "exe_step o1 inp s =
     (if es_coffset s < 0 then Inl Raised else
      let buf = take 0x40 (drop (nat (es_coffset s)) inp) in
      if length buf < 0x40 then Inl Assertion_error else
      if buf ! 0 = 0x4d \<and> buf ! 1 = 0x5a then
        if buf ! 8 = 4 \<and> buf ! 9 = 0 then stub_header o1 buf s
        else
          let blocks = int (unat (buf ! 4)) + int (unat (buf ! 5)) * 256;
              partial = int (unat (buf ! 2)) + int (unat (buf ! 3)) * 256 in
          Inr (False, s\<lparr>es_coffset := es_coffset s + blocks * 512 + (if partial \<noteq> 0 then partial - 512 else 0)\<rparr>)
      else if is_coff buf then
        if es_stub_v s \<noteq> 0 \<and> es_flags s AND 0x80 \<noteq> 0 then Inl Reported else Inr (True, s)
      else if is_elf buf then
        if es_stub_v s \<noteq> 0 \<and> es_flags s AND 0x80 = 0 then Inl Reported else Inr (True, s)
      else Inr (True, s))"

partial_function (option) exe_loop ::
  "stubify_mode \<Rightarrow> bytes \<Rightarrow> exe_scan \<Rightarrow> (py_error + exe_scan) option" where
  "exe_loop o1 inp s = (case exe_step o1 inp s of
      Inl e \<Rightarrow> Some (Inl e)
    | Inr (fin, s1) \<Rightarrow> (if fin then Some (Inr s1) else exe_loop o1 inp s1))"

section \<open>Writing an executable\<close>

text \<open>The loop that copies the program, 4096 bytes at a time.\<close>

function copy_loop :: "bool \<Rightarrow> int \<Rightarrow> bytes \<Rightarrow> bytes" where
  "copy_loop rmoverlay left rest =
     (if left \<le> 0 then [] else
      let chunk = (if rmoverlay then min 4096 (nat left) else 4096);
          buf = take chunk rest in
      if buf = [] then [] else
      let out = (if rmoverlay \<and> left < int (length buf) then take (nat left) buf else buf) in
      out @ copy_loop rmoverlay (if rmoverlay then left - int (length out) else left) (drop chunk rest))"
  by pat_completeness auto
termination
  by (relation "measure (\<lambda>(_, _, rest). length rest)") (auto simp: min_def split: if_splits)

declare copy_loop.simps [simp del]

text \<open>
  \<open>coff2exe\<close> on the stub image and the contents of the input: \<open>None\<close> as a result means that only
  information was printed, \<open>Some\<close> is the file written.
\<close>

definition coff2exe ::
  "stubify_mode \<Rightarrow> bytes \<Rightarrow> u8 \<Rightarrow> bytes \<Rightarrow> (py_error + bytes option) option" where
  "coff2exe o1 stub stub_ver inp = (case exe_loop o1 inp exe_start of
      None \<Rightarrow> None
    | Some (Inl e) \<Rightarrow> Some (Inl e)
    | Some (Inr s) \<Rightarrow>
        let ver = (if es_stub_v s \<noteq> 0 then es_stub_v s else stub_ver);
            left = (if es_size s = 0 then int (length inp) - es_coffset s else es_size s) in
        Some (bindR (if es_can_copy s then Inr (patch stub 0x1c (take 0x20 (drop 0x1c (es_mzhdr s))))
                     else write_u32 stub 0x1c left) (\<lambda>b1.
              bindR (write_u32 (b1[0x3b := ver]) 0x3c (int (length stub))) (\<lambda>b2.
              if sm_info o1 then Inr None
              else Inr (Some ((if sm_rmstub o1 then [] else b2) @
                copy_loop (es_rmoverlay s) left (drop (nat (es_coffset s)) inp)))))))"

section \<open>The options and \<open>main\<close>\<close>

text \<open>The options in the order of the command line; \<open>-d\<close> only makes the tool talk, \<open>-v\<close> and \<open>-h\<close> print and exit.\<close>

datatype sopt = Opt_V int | Opt_i | Opt_r | Opt_s | Opt_g | Opt_l bytes | Opt_t int | Opt_n int
  | Opt_f int | Opt_o bytes | Opt_S bytes

record stubify_args =
  sa_mode :: stubify_mode
  sa_stub :: "bytes option"
  sa_ver :: int
  sa_req :: int
  sa_generate :: bool
  sa_overlay :: "bytes list"
  sa_type_map :: int
  sa_type_val :: int
  sa_type_shift :: nat
  sa_nmoffs :: int
  sa_flags :: int
  sa_oname :: bytes

definition args_start :: stubify_args where
  "args_start = \<lparr>sa_mode = \<lparr>sm_info = False, sm_rmstub = False, sm_strip = False\<rparr>, sa_stub = None,
     sa_ver = 8, sa_req = 0, sa_generate = False, sa_overlay = [], sa_type_map = 0, sa_type_val = 0,
     sa_type_shift = 0, sa_nmoffs = 0, sa_flags = 0, sa_oname = []\<rparr>"

text \<open>\<open>files\<close> maps the names of readable files to their contents.\<close>

fun apply_opt :: "(bytes \<Rightarrow> bytes option) \<Rightarrow> sopt \<Rightarrow> stubify_args \<Rightarrow> py_error + stubify_args" where
  "apply_opt files (Opt_V v) a =
     (if v = 0 \<or> sa_ver a < v then Inl Reported
      else if v = sa_ver a - 1 then Inr (a\<lparr>sa_req := v, sa_ver := v\<rparr>)
      else if v < sa_ver a - 1 then Inl Reported
      else Inr (a\<lparr>sa_req := v\<rparr>))"
| "apply_opt files Opt_i a = Inr (a\<lparr>sa_mode := (sa_mode a)\<lparr>sm_info := True\<rparr>\<rparr>)"
| "apply_opt files Opt_r a = Inr (a\<lparr>sa_mode := (sa_mode a)\<lparr>sm_rmstub := True\<rparr>\<rparr>)"
| "apply_opt files Opt_s a = Inr (a\<lparr>sa_mode := (sa_mode a)\<lparr>sm_strip := True\<rparr>\<rparr>)"
| "apply_opt files Opt_g a = Inr (a\<lparr>sa_generate := True\<rparr>)"
| "apply_opt files (Opt_l name) a =
     (if sa_type_val a = 0 then Inl Reported
      else Inr (a\<lparr>sa_overlay := sa_overlay a @ [name], sa_type_shift := sa_type_shift a + 4\<rparr>))"
| "apply_opt files (Opt_t v) a =
     (if v = 0 then Inl Reported
      else Inr (a\<lparr>sa_type_val := v, sa_type_map := sa_type_map a OR push_bit (sa_type_shift a) v\<rparr>))"
| "apply_opt files (Opt_n v) a = Inr (a\<lparr>sa_nmoffs := v\<rparr>)"
| "apply_opt files (Opt_f v) a = Inr (a\<lparr>sa_flags := sa_flags a OR v\<rparr>)"
| "apply_opt files (Opt_o name) a = Inr (a\<lparr>sa_oname := name\<rparr>)"
| "apply_opt files (Opt_S name) a = (case files name of
      None \<Rightarrow> Inl Reported | Some stub \<Rightarrow> Inr (a\<lparr>sa_stub := Some stub\<rparr>))"

fun apply_opts :: "(bytes \<Rightarrow> bytes option) \<Rightarrow> sopt list \<Rightarrow> stubify_args \<Rightarrow> py_error + stubify_args" where
  "apply_opts files [] a = Inr a"
| "apply_opts files (x # xs) a = bindR (apply_opt files x a) (apply_opts files xs)"

text \<open>The sizes of the payloads go into the header from \<open>0x1c\<close> on, without a check of their number.\<close>

fun write_sizes :: "bytes option list \<Rightarrow> nat \<Rightarrow> bytes \<Rightarrow> py_error + bytes" where
  "write_sizes [] i buf = Inr buf"
| "write_sizes (None # ds) i buf = Inl Reported"
| "write_sizes (Some d # ds) i buf =
     bindR (write_u32 buf (0x1c + i * 4) (int (length d))) (write_sizes ds (i + 1))"

text \<open>The branch \<open>-g\<close>; \<open>None\<close> is a payload that cannot be read.\<close>

definition generate ::
  "bytes \<Rightarrow> int \<Rightarrow> int \<Rightarrow> int \<Rightarrow> int \<Rightarrow> bytes option list \<Rightarrow> py_error + bytes" where
  "generate stub ver nmoffs type_map flags ovl =
     bindR (write_sizes ovl 0 stub) (\<lambda>b1.
     bindR (write_u32 b1 0x28 nmoffs) (\<lambda>b2.
     bindR (write_u16 b2 0x36 type_map) (\<lambda>b3.
     bindR (write_u16 b3 0x38 flags) (\<lambda>b4.
     bindR (write_u32 (b4[0x3b := of_int ver]) 0x3c (int (length stub))) (\<lambda>b5.
     Inr (b5 @ concat (map the ovl)))))))"

text \<open>
  \<open>main\<close>: the name and the contents of the file it writes, or nothing with \<open>-i\<close>; the file written is not one of
  those read. Without \<open>-S\<close> the test
  for the missing argument itself raises, because the variable was declared but never assigned.
\<close>

definition stubify_main ::
  "(bytes \<Rightarrow> bytes option) \<Rightarrow> sopt list \<Rightarrow> bytes list \<Rightarrow> (py_error + (bytes \<times> bytes) option) option" where
  "stubify_main files opts args = (case apply_opts files opts args_start of
      Inl e \<Rightarrow> Some (Inl e)
    | Inr a \<Rightarrow> (case sa_stub a of
        None \<Rightarrow> Some (Inl Raised)
      | Some stub \<Rightarrow>
          if length stub < 0x40 \<or> \<not> is_mz stub then Some (Inl Reported) else
          let old = (sa_req a = 0 \<and> 8 \<le> sa_ver a \<and> sa_overlay a \<noteq> [] \<and> sa_ver a = 8);
              ver = (if old then 7 else sa_ver a);
              flags = (if old then sa_flags a AND NOT 0x80 else sa_flags a) in
          if sa_generate a then
            if sa_oname a = [] then Some (Inl Reported) else
            Some (bindR (generate stub ver (sa_nmoffs a) (sa_type_map a) flags
                (map files (sa_overlay a))) (\<lambda>out. Inr (Some (sa_oname a, out))))
          else (case args of
              [] \<Rightarrow> Some (Inl Reported)
            | fname # _ \<Rightarrow> (case files fname of
                None \<Rightarrow> Some (Inl Reported)
              | Some inp \<Rightarrow> map_option (map_sum id (map_option
                    (\<lambda>out. (if sa_oname a = [] then fname else sa_oname a, out))))
                  (coff2exe (sa_mode a) stub (of_int ver) inp)))))"

section \<open>Lemmas on header fields\<close>

lemma length_patch [simp]: "k + length xs \<le> length b \<Longrightarrow> length (patch b k xs) = length b"
  by (simp add: patch_def)

lemma nth_patch:
  assumes "k + length xs \<le> length b" "i < length b"
  shows "patch b k xs ! i = (if k \<le> i \<and> i < k + length xs then xs ! (i - k) else b ! i)"
  using assms by (auto simp: patch_def nth_append min_def)

lemma drop_patch [simp]: "k + length xs \<le> j \<Longrightarrow> k + length xs \<le> length b \<Longrightarrow> drop j (patch b k xs) = drop j b"
  by (simp add: patch_def)

lemma get32_nth: "k + 4 \<le> length b \<Longrightarrow> get32 b k = le32 [b ! k, b ! (k + 1), b ! (k + 2), b ! (k + 3)]"
  by (simp add: get32_def le32_def)

lemma get16_nth: "k + 2 \<le> length b \<Longrightarrow> get16 b k = le16 [b ! k, b ! (k + 1)]"
  by (simp add: get16_def le16_def)

lemma get32_cong:
  assumes "k + 4 \<le> length b" "k + 4 \<le> length c" "\<And>i. k \<le> i \<Longrightarrow> i < k + 4 \<Longrightarrow> b ! i = c ! i"
  shows "get32 b k = get32 c k"
  using assms by (simp add: get32_nth)

lemma get16_cong:
  assumes "k + 2 \<le> length b" "k + 2 \<le> length c" "\<And>i. k \<le> i \<Longrightarrow> i < k + 2 \<Longrightarrow> b ! i = c ! i"
  shows "get16 b k = get16 c k"
  using assms by (simp add: get16_nth)

lemma get32_patch_same: "k + 4 \<le> length b \<Longrightarrow> get32 (patch b k (bytes32 v)) k = v"
  by (simp add: get32_def patch_def)

lemma get16_patch_same: "k + 2 \<le> length b \<Longrightarrow> get16 (patch b k (bytes16 v)) k = v"
  by (simp add: get16_def patch_def)

lemma get32_patch_other:
  "k + length xs \<le> length b \<Longrightarrow> j + 4 \<le> length b \<Longrightarrow> j + 4 \<le> k \<or> k + length xs \<le> j \<Longrightarrow>
    get32 (patch b k xs) j = get32 b j"
  by (rule get32_cong) (auto simp: nth_patch)

lemma get16_patch_other:
  "k + length xs \<le> length b \<Longrightarrow> j + 2 \<le> length b \<Longrightarrow> j + 2 \<le> k \<or> k + length xs \<le> j \<Longrightarrow>
    get16 (patch b k xs) j = get16 b j"
  by (rule get16_cong) (auto simp: nth_patch)

lemma get32_update: "j + 4 \<le> length b \<Longrightarrow> i < j \<or> j + 4 \<le> i \<Longrightarrow> get32 (b[i := x]) j = get32 b j"
  by (rule get32_cong) auto

lemma get16_update: "j + 2 \<le> length b \<Longrightarrow> i < j \<or> j + 2 \<le> i \<Longrightarrow> get16 (b[i := x]) j = get16 b j"
  by (rule get16_cong) auto

lemmas header_fields = get32_patch_same get16_patch_same get32_patch_other get16_patch_other
  get32_update get16_update nth_patch

text \<open>The header at the front of a longer file.\<close>

lemma get_front:
  "j + 4 \<le> 0x40 \<Longrightarrow> 0x40 \<le> length b \<Longrightarrow> get32 (take 0x40 (b @ p)) j = get32 b j"
  "j + 2 \<le> 0x40 \<Longrightarrow> 0x40 \<le> length b \<Longrightarrow> get16 (take 0x40 (b @ p)) j = get16 b j"
  by (simp_all add: get32_nth get16_nth)

lemma write_u32_ok:
  "0 \<le> v \<Longrightarrow> v < 2 ^ 32 \<Longrightarrow> k + 4 \<le> length b \<Longrightarrow> write_u32 b k v = Inr (patch b k (bytes32 (of_int v)))"
  by (simp add: write_u32_def)

lemma write_u16_ok:
  "0 \<le> v \<Longrightarrow> v < 2 ^ 16 \<Longrightarrow> k + 2 \<le> length b \<Longrightarrow> write_u16 b k v = Inr (patch b k (bytes16 (of_int v)))"
  by (simp add: write_u16_def)

section \<open>The copy loop and the type map\<close>

text \<open>Everything that is left is copied, or the given number of bytes.\<close>

lemma copy_loop_eq:
  "copy_loop rmoverlay left rest =
     (if left \<le> 0 then [] else if rmoverlay then take (nat left) rest else rest)"
proof (induction rmoverlay left rest rule: copy_loop.induct)
  case (1 rmoverlay left rest)
  show ?case
  proof (cases "left \<le> 0 \<or> rest = []")
    case True
    then show ?thesis by (subst copy_loop.simps) (auto simp: Let_def)
  next
    case False
    let ?c = "if rmoverlay then min 4096 (nat left) else 4096"
    have nl: "\<not> left \<le> 0" using False by simp
    have c: "0 < ?c" using False by auto
    then have ne: "take ?c rest \<noteq> []" using False by simp
    have out: "(if rmoverlay \<and> left < int (length (take ?c rest)) then take (nat left) (take ?c rest)
        else take ?c rest) = take ?c rest" using False by (auto simp: min_def)
    have IH: "copy_loop rmoverlay (if rmoverlay then left - int (length (take ?c rest)) else left) (drop ?c rest) =
        (if (if rmoverlay then left - int (length (take ?c rest)) else left) \<le> 0 then []
         else if rmoverlay then take (nat (if rmoverlay then left - int (length (take ?c rest)) else left)) (drop ?c rest)
         else drop ?c rest)"
      using 1 [OF _ refl refl ne refl] False unfolding out by blast
    have "copy_loop rmoverlay left rest = take ?c rest @
        copy_loop rmoverlay (if rmoverlay then left - int (length (take ?c rest)) else left) (drop ?c rest)"
      by (subst copy_loop.simps) (simp only: Let_def out if_False nl ne)
    also have "\<dots> = (if rmoverlay then take (nat left) rest else rest)"
    proof (cases rmoverlay)
      case True
      define k where "k = length (take ?c rest)"
      have k: "nat (left - int k) = nat left - k" by linarith
      have rec: "(if left - int k \<le> 0 then [] else take (nat (left - int k)) (drop ?c rest)) =
          take (nat left - k) (drop ?c rest)"
        using k by simp
      have "take (nat left) rest = take ?c rest @ take (nat left - ?c) (drop ?c rest)"
        using True False take_add [of ?c "nat left - ?c" rest] by (simp add: min_def)
      moreover have "take (nat left - k) (drop ?c rest) = take (nat left - ?c) (drop ?c rest)"
        by (cases "?c \<le> length rest") (simp_all add: k_def)
      ultimately show ?thesis
        using True rec IH [folded k_def] unfolding k_def [symmetric] by (simp only: if_True)
    next
      case False
      then show ?thesis using \<open>\<not> (left \<le> 0 \<or> rest = [])\<close> unfolding IH by simp
    qed
    finally show ?thesis using False by simp
  qed
qed

text \<open>The offset of a payload is the sum of the sizes before it.\<close>

lemma find_offs_loop_eq:
  "find_offs_loop t m offs cnt buf =
     map_option (\<lambda>i. offs + (\<Sum>k = cnt..<i. unat (get32 buf (0x1c + k * 4)))) (find_idx_loop t m cnt)"
proof (induction t m offs cnt buf rule: find_offs_loop.induct)
  case (1 t m offs cnt buf)
  have ge: "cnt \<le> i" if "find_idx_loop t m cnt = Some i" for t m cnt i
    using that
  proof (induction t m cnt rule: find_idx_loop.induct)
    case (1 t m cnt)
    show ?case using 1(1) 1(2) by (subst (asm) find_idx_loop.simps) (auto split: if_splits)
  qed
  show ?case
  proof (cases "m = 0 \<or> m mod 16 = t")
    case True
    then show ?thesis by (auto simp: find_offs_loop.simps [of t m] find_idx_loop.simps [of t m])
  next
    case False
    show ?thesis
    proof (cases "find_idx_loop t (m div 16) (cnt + 1)")
      case None
      then show ?thesis using 1 False by (simp add: find_offs_loop.simps [of t m] find_idx_loop.simps [of t m])
    next
      case (Some i)
      have "(\<Sum>k = cnt..<i. unat (get32 buf (0x1c + k * 4))) = unat (get32 buf (0x1c + cnt * 4)) +
          (\<Sum>k = cnt + 1..<i. unat (get32 buf (0x1c + k * 4)))"
        using ge [OF Some] by (simp add: sum.atLeast_Suc_lessThan)
      then show ?thesis
        using 1 False Some by (simp add: find_offs_loop.simps [of t m] find_idx_loop.simps [of t m])
    qed
  qed
qed

lemma find_offs_eq:
  "find_offs t buf = map_option (\<lambda>i. \<Sum>k < i. unat (get32 buf (0x1c + k * 4))) (find_idx t buf)"
  by (simp add: find_offs_def find_idx_def Let_def find_offs_loop_eq lessThan_atLeast0)

section \<open>A plain program\<close>

definition stub_image :: "bytes \<Rightarrow> bool" where
  "stub_image st \<longleftrightarrow> 0x40 \<le> length st \<and> is_mz st"

text \<open>What every file the tool writes starts with: the stub with some header \<open>b\<close>, its version and its length.\<close>

definition final_stub :: "bytes \<Rightarrow> bytes \<Rightarrow> u8 \<Rightarrow> bytes" where
  "final_stub st b ver = patch (b[0x3b := ver]) 0x3c (bytes32 (of_nat (length st)))"

lemma final_stub_fields:
  assumes "length b = length st" "0x40 \<le> length st"
  shows "length (final_stub st b ver) = length st" "get32 (final_stub st b ver) 0x3c = of_nat (length st)"
    "final_stub st b ver ! 0x3b = ver"
    "j + 4 \<le> 0x3b \<Longrightarrow> get32 (final_stub st b ver) j = get32 b j"
    "j + 2 \<le> 0x3b \<Longrightarrow> get16 (final_stub st b ver) j = get16 b j"
    "i < 0x3b \<Longrightarrow> final_stub st b ver ! i = b ! i"
  using assms by (simp_all add: final_stub_def header_fields)

lemma final_stub_mz: "length b = length st \<Longrightarrow> 0x40 \<le> length st \<Longrightarrow> is_mz (final_stub st b ver) = is_mz b"
  by (simp add: is_mz_def final_stub_fields)

lemma write_final:
  assumes "length b = length st" "0x40 \<le> length st" "length st < 2 ^ 32"
  shows "write_u32 (b[0x3b := ver]) 0x3c (int (length st)) = Inr (final_stub st b ver)"
proof -
  have "int (length st) < 2 ^ 32" using assms(3) by simp
  then show ?thesis using assms(1,2) by (simp add: write_u32_ok final_stub_def)
qed

definition no_mode :: stubify_mode where
  "no_mode = \<lparr>sm_info = False, sm_rmstub = False, sm_strip = False\<rparr>"

text \<open>Executables in front of the program, whose header gives their length in blocks, as older stubs have it.\<close>

definition dos_exe :: "bytes \<Rightarrow> bool" where
  "dos_exe d \<longleftrightarrow> 0x40 \<le> length d \<and> d ! 0 = 0x4d \<and> d ! 1 = 0x5a \<and> \<not> (d ! 8 = 4 \<and> d ! 9 = 0) \<and>
     (let blocks = int (unat (d ! 4)) + int (unat (d ! 5)) * 256; partial = int (unat (d ! 2)) + int (unat (d ! 3)) * 256
      in int (length d) = blocks * 512 + (if partial \<noteq> 0 then partial - 512 else 0))"

lemma exe_step_dos:
  assumes "dos_exe x" "drop (nat (es_coffset s)) d = x @ y" "0 \<le> es_coffset s"
  shows "exe_step o1 d s = Inr (False, s\<lparr>es_coffset := es_coffset s + int (length x)\<rparr>)"
proof -
  have "0x40 \<le> length x" using assms(1) by (simp add: dos_exe_def)
  then show ?thesis
    using assms by (auto simp: exe_step_def Let_def dos_exe_def)
qed

lemma exe_loop_dos:
  assumes "\<forall>x \<in> set olds. dos_exe x" "0x40 \<le> length p" "\<not> (p ! 0 = 0x4d \<and> p ! 1 = 0x5a)"
  shows "exe_loop o1 (pre @ concat olds @ p) (exe_start\<lparr>es_coffset := int (length pre)\<rparr>) =
    Some (Inr (exe_start\<lparr>es_coffset := int (length (pre @ concat olds))\<rparr>))"
  using assms(1)
proof (induction olds arbitrary: pre)
  case Nil
  have "exe_step o1 (pre @ p) (exe_start\<lparr>es_coffset := int (length pre)\<rparr>) =
      Inr (True, exe_start\<lparr>es_coffset := int (length pre)\<rparr>)"
    using assms(2,3) by (auto simp: exe_step_def exe_start_def)
  then show ?case by (simp add: exe_loop.simps)
next
  case (Cons x xs)
  have "exe_step o1 (pre @ x @ concat xs @ p) (exe_start\<lparr>es_coffset := int (length pre)\<rparr>) =
      Inr (False, exe_start\<lparr>es_coffset := int (length (pre @ x))\<rparr>)"
    using exe_step_dos [of x "exe_start\<lparr>es_coffset := int (length pre)\<rparr>" "pre @ x @ concat xs @ p" "concat xs @ p" o1] Cons.prems
    by simp
  then show ?case using Cons.IH [of "pre @ x"] Cons.prems by (subst exe_loop.simps) simp
qed

definition plain_exe :: "bytes \<Rightarrow> u8 \<Rightarrow> bytes \<Rightarrow> bytes" where
  "plain_exe st ver p = final_stub st (patch st 0x1c (bytes32 (of_nat (length p)))) ver @ p"

lemma coff2exe_plain:
  assumes "stub_image st" "length st < 2 ^ 32" "length p < 2 ^ 32" "0x40 \<le> length p" "\<not> (p ! 0 = 0x4d \<and> p ! 1 = 0x5a)"
    and "\<forall>x \<in> set olds. dos_exe x"
  shows "coff2exe no_mode st ver (concat olds @ p) = Some (Inr (Some (plain_exe st ver p)))"
proof -
  have len: "0x40 \<le> length st" using assms(1) by (simp add: stub_image_def)
  have "int (length p) < 2 ^ 32" using assms(3) by simp
  then have w1: "write_u32 st 0x1c (int (length p)) = Inr (patch st 0x1c (bytes32 (of_nat (length p))))"
    using len by (simp add: write_u32_ok)
  have "length (patch st 0x1c (bytes32 (of_nat (length p)))) = length st" using len by simp
  note w2 = write_final [OF this len assms(2)]
  have "exe_loop no_mode (concat olds @ p) exe_start = Some (Inr (exe_start\<lparr>es_coffset := int (length (concat olds))\<rparr>))"
    using exe_loop_dos [OF assms(6,4,5), of no_mode "[]"] by (simp add: exe_start_def)
  moreover have "0 < int (length p)" using assms(4) by linarith
  ultimately show ?thesis
    using w1 w2 by (simp add: coff2exe_def Let_def exe_start_def copy_loop_eq plain_exe_def no_mode_def)
qed

section \<open>Files with a header\<close>

text \<open>
  The header as the tools and \<open>fullstub\<close> read it: where the payloads start, the sizes of the first three, their
  types, the flags and the version.
\<close>

record dj_header =
  dh_start :: nat
  dh_size0 :: nat
  dh_size1 :: nat
  dh_size2 :: nat
  dh_map :: nat
  dh_flags :: u16
  dh_ver :: u8

definition dj_header_of :: "bytes \<Rightarrow> dj_header" where
  "dj_header_of d = (let b = take 0x40 d in \<lparr>dh_start = unat (get32 b 0x3c), dh_size0 = unat (get32 b 0x1c),
     dh_size1 = unat (get32 b 0x20), dh_size2 = unat (get32 b 0x24), dh_map = unat (get16 b 0x36),
     dh_flags = get16 b 0x38, dh_ver = b ! 0x3b\<rparr>)"

text \<open>A file that starts with a stub header, whose payloads are \<open>pay\<close>.\<close>

definition dj_file :: "bytes \<Rightarrow> dj_header \<Rightarrow> bytes \<Rightarrow> bool" where
  "dj_file d h pay \<longleftrightarrow> 0x40 \<le> length d \<and> is_mz d \<and> dj_header_of d = h \<and> drop (dh_start h) d = pay"

lemma dj_fileD:
  assumes "dj_file d h pay"
  shows "0x40 \<le> length d" "is_mz d" "length (take 0x40 d) = 0x40" "is_mz (take 0x40 d)"
    "unat (get32 (take 0x40 d) 0x3c) = dh_start h" "unat (get32 (take 0x40 d) 0x1c) = dh_size0 h"
    "unat (get32 (take 0x40 d) 0x20) = dh_size1 h" "unat (get32 (take 0x40 d) 0x24) = dh_size2 h"
    "unat (get16 (take 0x40 d) 0x36) = dh_map h" "get16 (take 0x40 d) 0x38 = dh_flags h"
    "take 0x40 d ! 0x3b = dh_ver h" "drop (dh_start h) d = pay"
  using assms by (auto simp: dj_file_def dj_header_of_def Let_def is_mz_def)

lemma final_stub_file:
  assumes "length b = length st" "0x40 \<le> length st" "length st < 2 ^ 32" "is_mz b"
  shows "dj_file (final_stub st b ver @ pay) \<lparr>dh_start = length st, dh_size0 = unat (get32 b 0x1c),
     dh_size1 = unat (get32 b 0x20), dh_size2 = unat (get32 b 0x24), dh_map = unat (get16 b 0x36),
     dh_flags = get16 b 0x38, dh_ver = ver\<rparr> pay"
proof -
  note f = final_stub_fields [OF assms(1,2)]
  have "is_mz (final_stub st b ver)" using final_stub_mz [OF assms(1,2)] assms(4) by blast
  then have "is_mz (final_stub st b ver @ pay)" using f(1) assms(2) by (cases "st = []") (simp_all add: is_mz_def nth_append)
  moreover have "take 0x40 (final_stub st b ver @ pay) ! 0x3b = ver"
    using f(1,3) assms(2) by (simp add: nth_append del: take_append)
  ultimately show ?thesis
    using assms(2,3) f
    by (simp add: dj_file_def dj_header_of_def Let_def get_front unat_of_nat del: take_append)
qed

lemma plain_file:
  assumes "stub_image st" "length st < 2 ^ 32" "length p < 2 ^ 32"
  shows "dj_file (plain_exe st ver p) \<lparr>dh_start = length st, dh_size0 = length p, dh_size1 = unat (get32 st 0x20),
    dh_size2 = unat (get32 st 0x24), dh_map = unat (get16 st 0x36), dh_flags = get16 st 0x38, dh_ver = ver\<rparr> p"
proof -
  let ?b = "patch st 0x1c (bytes32 (of_nat (length p)))"
  have st: "0x40 \<le> length st" "is_mz st" "st \<noteq> []" using assms(1) by (auto simp: stub_image_def)
  have b: "length ?b = length st" "is_mz ?b" using st by (simp_all add: nth_patch is_mz_def)
  show ?thesis
    unfolding plain_exe_def using final_stub_file [OF b(1) st(1) assms(2) b(2), where ver = ver and pay = p] assms(3) st(1)
    by (simp add: header_fields unat_of_nat)
qed

text \<open>The first header of the file is met by the loop.\<close>

lemma exe_step_stub:
  assumes "dj_file d h pay" "es_coffset s = 0"
  shows "exe_step o1 d s = stub_header o1 (take 0x40 d) s"
  using dj_fileD(3,4) [OF assms(1)] assms(2) by (simp add: exe_step_def is_mz_def)

text \<open>What is written when a header was copied.\<close>

lemma write_copied:
  assumes "stub_image st" "length st < 2 ^ 32" "length hdr = 0x40"
    and "exe_loop o1 d exe_start = Some (Inr s)" "es_can_copy s" "es_mzhdr s = hdr" "es_stub_v s = ver" "ver \<noteq> 0"
    and "\<not> sm_info o1"
  shows "coff2exe o1 st sv d = Some (Inr (Some
    ((if sm_rmstub o1 then [] else final_stub st (patch st 0x1c (take 0x20 (drop 0x1c hdr))) ver) @
     copy_loop (es_rmoverlay s) (if es_size s = 0 then int (length d) - es_coffset s else es_size s)
       (drop (nat (es_coffset s)) d))))"
proof -
  have len: "0x40 \<le> length st" using assms(1) by (simp add: stub_image_def)
  have "length (patch st 0x1c (take 0x20 (drop 0x1c hdr))) = length st" using len assms(3) by simp
  note w = write_final [OF this len assms(2)]
  show ?thesis using assms(4-9) w by (simp add: coff2exe_def Let_def)
qed

text \<open>A header as it is copied into another stub.\<close>

lemma copied_fields:
  assumes "length c = 0x40" "stub_image st" "length st < 2 ^ 32"
  shows "dj_file (final_stub st (patch st 0x1c (take 0x20 (drop 0x1c c))) ver @ p)
    \<lparr>dh_start = length st, dh_size0 = unat (get32 c 0x1c), dh_size1 = unat (get32 c 0x20), dh_size2 = unat (get32 c 0x24),
     dh_map = unat (get16 c 0x36), dh_flags = get16 c 0x38, dh_ver = ver\<rparr> p"
proof -
  define b where "b = patch st 0x1c (take 0x20 (drop 0x1c c))"
  have st: "0x40 \<le> length st" "is_mz st" "st \<noteq> []" using assms(2) by (auto simp: stub_image_def)
  have lb: "length b = length st" using st(1) assms(1) by (simp add: b_def)
  have nth: "b ! i = (if 0x1c \<le> i \<and> i < 0x3c then c ! i else st ! i)" if "i < length st" for i
  proof -
    have "take 0x20 (drop 0x1c c) ! (i - 0x1c) = c ! i" if "0x1c \<le> i" "i < 0x3c"
    proof -
      have "i - 0x1c < 0x20" "0x1c + (i - 0x1c) = i" using that by linarith+
      then show ?thesis using assms(1) by (simp only: nth_take nth_drop)
    qed
    then show ?thesis using that st(1) assms(1) by (auto simp: b_def nth_patch)
  qed
  have mz: "is_mz b" using st nth by (simp add: is_mz_def)
  have g32: "get32 b j = get32 c j" if "0x1c \<le> j" "j + 4 \<le> 0x3c" for j
    using that st(1) lb assms(1) nth by (intro get32_cong) simp_all
  have g16: "get16 b j = get16 c j" if "0x1c \<le> j" "j + 2 \<le> 0x3c" for j
    using that st(1) lb assms(1) nth by (intro get16_cong) simp_all
  show ?thesis
    using final_stub_file [OF lb st(1) assms(3) mz, of ver p] unfolding b_def [symmetric] by (simp add: g32 g16)
qed

lemma copied_same:
  assumes "dj_file d h pay" "stub_image st" "length st < 2 ^ 32"
  shows "dj_file (final_stub st (patch st 0x1c (take 0x20 (drop 0x1c (take 0x40 d)))) (dh_ver h) @ p)
    (h\<lparr>dh_start := length st\<rparr>) p"
  using copied_fields [OF dj_fileD(3) [OF assms(1)] assms(2,3), of "dh_ver h" p] dj_fileD(6-10) [OF assms(1)]
  by (cases h) simp

lemma copied_header:
  assumes "dj_file d h pay" "stub_image st" "length st < 2 ^ 32" "k = 0x20 \<or> k = 0x24"
  shows "dj_file (final_stub st (patch st 0x1c (take 0x20 (drop 0x1c (patch (take 0x40 d) k (bytes32 0))))) (dh_ver h) @ p)
    (if k = 0x20 then h\<lparr>dh_start := length st, dh_size1 := 0\<rparr> else h\<lparr>dh_start := length st, dh_size2 := 0\<rparr>) p"
proof -
  let ?d = "take 0x40 d" and ?c = "patch (take 0x40 d) k (bytes32 0)"
  have ld: "length ?d = 0x40" using dj_fileD(3) [OF assms(1)] .
  have lc: "length ?c = 0x40" using ld assms(4) by auto
  have c: "get32 ?c j = (if j = k then 0 else get32 ?d j)" if "j = 0x1c \<or> j = 0x20 \<or> j = 0x24" for j
    using that assms(4) ld by (auto simp: get32_patch_same get32_patch_other)
  have c16: "get16 ?c j = get16 ?d j" if "j = 0x36 \<or> j = 0x38" for j
    using that assms(4) ld by (auto simp: get16_patch_other)
  show ?thesis
    using copied_fields [OF lc assms(2,3), of "dh_ver h" p] dj_fileD(6-10) [OF assms(1)] assms(4)
    by (cases h) (auto simp: c c16)
qed

text \<open>A new stub: the header is copied as it is, and so is everything behind the old stub.\<close>

lemma coff2exe_restub:
  assumes "dj_file d h pay" "8 \<le> dh_ver h" "0x40 \<le> length pay" "is_coff pay \<or> is_elf pay"
    and "is_elf pay \<longleftrightarrow> dh_flags h AND 0x80 \<noteq> 0" "stub_image st" "length st < 2 ^ 32"
  shows "\<exists>e. coff2exe no_mode st ver d = Some (Inr (Some e)) \<and> dj_file e (h\<lparr>dh_start := length st\<rparr>) pay"
proof -
  note f = dj_fileD [OF assms(1)]
  let ?s = "exe_start\<lparr>es_stub_v := dh_ver h, es_flags := dh_flags h, es_coffset := int (dh_start h),
    es_mzhdr := take 0x40 d, es_can_copy := True\<rparr>"
  have nv: "\<not> dh_ver h < 8" "dh_ver h \<noteq> 0" using assms(2) by (auto simp: not_less)
  have "stub_header no_mode (take 0x40 d) exe_start = Inr (False, ?s)"
    using f(5,10,11) nv by (simp add: stub_header_def Let_def no_mode_def exe_start_def)
  then have s1: "exe_step no_mode d exe_start = Inr (False, ?s)"
    using exe_step_stub [OF assms(1), of exe_start no_mode] by (simp add: exe_start_def)
  have "is_coff pay \<Longrightarrow> \<not> is_elf pay" by (auto simp: is_coff_def is_elf_def)
  then have "exe_step no_mode d ?s = Inr (True, ?s)"
    using f(12) assms(3-5) nv by (auto simp: exe_step_def is_elf_def is_coff_def Let_def)
  then have "exe_loop no_mode d exe_start = Some (Inr ?s)" using s1 by (simp add: exe_loop.simps)
  from write_copied [OF assms(6,7) f(3) this _ _ _ nv(2)]
  have "coff2exe no_mode st ver d = Some (Inr (Some (final_stub st (patch st 0x1c (take 0x20 (drop 0x1c (take 0x40 d)))) (dh_ver h) @
      copy_loop False (int (length d) - int (dh_start h)) pay)))"
    using f(12) by (simp add: no_mode_def exe_start_def)
  moreover have "0 < length pay" using assms(3) by linarith
  then have "dh_start h < length d" using f(12) by auto
  ultimately show ?thesis using copied_same [OF assms(1,6,7), of pay] by (simp add: copy_loop_eq)
qed

text \<open>Taking the stub off: what remains is the payload of the type that the flags ask for.\<close>

lemma coff2exe_rmstub:
  assumes "dj_file d h pay" "8 \<le> dh_ver h" "dh_map h = 0" "dh_flags h AND 0x80 = 0" "dh_size0 h \<noteq> 0"
    and "stub_image st" "length st < 2 ^ 32"
  shows "coff2exe (no_mode\<lparr>sm_rmstub := True\<rparr>) st ver d = Some (Inr (Some (take (dh_size0 h) pay)))"
proof -
  let ?o = "no_mode\<lparr>sm_rmstub := True\<rparr>" and ?b = "take 0x40 d"
  note f = dj_fileD [OF assms(1)]
  let ?s = "exe_start\<lparr>es_stub_v := dh_ver h, es_flags := dh_flags h, es_coffset := int (dh_start h), es_mzhdr := ?b,
    es_can_copy := True, es_rmoverlay := True, es_size := int (dh_size0 h)\<rparr>"
  have fs: "find_offs 0 ?b = Some 0" "find_size 0 ?b = Some (dh_size0 h)"
    using f assms(3) by (simp_all add: find_offs_def find_size_def find_idx_def)
  have nv: "\<not> dh_ver h < 8" "dh_ver h \<noteq> 0" using assms(2) by (auto simp: not_less)
  have "stub_header ?o ?b exe_start = Inr (True, ?s)"
    using f(5,9-11) assms(3,4) nv fs
    by (simp add: stub_header_def Let_def no_mode_def OT_COFF_def exe_start_def)
  then have "exe_loop ?o d exe_start = Some (Inr ?s)"
    using exe_step_stub [OF assms(1), of exe_start ?o] by (simp add: exe_loop.simps exe_start_def)
  from write_copied [OF assms(6,7) f(3) this _ _ _ nv(2)]
  show ?thesis using assms(5) f(12) by (simp add: copy_loop_eq no_mode_def)
qed

text \<open>Without options, a file whose header does not announce ELF is refused when its payload is ELF.\<close>

lemma coff2exe_elf_refused:
  assumes "dj_file d h pay" "8 \<le> dh_ver h" "dh_flags h AND 0x80 = 0" "0x40 \<le> length pay" "is_elf pay"
  shows "coff2exe no_mode st ver d = Some (Inl Reported)"
proof -
  note f = dj_fileD [OF assms(1)]
  let ?s = "exe_start\<lparr>es_stub_v := dh_ver h, es_flags := dh_flags h, es_coffset := int (dh_start h),
    es_mzhdr := take 0x40 d, es_can_copy := True\<rparr>"
  have nv: "\<not> dh_ver h < 8" "dh_ver h \<noteq> 0" using assms(2) by (auto simp: not_less)
  have "stub_header no_mode (take 0x40 d) exe_start = Inr (False, ?s)"
    using f(5,10,11) nv by (simp add: stub_header_def Let_def no_mode_def exe_start_def)
  then have "exe_step no_mode d exe_start = Inr (False, ?s)"
    using exe_step_stub [OF assms(1), of exe_start no_mode] by (simp add: exe_start_def)
  moreover have "exe_step no_mode d ?s = Inl Reported"
    using f(12) assms(3-5) nv by (auto simp: exe_step_def is_elf_def is_coff_def Let_def)
  ultimately show ?thesis by (simp add: coff2exe_def exe_loop.simps)
qed

lemma nibble: "a < 16 \<Longrightarrow> (a + 16 * b) div 16 = b" "a < 16 \<Longrightarrow> (a + 16 * b) mod 16 = (a :: nat)"
  by simp_all

text \<open>The loop over three payloads.\<close>

lemma overlay_loop_three:
  assumes "m = t0 + 16 * t1 + 256 * t2" "t0 < 16" "t1 < 16" "0 < t2" "t2 < 16"
    and "unat (get32 b 0x1c) = n0" "unat (get32 b 0x20) = n1" "unat (get32 b 0x24) = n2" "0 < n0" "0 < n1"
  shows "overlay_loop b m 0 0 0 q = (if n2 = 0 then (t2, 0, 2, q + n0 + n1) else (t2, n2, 3, q + n0 + n1 + n2))"
proof -
  have m: "m = t0 + 16 * (t1 + 16 * t2)" using assms(1) by simp
  have d: "m div 16 = t1 + 16 * t2" "(t1 + 16 * t2) div 16 = t2" "t2 div 16 = 0"
    "m mod 16 = t0" "(t1 + 16 * t2) mod 16 = t1" "t2 mod 16 = t2"
    unfolding m nibble [OF assms(2)] nibble [OF assms(3)] using assms(5) by simp_all
  have nz: "m \<noteq> 0" "t1 + 16 * t2 \<noteq> 0" "t2 \<noteq> 0" using assms(1,4) by simp_all
  have i: "(0x1c :: nat) + 0 * 4 = 0x1c" "(0x1c :: nat) + (0 + 1) * 4 = 0x20" "(0x1c :: nat) + (0 + 1 + 1) * 4 = 0x24" by simp_all
  have l3: "overlay_loop b 0 tv sz i offs = (tv, sz, i, offs)" for tv sz i offs
    by (subst overlay_loop.simps) simp
  have l2: "overlay_loop b t2 tv sz (0 + 1 + 1) offs = (if n2 = 0 then (t2, 0, 2, offs) else (t2, n2, 3, offs + n2))"
    for tv sz offs
    using nz(3) d(3,6) assms(8) by (subst overlay_loop.simps) (simp add: Let_def l3)
  have l1: "overlay_loop b (t1 + 16 * t2) tv sz (0 + 1) offs =
      (if n2 = 0 then (t2, 0, 2, offs + n1) else (t2, n2, 3, offs + n1 + n2))" for tv sz offs
    using nz(2) d(2,5) assms(4,7,10) l2 [of _ _ "offs + n1"] by (subst overlay_loop.simps) (simp add: Let_def)
  show ?thesis
    using nz(1) d(1,4) assms(4,6,9) l1 [of _ _ "q + n0"] by (subst overlay_loop.simps) (simp add: Let_def)
qed

text \<open>
  Stripping a file with three payloads, the last one debug information: its size is cleared. When it is
  clear already, the loop stops there with the type of the missing payload, and it is the size of the
  second one that goes.
\<close>

lemma coff2exe_strip:
  assumes "dj_file d h pay" "8 \<le> dh_ver h" "dh_map h = t0 + 16 * t1 + 256 * t2" "t0 < 16" "t1 < 16"
    and "t2 = OT_D64 \<or> t2 = OT_D32" "0 < dh_size0 h" "0 < dh_size1 h" "dh_flags h AND 0x80 \<noteq> 0"
    and "0x40 \<le> length pay" "is_elf pay" "stub_image st" "length st < 2 ^ 32"
  shows "\<exists>e. coff2exe (no_mode\<lparr>sm_strip := True\<rparr>) st ver d = Some (Inr (Some e)) \<and>
    dj_file e (if dh_size2 h = 0 then h\<lparr>dh_start := length st, dh_size1 := 0\<rparr>
               else h\<lparr>dh_start := length st, dh_size2 := 0\<rparr>) (take (dh_size0 h + dh_size1 h) pay)"
proof -
  let ?o = "no_mode\<lparr>sm_strip := True\<rparr>" and ?d = "take 0x40 d" and ?q = "dh_start h"
  note f = dj_fileD [OF assms(1)]
  define k :: nat where "k = (if dh_size2 h = 0 then 0x20 else 0x24)"
  define i :: nat where "i = (if dh_size2 h = 0 then 2 else 3)"
  let ?c = "patch ?d k (bytes32 0)"
  let ?s = "exe_start\<lparr>es_stub_v := dh_ver h, es_flags := dh_flags h, es_coffset := int ?q, es_mzhdr := ?c,
    es_can_copy := True, es_rmoverlay := True, es_size := int (dh_size0 h + dh_size1 h)\<rparr>"
  have t2: "0 < t2" "t2 < 16" using assms(6) by (auto simp: OT_D64_def OT_D32_def)
  have ol: "overlay_loop ?d (dh_map h) 0 0 0 ?q =
      (t2, dh_size2 h, i, ?q + dh_size0 h + dh_size1 h + dh_size2 h)"
    using overlay_loop_three [OF assms(3-5) t2 f(6-8) assms(7,8), of ?q] by (simp add: i_def)
  have nz: "dh_map h \<noteq> 0" using assms(3) t2(1) by simp
  have nv: "\<not> dh_ver h < 8" "dh_ver h \<noteq> 0" using assms(2) by (auto simp: not_less)
  have i: "\<not> i \<le> 1" "0x1c + (i - 1) * 4 = k" by (simp_all add: i_def k_def)
  have w: "write_u32 ?d k 0 = Inr ?c" using f(3) by (simp add: write_u32_ok k_def)
  have "stub_header ?o ?d exe_start = Inr (False, ?s)"
    using f(5,9-11) nv nz ol i w assms(6)
    by (simp add: stub_header_def Let_def no_mode_def exe_start_def)
  then have s1: "exe_step ?o d exe_start = Inr (False, ?s)"
    using exe_step_stub [OF assms(1), of exe_start ?o] by (simp add: exe_start_def)
  have "exe_step ?o d ?s = Inr (True, ?s)"
    using f(12) assms(9-11) nv by (auto simp: exe_step_def is_elf_def is_coff_def Let_def)
  then have "exe_loop ?o d exe_start = Some (Inr ?s)"
    using s1 by (simp add: exe_loop.simps)
  moreover have lc: "length ?c = 0x40" using f(3) by (simp add: k_def)
  moreover have "es_can_copy ?s" "es_mzhdr ?s = ?c" "es_stub_v ?s = dh_ver h" using assms(7) by simp_all
  ultimately have "coff2exe ?o st ver d = Some (Inr (Some (final_stub st (patch st 0x1c (take 0x20 (drop 0x1c ?c))) (dh_ver h) @
      take (dh_size0 h + dh_size1 h) pay)))"
    using write_copied [OF assms(12,13) lc, of ?o d ?s] nv(2) f(12) assms(7)
    by (simp add: copy_loop_eq no_mode_def nat_add_distrib)
  moreover have "k = 0x20 \<or> k = 0x24" by (simp add: k_def)
  from copied_header [OF assms(1,12,13) this]
  have "dj_file (final_stub st (patch st 0x1c (take 0x20 (drop 0x1c ?c))) (dh_ver h) @ take (dh_size0 h + dh_size1 h) pay)
      (if dh_size2 h = 0 then h\<lparr>dh_start := length st, dh_size1 := 0\<rparr> else h\<lparr>dh_start := length st, dh_size2 := 0\<rparr>)
      (take (dh_size0 h + dh_size1 h) pay)"
    by (cases "dh_size2 h = 0") (simp_all add: k_def)
  ultimately show ?thesis by blast
qed

text \<open>A generated file with three payloads.\<close>

lemma write_u32_Inr:
  "write_u32 b k v = Inr c \<longleftrightarrow> 0 \<le> v \<and> v < 2 ^ 32 \<and> k + 4 \<le> length b \<and> c = patch b k (bytes32 (of_int v))"
  by (auto simp: write_u32_def)

lemma write_u16_Inr:
  "write_u16 b k v = Inr c \<longleftrightarrow> 0 \<le> v \<and> v < 2 ^ 16 \<and> k + 2 \<le> length b \<and> c = patch b k (bytes16 (of_int v))"
  by (auto simp: write_u16_def)

definition generated_header :: "bytes \<Rightarrow> nat \<Rightarrow> nat \<Rightarrow> nat \<Rightarrow> int \<Rightarrow> int \<Rightarrow> int \<Rightarrow> bytes" where
  "generated_header st n0 n1 n2 nm tm fl =
     (let b = patch (patch (patch st 0x1c (bytes32 (of_nat n0))) 0x20 (bytes32 (of_nat n1))) 0x24 (bytes32 (of_nat n2))
      in patch (patch (patch b 0x28 (bytes32 (of_int nm))) 0x36 (bytes16 (of_int tm))) 0x38 (bytes16 (of_int fl)))"

lemma generated_header_fields:
  assumes "stub_image st"
  shows "length (generated_header st n0 n1 n2 nm tm fl) = length st" "is_mz (generated_header st n0 n1 n2 nm tm fl)"
    "get32 (generated_header st n0 n1 n2 nm tm fl) 0x1c = of_nat n0"
    "get32 (generated_header st n0 n1 n2 nm tm fl) 0x20 = of_nat n1"
    "get32 (generated_header st n0 n1 n2 nm tm fl) 0x24 = of_nat n2"
    "get16 (generated_header st n0 n1 n2 nm tm fl) 0x36 = of_int tm"
    "get16 (generated_header st n0 n1 n2 nm tm fl) 0x38 = of_int fl"
proof -
  have st: "0x40 \<le> length st" "is_mz st" "st \<noteq> []" using assms by (auto simp: stub_image_def)
  show "length (generated_header st n0 n1 n2 nm tm fl) = length st" "is_mz (generated_header st n0 n1 n2 nm tm fl)"
    "get32 (generated_header st n0 n1 n2 nm tm fl) 0x1c = of_nat n0"
    "get32 (generated_header st n0 n1 n2 nm tm fl) 0x20 = of_nat n1"
    "get32 (generated_header st n0 n1 n2 nm tm fl) 0x24 = of_nat n2"
    "get16 (generated_header st n0 n1 n2 nm tm fl) 0x36 = of_int tm"
    "get16 (generated_header st n0 n1 n2 nm tm fl) 0x38 = of_int fl"
    using st by (simp_all add: generated_header_def Let_def header_fields is_mz_def)
qed

lemma generate_three:
  assumes "stub_image st" "length st < 2 ^ 32"
  shows "generate st ver nm tm fl [Some o0, Some o1, Some o2] = Inr d \<longleftrightarrow>
    length o0 < 2 ^ 32 \<and> length o1 < 2 ^ 32 \<and> length o2 < 2 ^ 32 \<and> 0 \<le> nm \<and> nm < 2 ^ 32 \<and>
    0 \<le> tm \<and> tm < 2 ^ 16 \<and> 0 \<le> fl \<and> fl < 2 ^ 16 \<and>
    d = final_stub st (generated_header st (length o0) (length o1) (length o2) nm tm fl) (of_int ver) @ o0 @ o1 @ o2"
proof -
  have st: "0x40 \<le> length st" using assms(1) by (simp add: stub_image_def)
  note g = generated_header_fields(1) [OF assms(1)]
  note w = write_final [OF g st assms(2)]
  show ?thesis
    using st w [unfolded generated_header_def Let_def]
    by (auto simp: generate_def bindR_Inr_iff write_u32_Inr write_u16_Inr generated_header_def Let_def)
qed

lemma generate_small: "generate st ver nm tm fl ovl = Inr d \<Longrightarrow> length st < 2 ^ 32"
  by (auto simp: generate_def bindR_Inr_iff write_u32_Inr)

lemma generated_file:
  assumes "generate st ver nm tm fl [Some o0, Some o1, Some o2] = Inr d" "stub_image st"
  shows "length d = length st + length (o0 @ o1 @ o2) \<and> dj_file d \<lparr>dh_start = length st, dh_size0 = length o0, dh_size1 = length o1, dh_size2 = length o2,
    dh_map = nat tm, dh_flags = of_int fl, dh_ver = of_int ver\<rparr> (o0 @ o1 @ o2)"
proof -
  note g = generated_header_fields [OF assms(2), of "length o0" "length o1" "length o2" nm tm fl]
  have st: "0x40 \<le> length st" using assms(2) by (simp add: stub_image_def)
  note sm = generate_small [OF assms(1)]
  have d: "length o0 < 2 ^ 32" "length o1 < 2 ^ 32" "length o2 < 2 ^ 32" "0 \<le> tm" "tm < 2 ^ 16"
    "d = final_stub st (generated_header st (length o0) (length o1) (length o2) nm tm fl) (of_int ver) @ o0 @ o1 @ o2"
    using assms(1) unfolding generate_three [OF assms(2) sm] by blast+
  have k: "nat tm < 2 ^ 16" "tm = int (nat tm)" using d(4,5) by simp_all
  have "(of_int tm :: u16) = of_nat (nat tm)" by (subst k(2)) (rule of_int_of_nat_eq)
  then have "unat (of_int tm :: u16) = nat tm" using k(1) by (simp add: unat_of_nat)
  then show ?thesis
    using final_stub_file [OF g(1) st sm g(2), where ver = "of_int ver" and pay = "o0 @ o1 @ o2"] d
    by (simp add: g unat_of_nat final_stub_fields [OF g(1) st])
qed

section \<open>The end of the loop\<close>

text \<open>The headers of a file point forward.\<close>

definition tool_ascending :: "bytes \<Rightarrow> bool" where
  "tool_ascending d \<longleftrightarrow> (\<forall>k. k + 0x40 \<le> length d \<longrightarrow> (let b = take 0x40 (drop k d) in
     b ! 0 = 0x4d \<and> b ! 1 = 0x5a \<longrightarrow>
       (if b ! 8 = 4 \<and> b ! 9 = 0 then k < unat (get32 b 0x3c)
        else 0 < int (unat (b ! 4)) + int (unat (b ! 5)) * 256)))"

lemma stub_header_goes:
  "stub_header o1 b s = Inr (False, s1) \<Longrightarrow> es_coffset s1 = int (unat (get32 b 0x3c))"
  by (auto simp: stub_header_def Let_def bindR_Inr_iff split: if_splits option.splits prod.splits)

lemma exe_step_goes:
  assumes "exe_step o1 d s = Inr (False, s1)" "tool_ascending d"
  shows "0 \<le> es_coffset s \<and> es_coffset s < int (length d) \<and> es_coffset s < es_coffset s1"
proof -
  let ?k = "nat (es_coffset s)" and ?b = "take 0x40 (drop (nat (es_coffset s)) d)"
  have k: "0 \<le> es_coffset s" "0x40 \<le> length ?b" and mz: "?b ! 0 = 0x4d \<and> ?b ! 1 = 0x5a"
    using assms(1) by (auto simp: exe_step_def Let_def split: if_splits)
  have le: "?k + 0x40 \<le> length d" using k(2) by simp
  note up = assms(2) [unfolded tool_ascending_def Let_def, rule_format, OF le mz]
  have "es_coffset s < es_coffset s1"
  proof (cases "?b ! 8 = 4 \<and> ?b ! 9 = 0")
    case True
    then have "stub_header o1 ?b s = Inr (False, s1)"
      using assms(1) k mz by (simp add: exe_step_def Let_def split: if_splits)
    from stub_header_goes [OF this] have "es_coffset s1 = int (unat (get32 ?b 0x3c))" .
    moreover have "?k < unat (get32 ?b 0x3c)" using up True by (simp only: if_True)
    ultimately show ?thesis using k(1) by linarith
  next
    case False
    define bl pa where "bl = int (unat (?b ! 4)) + int (unat (?b ! 5)) * 256" "pa = int (unat (?b ! 2)) + int (unat (?b ! 3)) * 256"
    have "s1 = s\<lparr>es_coffset := es_coffset s + bl * 512 + (if pa \<noteq> 0 then pa - 512 else 0)\<rparr>"
      using assms(1) k mz False unfolding bl_pa_def by (auto simp: exe_step_def Let_def split: if_splits)
    moreover have "0 < bl" "0 \<le> pa" using up False unfolding bl_pa_def by auto
    ultimately show ?thesis by auto
  qed
  then show ?thesis using k(1) le by linarith
qed

lemma exe_loop_ends: "tool_ascending d \<Longrightarrow> exe_loop o1 d s \<noteq> None"
proof (induction "nat (int (length d) - es_coffset s)" arbitrary: s rule: less_induct)
  case less
  show ?case
  proof (cases "exe_step o1 d s")
    case (Inr r)
    obtain fin s1 where r: "r = (fin, s1)" by (cases r)
    show ?thesis
    proof (cases fin)
      case False
      then have "nat (int (length d) - es_coffset s1) < nat (int (length d) - es_coffset s)"
        using exe_step_goes [OF _ less.prems, of o1 s s1] Inr r by auto
      from less.hyps [OF this less.prems] show ?thesis using Inr r False by (subst exe_loop.simps) simp
    qed (use Inr r in \<open>simp add: exe_loop.simps\<close>)
  qed (simp add: exe_loop.simps)
qed

lemma coff2exe_ends: "tool_ascending d \<Longrightarrow> coff2exe o1 st ver d \<noteq> None"
  using exe_loop_ends [of d o1 exe_start] by (auto simp: coff2exe_def Let_def split: option.splits sum.splits)

text \<open>A header that points to itself is read for ever, as by \<open>fullstub\<close>.\<close>

lemma exe_loop_stuck:
  assumes "exe_step o1 d s = Inr (False, s)"
  shows "exe_loop o1 d s = None"
proof (rule ccontr)
  assume "\<not> ?thesis"
  then obtain r where "exe_loop o1 d s = Some r" by auto
  have "exe_step o1 d s \<noteq> Inr (False, s)"
  proof (rule exe_loop.raw_induct [OF _ \<open>exe_loop o1 d s = Some r\<close>, where P = "\<lambda>o1 d s _. exe_step o1 d s \<noteq> Inr (False, s)"])
    fix f o1 d s r
    assume IH: "\<And>o1 d s r. f o1 d s = Some r \<Longrightarrow> exe_step o1 d s \<noteq> Inr (False, s)"
      and run: "(case exe_step o1 d s of Inl e \<Rightarrow> Some (Inl e)
        | Inr (fin, s1) \<Rightarrow> if fin then Some (Inr s1) else f o1 d s1) = Some r"
    show "exe_step o1 d s \<noteq> Inr (False, s)"
    proof
      assume "exe_step o1 d s = Inr (False, s)"
      then show False using IH [of o1 d s r] run by simp
    qed
  qed
  then show False using assms by simp
qed

lemma coff2exe_hangs:
  assumes "dj_file d h pay" "8 \<le> dh_ver h" "dh_start h = 0"
  shows "coff2exe no_mode st ver d = None"
proof -
  note f = dj_fileD [OF assms(1)]
  have nv: "\<not> dh_ver h < 8" using assms(2) by (simp add: not_less)
  have h: "stub_header no_mode (take 0x40 d) s = Inr (False, s\<lparr>es_stub_v := dh_ver h, es_flags := dh_flags h,
      es_coffset := 0, es_mzhdr := take 0x40 d, es_can_copy := True\<rparr>)" if "\<not> es_rmoverlay s" for s
    using that f(5,10,11) nv assms(3) by (simp add: stub_header_def Let_def no_mode_def)
  define t where "t = exe_start\<lparr>es_stub_v := dh_ver h, es_flags := dh_flags h, es_coffset := 0,
    es_mzhdr := take 0x40 d, es_can_copy := True\<rparr>"
  have z: "es_coffset exe_start = 0" "\<not> es_rmoverlay exe_start" "es_coffset t = 0" "\<not> es_rmoverlay t"
    by (simp_all add: exe_start_def t_def)
  have same: "t\<lparr>es_stub_v := dh_ver h, es_flags := dh_flags h, es_coffset := 0, es_mzhdr := take 0x40 d,
      es_can_copy := True\<rparr> = t"
    by (simp add: t_def)
  have "exe_step no_mode d t = Inr (False, t)"
    using exe_step_stub [OF assms(1) z(3)] h [OF z(4)] same by metis
  moreover have "exe_step no_mode d exe_start = Inr (False, t)"
    using exe_step_stub [OF assms(1) z(1)] h [OF z(2)] t_def by metis
  ultimately show ?thesis using exe_loop_stuck [of no_mode d t] by (simp add: coff2exe_def exe_loop.simps [of no_mode d exe_start])
qed

text \<open>A header of version 7, which \<open>-g\<close> writes when no version is asked for, is refused in every mode.\<close>

lemma coff2exe_old_refused:
  assumes "dj_file d h pay" "dh_ver h < 8"
  shows "coff2exe o1 st ver d = Some (Inl Reported)"
proof -
  have "stub_header o1 (take 0x40 d) exe_start = Inl Reported"
    using dj_fileD(11) [OF assms(1)] assms(2) by (simp add: stub_header_def)
  then show ?thesis
    using exe_step_stub [OF assms(1), of exe_start o1] by (simp add: coff2exe_def exe_loop.simps exe_start_def)
qed

section \<open>What \<open>main\<close> does\<close>

lemma main_stubify:
  assumes "apply_opts files opts args_start = Inr a" "sa_stub a = Some st" "stub_image st"
    and "\<not> sa_generate a" "files fname = Some inp"
  shows "\<exists>ver. stubify_main files opts (fname # rest) = map_option (map_sum id (map_option
     (\<lambda>out. (if sa_oname a = [] then fname else sa_oname a, out)))) (coff2exe (sa_mode a) st ver inp)"
  using assms by (auto simp: stubify_main_def Let_def stub_image_def not_less)

lemma main_generate:
  assumes "stubify_main files opts args = Some (Inr (Some (name, d)))"
    and "apply_opts files opts args_start = Inr a" "sa_generate a"
  obtains st ver flags where "sa_stub a = Some st" "stub_image st" "name = sa_oname a"
    "generate st ver (sa_nmoffs a) (sa_type_map a) flags (map files (sa_overlay a)) = Inr d"
  using assms
  by (auto simp: stubify_main_def Let_def stub_image_def not_less bindR_Inr_iff split: option.splits if_splits)

end
