(* ===== verification/Toolchain.thy ===== *)
theory Toolchain
  imports Boot Stubify
begin

text \<open>
  The tool and the loader together: what \<open>djstubify2.py\<close> writes is what \<open>fullstub\<close> finds, loads and
  describes to the program.
\<close>

section \<open>A program followed by other payloads\<close>

lemma payload_headers_append: "payload_headers d P \<Longrightarrow> payload_headers (d @ x) P"
  by (cases P) fastforce+

lemma payload_file_append: "payload_file d P \<Longrightarrow> payload_file (d @ x) P"
  using payload_headers_append by (auto simp: payload_file_def segment_ok_def)

lemma segment_in_append: "segment_ok d s \<Longrightarrow> segment_in (d @ x) m s = segment_in d m s"
  by (simp add: segment_in_def segment_ok_def)

lemma client_ready_append:
  assumes "client_ready E D dd (d @ x) P l" "payload_file d P"
  shows "client_ready E D dd d P l"
proof -
  have "\<forall>s \<in> set (payload_segments P). segment_in (d @ x) m s = segment_in d m s" for m
    using assms(2) segment_in_append by (auto simp: payload_file_def)
  then show ?thesis using assms(1) unfolding client_ready_def Let_def by blast
qed

section \<open>The search on a file of the tool\<close>

lemma dj_file_chain:
  assumes "dj_file d h pay" "dh_start h < 2 ^ 31"
  shows "mz_chain d 0 (Suc 0) (dh_start h)"
  using dj_fileD(1,2,5) [OF assms(1)] assms(2) by (simp add: lfanew_def)

lemma dj_file_stubbed:
  assumes "dj_file (f_data f) h pay" "f_pos f = 0" "f_bad f = []" "length (f_data f) < 2 ^ 31"
    and "dh_start h < 2 ^ 31" "payload_file pay P"
  shows "stubbed f P (dh_start h)"
  using dj_file_chain [OF assms(1,5)] dj_fileD(12) [OF assms(1)] assms unfolding stubbed_def by blast

lemma dj_file_found:
  assumes "dj_file (f_data f) h pay" "f_pos f = 0" "f_bad f = []"
    and "dh_start h < 2 ^ 31" "payload_file pay P" "argv \<noteq> []" "elfexec envp = None" "open_file (hd argv) = Some f"
  obtains s where "find_payload open_file argv envp = Some (Inr (payload_ops P, s))" "hs_coffset s = of_nat (dh_start h)"
    "hs_coffsize s = of_nat (dh_size0 h)" "hs_nsize s = of_nat (dh_size1 h)" "hs_nsize2 s = of_nat (dh_size2 h)"
    "dh_size0 h \<noteq> 0 \<Longrightarrow> hs_noffset s = of_nat (dh_start h + dh_size0 h)"
    "dh_size1 h \<noteq> 0 \<Longrightarrow> hs_noffset2 s = hs_noffset s + of_nat (dh_size1 h)"
proof -
  note g = dj_fileD [OF assms(1)]
  have "payload_headers pay P" using assms(5) by (simp add: payload_file_def)
  from payload_magic [OF this] have m: "\<not> is_mz pay" "is_coff pay \<or> is_elf pay"
    "payload_ops P = (if is_coff pay then Coff_ops else Elf_ops)" "0x40 \<le> length pay" by blast+
  have len: "dh_start h + 0x40 \<le> length (f_data f)" using m(4) unfolding g(12) [symmetric] by simp
  let ?s = "(mz_fields (take 0x40 (f_data f)) (scan_start f stubinfo_zero))\<lparr>hs_file := f\<lparr>f_pos := dh_start h\<rparr>\<rparr>"
  have run: "find_payload open_file argv envp = Some (Inr (payload_ops P, ?s))"
    using scan_chain_payload [OF dj_file_chain [OF assms(1,4)] assms(2,3) len, unfolded g(12), OF m(1,2), of stubinfo_zero] m(3) assms(6-8)
    by (simp add: find_payload_def)
  have w: "get32 (take 0x40 (f_data f)) 0x3c = of_nat (dh_start h)" "get32 (take 0x40 (f_data f)) 0x1c = of_nat (dh_size0 h)"
    "get32 (take 0x40 (f_data f)) 0x20 = of_nat (dh_size1 h)" "get32 (take 0x40 (f_data f)) 0x24 = of_nat (dh_size2 h)"
    unfolding g(5-8) [symmetric] by simp_all
  have nz: "of_nat (dh_size0 h) = (0 :: u32) \<longleftrightarrow> dh_size0 h = 0" "of_nat (dh_size1 h) = (0 :: u32) \<longleftrightarrow> dh_size1 h = 0"
    unfolding w(2,3) [symmetric] using g(6,7) by (simp_all add: unat_eq_0 [symmetric])
  show ?thesis
    by (rule that [OF run]) (simp_all add: mz_fields_def Let_def w nz)
qed

text \<open>What the block says about the payloads.\<close>

lemma fullstub_payload_info:
  assumes "fullstub E open_file argv envp w = Some (Inr l)" "find_payload open_file argv envp = Some (Inr (ops, s))"
  shows "self_offs (la_info l) = hs_coffset s" "self_size (la_info l) = hs_coffsize s"
    "payload_offs (la_info l) = hs_noffset s" "payload_size (la_info l) = hs_nsize s"
    "payload2_offs (la_info l) = hs_noffset2 s" "payload2_size (la_info l) = hs_nsize2 s"
proof -
  obtain f c v where "enter_client E c s f v = Inr l"
    using assms by (auto simp: fullstub_def split: option.splits sum.splits)
  then obtain p where "la_info l = (payload_info s f (cl_info c))\<lparr>psp_selector := p\<rparr>"
    using enter_client_info by blast
  then show "self_offs (la_info l) = hs_coffset s" "self_size (la_info l) = hs_coffsize s"
    "payload_offs (la_info l) = hs_noffset s" "payload_size (la_info l) = hs_nsize s"
    "payload2_offs (la_info l) = hs_noffset2 s" "payload2_size (la_info l) = hs_nsize2 s"
    by (simp_all add: payload_info_def)
qed

text \<open>The bytes of a file that an offset and a size of the block stand for.\<close>

definition file_part :: "bytes \<Rightarrow> u32 \<Rightarrow> u32 \<Rightarrow> bytes" where
  "file_part d off n = take (unat n) (drop (unat off) d)"

lemma file_part_nat:
  assumes "off + length x < 2 ^ 32" "drop off d = x @ y"
  shows "file_part d (of_nat off) (of_nat (length x)) = x"
  using assms by (simp add: file_part_def unat_of_nat)

lemma drop_plus: "drop (a + b) d = drop b (drop a d)"
  by (simp add: add.commute)

section \<open>Properties\<close>



text \<open>
  C26. Changing the stub of a file that \<open>djstubify\<close> made of a bare program. When the header carries version 8 or
  later and the stub image had no type map and no ELF flag of its own, \<open>djstubify -r\<close> gives back the program
  byte by byte; a COFF program can be given another stub, which keeps the fields of its header; an ELF program
  cannot, because the tool refuses the header it wrote itself. A header of an older version (\<open>-V 7\<close>) is refused in
  every mode, so that its stub can neither be taken off nor replaced.
\<close>

theorem stub_replaced:
  assumes "stub_image st" "length st < 2 ^ 32" "stub_image st2" "length st2 < 2 ^ 32"
    and "length p < 2 ^ 32" "0x40 \<le> length p" "\<not> (p ! 0 = 0x4d \<and> p ! 1 = 0x5a)"
  shows "\<exists>d. coff2exe no_mode st ver p = Some (Inr (Some d)) \<and> drop (length st) d = p \<and>
    (ver < 8 \<longrightarrow> (\<forall>o1. coff2exe o1 st2 ver2 d = Some (Inl Reported))) \<and>
    (8 \<le> ver \<and> get16 st 0x36 = 0 \<and> get16 st 0x38 AND 0x80 = 0 \<longrightarrow>
      coff2exe (no_mode\<lparr>sm_rmstub := True\<rparr>) st2 ver2 d = Some (Inr (Some p)) \<and>
      (is_coff p \<longrightarrow> (\<exists>e. coff2exe no_mode st2 ver2 d = Some (Inr (Some e)) \<and> drop (length st2) e = p \<and>
         dj_header_of e = (dj_header_of d)\<lparr>dh_start := length st2\<rparr>)) \<and>
      (is_elf p \<longrightarrow> coff2exe no_mode st2 ver2 d = Some (Inl Reported)))"
proof (rule exI [where x = "plain_exe st ver p"], intro conjI impI allI)
  note dj = plain_file [OF assms(1,2,5), of ver]
  note h = dj [unfolded dj_file_def, THEN conjunct2, THEN conjunct2, THEN conjunct1]
  show "coff2exe no_mode st ver p = Some (Inr (Some (plain_exe st ver p)))"
    using coff2exe_plain [OF assms(1,2,5-7), of "[]"] by simp
  show "drop (length st) (plain_exe st ver p) = p" using dj_fileD(12) [OF dj] by simp
  show "coff2exe o1 st2 ver2 (plain_exe st ver p) = Some (Inl Reported)" if "ver < 8" for o1
    by (rule coff2exe_old_refused [OF dj]) (use that in simp)
  have "p \<noteq> []" using assms(6) by auto
  then show "coff2exe (no_mode\<lparr>sm_rmstub := True\<rparr>) st2 ver2 (plain_exe st ver p) = Some (Inr (Some p))"
    if v: "8 \<le> ver \<and> get16 st 0x36 = 0 \<and> get16 st 0x38 AND 0x80 = 0"
    using coff2exe_rmstub [OF dj _ _ _ _ assms(3,4)] v by simp
  show "\<exists>e. coff2exe no_mode st2 ver2 (plain_exe st ver p) = Some (Inr (Some e)) \<and> drop (length st2) e = p \<and>
      dj_header_of e = (dj_header_of (plain_exe st ver p))\<lparr>dh_start := length st2\<rparr>"
    if v: "8 \<le> ver \<and> get16 st 0x36 = 0 \<and> get16 st 0x38 AND 0x80 = 0" and c: "is_coff p"
  proof -
    have "\<not> is_elf p" using c by (auto simp: is_coff_def is_elf_def)
    then obtain e where e: "coff2exe no_mode st2 ver2 (plain_exe st ver p) = Some (Inr (Some e))"
      "dj_file e ((dj_header_of (plain_exe st ver p))\<lparr>dh_start := length st2\<rparr>) p"
      using coff2exe_restub [OF dj _ assms(6) _ _ assms(3,4), of ver2] c v unfolding h by auto
    then show ?thesis using dj_fileD(12) [OF e(2)] by (auto simp: dj_file_def)
  qed
  show "coff2exe no_mode st2 ver2 (plain_exe st ver p) = Some (Inl Reported)"
    if v: "8 \<le> ver \<and> get16 st 0x36 = 0 \<and> get16 st 0x38 AND 0x80 = 0" and "is_elf p"
    using coff2exe_elf_refused [OF dj _ _ assms(6) that(2)] v by simp
qed

text \<open>
  C30. Stripping a linked program removes its debug information, a third payload of type \<open>OT_D64\<close> or \<open>OT_D32\<close>: the
  file keeps the program and the host payload, and only the size of the third payload changes in the
  header. Stripping the result again changes the header once more, although nothing is left to remove: the
  size of the host payload is cleared, so that no one finds it any longer, while its bytes stay in the file.
\<close>

theorem strip_drops_debug:
  assumes "dj_file d h (o0 @ o1 @ o2)" "8 \<le> dh_ver h" "dh_map h = t0 + 16 * t1 + 256 * t2" "t0 < 16" "t1 < 16"
    and "t2 = OT_D64 \<or> t2 = OT_D32" "dh_size0 h = length o0" "dh_size1 h = length o1" "dh_size2 h = length o2"
    and "o1 \<noteq> []" "o2 \<noteq> []" "dh_flags h AND 0x80 \<noteq> 0" "is_elf o0" "0x40 \<le> length o0"
    and "stub_image st" "length st < 2 ^ 32"
  shows "\<exists>e e2. coff2exe (no_mode\<lparr>sm_strip := True\<rparr>) st ver d = Some (Inr (Some e)) \<and>
    dj_file e (h\<lparr>dh_start := length st, dh_size2 := 0\<rparr>) (o0 @ o1) \<and>
    coff2exe (no_mode\<lparr>sm_strip := True\<rparr>) st ver e = Some (Inr (Some e2)) \<and>
    dj_file e2 (h\<lparr>dh_start := length st, dh_size1 := 0, dh_size2 := 0\<rparr>) (o0 @ o1)"
proof -
  have elf: "is_elf (o0 @ x)" "0x40 \<le> length (o0 @ x)" for x
    using assms(13,14) by (cases "o0 = []", simp_all add: is_elf_def nth_append)
  have pos: "0 < length o0" "0 < length o1" "dh_size2 h \<noteq> 0" using assms(9-11,14) by auto
  obtain e where e: "coff2exe (no_mode\<lparr>sm_strip := True\<rparr>) st ver d = Some (Inr (Some e))"
    "dj_file e (h\<lparr>dh_start := length st, dh_size2 := 0\<rparr>) (o0 @ o1)"
    using coff2exe_strip [OF assms(1-6) _ _ assms(12) elf(2,1) assms(15,16)] pos assms(7,8) by auto
  let ?h = "h\<lparr>dh_start := length st, dh_size2 := 0\<rparr>"
  have h: "8 \<le> dh_ver ?h" "dh_map ?h = t0 + 16 * t1 + 256 * t2" "0 < dh_size0 ?h" "0 < dh_size1 ?h" "dh_flags ?h AND 0x80 \<noteq> 0"
    using assms(2,3,7,8,12) pos by simp_all
  have "dh_size2 ?h = 0" "?h\<lparr>dh_start := length st, dh_size1 := 0\<rparr> = h\<lparr>dh_start := length st, dh_size1 := 0, dh_size2 := 0\<rparr>"
    "take (dh_size0 ?h + dh_size1 ?h) (o0 @ o1) = o0 @ o1"
    using assms(7,8) by (cases h, simp_all)
  then have "\<exists>e2. coff2exe (no_mode\<lparr>sm_strip := True\<rparr>) st ver e = Some (Inr (Some e2)) \<and>
      dj_file e2 (h\<lparr>dh_start := length st, dh_size1 := 0, dh_size2 := 0\<rparr>) (o0 @ o1)"
    using coff2exe_strip [OF e(2) h(1,2) assms(4-6) h(3-5) elf(2,1) assms(15,16), of ver] by (simp only: if_True refl)
  then show ?thesis using e by blast
qed

section \<open>Samples\<close>

definition sample_stub :: bytes where
  "sample_stub = sample_mz 0 0 0"

text \<open>An executable of 64 bytes: one block of 512, of which 64 are used.\<close>

definition sample_old :: bytes where
  "sample_old = [0x4d, 0x5a, 0x40, 0, 1, 0] @ replicate 58 0"

definition sample_files :: "bytes \<Rightarrow> bytes option" where
  "sample_files name = (if name = [1] then Some sample_stub else if name = [2] then Some sample_elf
     else if name = [3] then Some [9, 9] else if name = [4] then Some [7] else if name = [5] then Some (sample_old @ sample_coff) else None)"

definition sample_link :: "sopt list" where
  "sample_link = [Opt_S [1], Opt_V 8, Opt_g, Opt_o [6], Opt_f 0x80, Opt_t 2, Opt_l [2], Opt_t 3, Opt_l [3], Opt_t 4, Opt_l [4]]"

definition sample_link_args :: stubify_args where
  "sample_link_args = args_start\<lparr>sa_stub := Some sample_stub, sa_req := 8, sa_generate := True, sa_oname := [6],
     sa_flags := 0x80, sa_type_val := 4, sa_type_map := 0x432, sa_type_shift := 12, sa_overlay := [[2], [3], [4]]\<rparr>"

definition sample_dj :: bytes where
  "sample_dj = final_stub sample_stub (generated_header sample_stub (length sample_elf) (length [9 :: u8, 9]) (length [7 :: u8]) 0 0x432 0x80) 8 @
     sample_elf @ [9, 9] @ [7]"

lemma sample_old_exe: "\<forall>x \<in> set [sample_old]. dos_exe x"
  by (simp add: dos_exe_def sample_old_def nth_append)

lemma sample_stub_facts:
  "stub_image sample_stub" "length sample_stub = 0x40" "get16 sample_stub 0x36 = 0" "get16 sample_stub 0x38 = 0"
  by (simp_all add: sample_stub_def stub_image_def sample_mz_facts)
    (simp_all add: sample_mz_def get16_def le16_def nth_append)

lemma sample_generate:
  "generate sample_stub 8 0 0x432 0x80 [Some sample_elf, Some [9, 9], Some [7]] = Inr sample_dj"
proof -
  have "length sample_stub < 2 ^ 32" by (simp add: sample_stub_facts)
  from generate_three [OF sample_stub_facts(1) this] show ?thesis
    by (simp add: sample_elf_data sample_dj_def)
qed

lemma sample_args: "apply_opts sample_files sample_link args_start = Inr sample_link_args"
  by (simp add: sample_link_def args_start_def sample_link_args_def sample_files_def push_bit_eq_mult del: push_bit_numeral)

lemma sample_linked: "stubify_main sample_files sample_link [] = Some (Inr (Some ([6], sample_dj)))"
proof -
  have a: "sa_stub sample_link_args = Some sample_stub" "sa_req sample_link_args = 8" "sa_ver sample_link_args = 8"
    "sa_generate sample_link_args" "sa_oname sample_link_args = [6]" "sa_nmoffs sample_link_args = 0"
    "sa_type_map sample_link_args = 0x432" "sa_flags sample_link_args = 0x80"
    "map sample_files (sa_overlay sample_link_args) = [Some sample_elf, Some [9, 9], Some [7]]"
    by (simp_all add: sample_link_args_def args_start_def sample_files_def)
  show ?thesis
    using sample_stub_facts(1,2) by (simp add: stubify_main_def sample_args a stub_image_def sample_generate)
qed

lemma sample_dj_length: "length sample_dj = 188"
  using generated_file [OF sample_generate sample_stub_facts(1)] by (simp add: sample_stub_facts sample_elf_data)

text \<open>The sample files on the reference host.\<close>

lemma sample_dj_file:
  "dj_file sample_dj \<lparr>dh_start = 0x40, dh_size0 = 121, dh_size1 = 2, dh_size2 = 1, dh_map = 0x432, dh_flags = 0x80, dh_ver = 8\<rparr>
     (sample_elf @ [9, 9] @ [7])"
  using generated_file [OF sample_generate sample_stub_facts(1)] by (simp add: sample_stub_facts(2) sample_elf_data(1) numeral_2_eq_2)

theorem strip_drops_debug_witness:
  "\<exists>e e2. coff2exe (no_mode\<lparr>sm_strip := True\<rparr>) sample_stub 8 sample_dj = Some (Inr (Some e)) \<and>
    coff2exe (no_mode\<lparr>sm_strip := True\<rparr>) sample_stub 8 e = Some (Inr (Some e2)) \<and>
    get32 (take 0x40 e) 0x20 = 2 \<and> get32 (take 0x40 e2) 0x20 = 0"
proof -
  have s: "length sample_stub < 2 ^ 32" by (simp add: sample_stub_facts)
  have f: "(0x80 :: u16) AND 0x80 \<noteq> 0" by simp
  obtain e e2 where e: "coff2exe (no_mode\<lparr>sm_strip := True\<rparr>) sample_stub 8 sample_dj = Some (Inr (Some e))"
    "coff2exe (no_mode\<lparr>sm_strip := True\<rparr>) sample_stub 8 e = Some (Inr (Some e2))"
    "dj_file e \<lparr>dh_start = 0x40, dh_size0 = 121, dh_size1 = 2, dh_size2 = 0, dh_map = 0x432, dh_flags = 0x80, dh_ver = 8\<rparr>
      (sample_elf @ [9, 9])"
    "dj_file e2 \<lparr>dh_start = 0x40, dh_size0 = 121, dh_size1 = 0, dh_size2 = 0, dh_map = 0x432, dh_flags = 0x80, dh_ver = 8\<rparr>
      (sample_elf @ [9, 9])"
    using strip_drops_debug [OF sample_dj_file, of 2 3 4 sample_stub 8] f s sample_stub_facts(1,2) sample_elf_magic(3)
    by (auto simp: OT_D64_def sample_elf_data(1))
  have "unat (get32 (take 0x40 e) 0x20) = 2" "unat (get32 (take 0x40 e2) 0x20) = 0"
    using dj_fileD(7) [OF e(3)] dj_fileD(7) [OF e(4)] by simp_all
  then have "get32 (take 0x40 e) 0x20 = 2" "get32 (take 0x40 e2) 0x20 = 0" by (simp_all add: word_unat_eq_iff)
  then show ?thesis using e(1,2) by blast
qed

theorem stub_replaced_witness:
  "\<exists>d. coff2exe no_mode sample_stub 8 sample_elf = Some (Inr (Some d)) \<and> length d = 185 \<and>
    coff2exe (no_mode\<lparr>sm_rmstub := True\<rparr>) sample_stub 8 d = Some (Inr (Some sample_elf)) \<and>
    coff2exe no_mode sample_stub 8 d = Some (Inl Reported)"
proof -
  have s: "length sample_stub < 2 ^ 32" "length sample_elf < 2 ^ 32" "0x40 \<le> length sample_elf"
    by (simp_all add: sample_stub_facts sample_elf_data)
  have n: "\<not> (sample_elf ! 0 = 0x4d \<and> sample_elf ! 1 = 0x5a)" using sample_elf_magic(3) by (simp add: is_elf_def)
  have fl: "get16 sample_stub 0x38 AND 0x80 = 0" "(8 :: u8) \<le> 8" by (simp_all add: sample_stub_facts)
  obtain d where d: "coff2exe no_mode sample_stub 8 sample_elf = Some (Inr (Some d))"
    "coff2exe (no_mode\<lparr>sm_rmstub := True\<rparr>) sample_stub 8 d = Some (Inr (Some sample_elf))"
    "coff2exe no_mode sample_stub 8 d = Some (Inl Reported)"
    using stub_replaced [OF sample_stub_facts(1) s(1) sample_stub_facts(1) s(1-3) n, of 8 8]
      sample_stub_facts(3) fl sample_elf_magic(3) by auto
  have "d = plain_exe sample_stub 8 sample_elf"
    using coff2exe_plain [OF sample_stub_facts(1) s n, of "[]" 8] d(1) by simp
  then have "length d = 185"
    by (simp add: plain_exe_def final_stub_fields sample_stub_facts(2) sample_elf_data)
  then show ?thesis using d by blast
qed

lemma sample_program_dj:
  assumes "dj_file d h pay" "length d < 2 ^ 31" "dh_start h < 2 ^ 31" "payload_file pay P"
  shows "program_at (\<lambda>_. Some (sample_file d)) name sample_block (sample_file d) P (dh_start h)"
  using dj_file_stubbed [where f = "sample_file d", OF _ _ _ _ assms(3,4)] assms(1,2)
  by (simp add: program_at_def sample_file_def sample_block_def ascii_def)

lemma sample_payloads_linked: "payload_file (sample_elf @ [9, 9] @ [7]) sample_elf_payload"
  using payload_file_append [OF sample_elf_file] .


lemma sample_stubify:
  "stubify_main sample_files [Opt_S [1]] [[5]] = Some (Inr (Some ([5], plain_exe sample_stub 8 sample_coff)))"
proof -
  have "\<not> (sample_coff ! 0 = 0x4d \<and> sample_coff ! 1 = 0x5a)"
    using payload_magic [of sample_coff] sample_coff_file by (auto simp: payload_file_def is_coff_def is_elf_def)
  then have "coff2exe no_mode sample_stub 8 (concat [sample_old] @ sample_coff) =
      Some (Inr (Some (plain_exe sample_stub 8 sample_coff)))"
    by (intro coff2exe_plain [OF sample_stub_facts(1)] sample_old_exe) (simp_all add: sample_stub_facts(2) sample_coff_length)
  then show ?thesis
    using sample_stub_facts(1,2) by (simp add: stubify_main_def args_start_def sample_files_def stub_image_def no_mode_def)
qed


end
