(* ===== verification/Spec2Isabelle.thy ===== *)
theory Spec2Isabelle
  imports Coff Elf LowMem FarGnu Stub Payload Enter Ministub Boot Stubify Toolchain
begin

text \<open>
  A verification of the C code of djstub (directory \<open>src/src/\<close>), the DOS stub that is put in front of a
  dj64, dj32 or go32 program, and of the tool \<open>djstubify2.py\<close> that puts it there. The stub is started by DOS in real mode, enters protected mode through a DPMI
  host, and either hands the program over to the host's loader extension or loads it itself.

  \<^bold>\<open>The program and its parts.\<close>
  \<open>ministub.c\<close> holds \<open>main\<close>: it builds \<open>envp\<close> from the DOS environment block, asks the host for the extension
  \<open>DJ64STUB\<close> and calls it, or falls back to \<open>fullstub\<close> in \<open>stub.c\<close>. \<open>fullstub\<close> follows the chain of stub headers in
  the program file to its payload, reads the payload's headers through \<open>struct ldops\<close> (\<open>coff.c\<close>, \<open>elf.c\<close>),
  fills in the stub info block (\<open>stubinfo.h\<close>), sets up descriptors and memory with the DPMI wrappers of
  \<open>dpmi.c\<close>, loads the sections through the far-memory routines of \<open>util.c\<close>, switches the mode with \<open>dpmi_init\<close> (also
  \<open>util.c\<close>) and jumps to the client. On the development host, \<open>djstubify2.py\<close> writes the files that \<open>fullstub\<close> reads:
  a copy of the stub, with sizes, types and flags of the payloads in its header, and the payloads behind it.

  \<^bold>\<open>Which theory models what.\<close>
  \<^item> \<open>Prelude\<close>: machine integers, little-endian bytes, byte memory with regions, C strings, and the results
    of code that may end the program (\<open>stop\<close>, \<open>bindR\<close>).
  \<^item> \<open>Layout\<close>: the packed structure of \<open>stubinfo.h\<close>, its offset macros and its byte image; the register block of
    \<open>util.h\<close> and the far pointer are in \<open>Layout\<close> and \<open>FarMem\<close>.
  \<^item> \<open>X86\<close>: the instructions that the inline assembly uses, with an executable step function. The state is the
    record \<open>world\<close> (registers, segment registers, flags, the two memories, the host's private state).
  \<^item> \<open>Dpmi\<close>: every compiled function of \<open>dpmi.c\<close> as its instruction list; the call each one makes, register for
    register (\<open>dpmi_table\<close>), and the contract the DPMI document gives it (\<open>dpmi_contracts\<close>).
  \<^item> \<open>Host\<close>: no code of the repository, but the documented DPMI 0.9 services as laws on the parameter \<open>int_call\<close>
    (\<open>dpmi_host\<close>), over descriptors with base, limit field and all 16 bits of the access rights; the effect of the
    wrappers under these laws, and a small host that satisfies them. Two of the laws go beyond the DPMI document,
    because the stub does: \<open>real_limit_law\<close> (it changes the limit of a descriptor of function 0002h) and \<open>alias_law\<close>
    (it uses function 000Ah on data segments).
  \<^item> \<open>Clib\<close>: \<open>read\<close> and \<open>lseek\<close> on a regular file.
  \<^item> \<open>FarMem\<close>: \<open>PAGE_ALIGN\<close>, \<open>farmemcpy\<close>, \<open>farmemset\<close> and \<open>_long_read\<close>, and their interface \<open>far_memory\<close>.
  \<^item> \<open>FarGnu\<close>: \<open>farmemcpy\<close> and \<open>farmemset\<close> as the GNU C branch of \<open>util.c\<close> has them, with string instructions.
  \<^item> \<open>Loader\<close>: what a list of loading steps does to the client's memory, and the interface \<open>ldops\<close> as a locale
    whose laws the loaders discharge; \<open>Coff\<close> and \<open>Elf\<close> model \<open>coff.c\<close> and \<open>elf.c\<close> and interpret it.
  \<^item> \<open>LowMem\<close>: \<open>lcall\<close>, \<open>int2f\<close>, \<open>get_low_pool\<close>, \<open>shrink_low\<close>, \<open>free_low\<close> and \<open>dpmi_init\<close> of \<open>util.c\<close>.
  \<^item> \<open>Headers\<close>: the first half of \<open>stub.c\<close>, up to the payload: the loop over the headers is \<open>scan_step\<close> and
    \<open>scan_headers\<close>, with the step relation \<open>scan_path\<close>; \<open>mz_chain\<close> describes the files with a chain of headers.
  \<^item> \<open>Stub\<close>: the rest of \<open>stub.c\<close>; \<open>fullstub\<close> is split at its calls into \<open>fill_info\<close>, \<open>setup_client\<close>, \<open>load_client\<close> and \<open>enter_client\<close>. It interprets \<open>ldops\<close> once more for
    the run-time choice between the two loaders; the tables \<open>coff_ops\<close> and \<open>elf_ops\<close> are shown to dispatch that way.
  \<^item> \<open>Ministub\<close>: \<open>ministub.c\<close>; the two passes over the environment are \<open>env_count\<close> and \<open>env_fill\<close>, the branches of \<open>main\<close>
    behind the query are \<open>builtin_loader\<close> and \<open>hosted_loader\<close>.
  \<^item> \<open>Enter\<close>: no further code, but what \<open>dpmi_init\<close> and \<open>enter_client\<close> leave of the program on a host that
    behaves as documented while it is entered (\<open>entry_host\<close>): DOS and the host may rewrite conventional memory, the
    mode switch may add descriptors and give \<open>ds\<close> another selector for the same segment; they keep the statics of
    the program, its descriptors and the blocks above conventional memory. The host's private memory pool is included.
  \<^item> \<open>Payload\<close>: no further code, but the two executable formats as representations of one abstract program
    (\<open>payload\<close>, with its entry point and its list of \<open>segment\<close>s), and what the loaders do in its terms.
  \<^item> \<open>Boot\<close>: the abstract specification of the whole: the program that is to run (\<open>program_at\<close>: an executable behind
    stub headers, or the file named by \<open>ELFEXEC\<close>) and what it finds at its entry (\<open>client_ready\<close>), with the proof that
    \<open>fullstub\<close> and \<open>main\<close> establish it.
  \<^item> \<open>Stubify\<close>: \<open>djstubify2.py\<close>: \<open>coff2exe\<close> with its loop \<open>exe_loop\<close> over the headers (\<open>exe_step\<close>, \<open>stub_header\<close>) and
    its copy loop, the options (\<open>apply_opt\<close>), the branch \<open>-g\<close> of \<open>main\<close> (\<open>generate\<close>) and \<open>main\<close> itself
    (\<open>stubify_main\<close>). \<open>dj_file\<close> says what a file with a header is, for both sides.
  \<^item> \<open>Toolchain\<close>: the tool and the loader together.

  \<^bold>\<open>State and errors.\<close>
  Objects of the program whose address matters live in the memory \<open>own\<close>, everything reached through a
  descriptor or a linear address in \<open>lin\<close>. Diagnostics followed by \<open>exit\<close> are \<open>Inl (Exit_failure d)\<close>, a failing
  \<open>assert\<close> is \<open>Inl Assert_failed\<close>, an access outside of an object \<open>Inl Bad_access\<close>. Code that is not in the
  repository is a parameter: the interrupt handlers, the target of far calls, \<open>__dpmi_int\<close>, the descriptor
  tables behind \<open>lsl\<close> and \<open>lar\<close>, the outcome of \<open>malloc\<close>, the contents of the medium, and the function that opens files.

  \<^bold>\<open>Loops and bounds.\<close>
  There is no fuel. Loops that could run for ever are \<^theory_text>\<open>partial_function\<close> in the option type, \<open>None\<close> being
  the run that does not end: \<open>long_read_loop\<close> (shown total), \<open>scan_headers\<close> (ends when every header it reaches points behind itself, \<open>ascending\<close>,
  C28, and hangs when the chain of headers comes back to one it has seen, C22), \<open>exe_loop\<close> of the tool (the same loop on the other side; it ends
  when every header points forward, \<open>coff2exe_ends\<close>, and hangs on one that points to itself, \<open>coff2exe_hangs\<close>), \<open>env_count\<close> and \<open>env_fill\<close> (end exactly when there
  are two NULs in a row, C32). The environment theorems assume that the block is shorter than \<open>2 ^ 31\<close> bytes, so
  that the \<open>int\<close> index of the source does not overflow; \<open>lseek\<close> works on 31-bit positions as the 32-bit \<open>off_t\<close> does.
\<close>

text \<open>
  \<^bold>\<open>What the theorems show.\<close>
  \<^item> C1, C2: the program as a whole. On a well-formed COFF or ELF executable, stubbed or named by \<open>ELFEXEC\<close>, \<open>main\<close> and
    \<open>fullstub\<close> always end, and unless the host refuses, the program is entered at its entry point, in flat 32-bit segments
    in which all sections or \<open>PT_LOAD\<close> segments of its file stand at their addresses (\<open>client_ready\<close>). The hypotheses are
    \<open>dpmi_host\<close> and \<open>entry_host\<close>, and for \<open>main\<close> that the query leaves the environment block alone (\<open>query_spares\<close>); nothing
    is assumed of the extension. They rest on the theorems of all components.
  \<^item> C21, C3, C4: each of the 38 DPMI wrappers meets its documented contract, and writes
    only where its prototype says, with one exception.
  \<^item> C5, C6: \<open>_long_read\<close> delivers the bytes of the file, but reports a read error as success. C37: the two
    variants of the far-memory routines agree within the limit of the segment.
  \<^item> C7 to C10 and C11 to C16: the loaders recover the headers of well-formed files, refuse the others with the
    right diagnostic, place every section, and leave the rest alone up to one byte: the stale byte behind an odd copy, the cleared byte
    behind an odd bss, and with regular segments at most the byte behind the announced range.
  \<^item> C17, C18: the interrupt call, and what \<open>dpmi_init\<close> does on every answer of the host.
  \<^item> C19, C24, C26, C30: the tool. Files that \<open>djstubify\<close> writes, plain or linked with further payloads, are loaded
    by \<open>fullstub\<close> as in C2, and the stub info block finds their payloads; taking a stub of version 8 or later off gives the program
    back, and a new stub keeps program and header; stripping removes the debug information, and the second time hides the host payload as well.
  \<^item> C20, C22: the header loop follows a chain of headers to its end, and when it does not end; C36 is its
    invariant.
  \<^item> C23, C25, C27 to C29: the descriptors with base, limit and access rights, the bounds of what is written, the stub info
    block, the termination of \<open>fullstub\<close> and the size of the block it requests from the host. C33: the client reads back
    every member of the block at the offsets of \<open>stubinfo.h\<close>.
  \<^item> C31, C32, C34: the two passes over the environment agree, end, read and write only what they should, and
    give back the strings of the block. C35: the query for the extension.
  \<^item> C38 to C40: \<open>main\<close> on any file and host: when it enters the extension, that it is \<open>fullstub\<close> otherwise, and
    that it comes to an end.

  \<^bold>\<open>Not modelled.\<close>
  The branches under \<open>__GNUC__\<close> in \<open>stub.c\<close> and \<open>dpmi_init\<close>: the Makefile builds the SmallerC variant, which is the one
  translated, and the other cannot be built, because the branch in \<open>dpmi_init\<close> has lost the line that tests the
  carry flag (\<open>util.c\<close>, line 221), so that its braces do not match. The code under \<open>#if 0\<close>, which is wrappers
  without a body. Text that is printed (each message is a value of type \<open>diag\<close>; warnings have no
  effect). \<open>close\<close>, and the output after the extension returned. The unused constants of \<open>elf.h\<close> and prototypes of
  \<open>dpmi.h\<close> that have no body. Of \<open>djstubify2.py\<close>: the report of \<open>-i\<close> (and with it \<open>elf.py\<close>, whose structures serve
  only this report), the splitting of the command line by \<open>getopt\<close> and the conversion of numbers, the failure to
  open an output file. The shell scripts around it (\<open>djlink\<close>, \<open>djstrip\<close>, \<open>djelfextract\<close>) and the packaging. The updates of the static stub info block are kept in a record and stored into memory once, before the jump
  (\<open>enter_client\<close>); nothing reads the block in memory before, but for the handle of the memory block, which is
  stored there by the wrapper. \<open>getenv\<close> is looked up in the strings of the environment block that \<open>main\<close> has read. Overlap of \<open>own\<close> and \<open>lin\<close> is excluded by the model:
  a host that handed out memory of the stub itself is outside of it.
\<close>

end
